(* ===== verification/Prelude.thy ===== *)
theory Prelude
  imports Main "HOL-Library.Word" "HOL-Library.Monad_Syntax"
begin

text \<open>
  Shared vocabulary of the development: the fixed-width integer types of the C code,
  bounds-checked array access, big-endian 16-bit encoding, the counting loop, and the generic
  lemmas about them.

  An array access outside the array is undefined behaviour in C. Here it is an explicit outcome:
  \<open>rd xs i\<close> and \<open>wr xs i v\<close> return \<open>None\<close> when \<open>i\<close> is out of range, and every definition that
  reads a received buffer or indexes a table with a value taken from one threads that \<open>None\<close>
  upward. A theorem of the form \<open>f x = Some y\<close> therefore also states that \<open>f\<close> made no access out
  of bounds on \<open>x\<close>.
\<close>

unbundle bit_operations_syntax

type_synonym u8 = "8 word"
type_synonym u16 = "16 word"
type_synonym u32 = "32 word"

named_theorems array_simps \<open>evaluation rules of checked array access\<close>

section \<open>Checked array access\<close>

definition rd :: "'a list \<Rightarrow> nat \<Rightarrow> 'a option" where
  "rd xs i = (if i < length xs then Some (xs ! i) else None)"

definition wr :: "'a list \<Rightarrow> nat \<Rightarrow> 'a \<Rightarrow> 'a list option" where
  "wr xs i v = (if i < length xs then Some (xs[i := v]) else None)"

lemma rd_Some [array_simps]: "i < length xs \<Longrightarrow> rd xs i = Some (xs ! i)"
  by (simp add: rd_def)

lemma rd_None [array_simps]: "length xs \<le> i \<Longrightarrow> rd xs i = None"
  by (simp add: rd_def)

lemma wr_Some [array_simps]: "i < length xs \<Longrightarrow> wr xs i v = Some (xs[i := v])"
  by (simp add: wr_def)

lemma rd_eq_Some_iff: "rd xs i = Some v \<longleftrightarrow> i < length xs \<and> xs ! i = v"
  by (auto simp: rd_def)

lemma wr_eq_Some_iff: "wr xs i v = Some ys \<longleftrightarrow> i < length xs \<and> ys = xs[i := v]"
  by (auto simp: wr_def)

text \<open>A run of \<open>n\<close> consecutive checked reads from index \<open>a\<close>.\<close>

definition rd_span :: "'a list \<Rightarrow> nat \<Rightarrow> nat \<Rightarrow> 'a list option" where
  "rd_span xs a n = those (map (\<lambda>i. rd xs (a + i)) [0..<n])"

lemma those_map_Some: "(\<And>x. x \<in> set xs \<Longrightarrow> f x = Some (g x)) \<Longrightarrow> those (map f xs) = Some (map g xs)"
  by (induction xs) auto

lemma those_map_None: "\<exists>x \<in> set xs. f x = None \<Longrightarrow> those (map f xs) = None"
  by (induction xs) (auto split: option.splits)

lemma length_those: "those xs = Some ys \<Longrightarrow> length ys = length xs"
  by (induction xs arbitrary: ys) (auto split: option.splits)

lemma take_drop_conv_map_nth:
  "a + n \<le> length xs \<Longrightarrow> take n (drop a xs) = map (\<lambda>i. xs ! (a + i)) [0..<n]"
  by (intro nth_equalityI) auto

lemma rd_span_Some [array_simps]:
  assumes "a + n \<le> length xs"
  shows "rd_span xs a n = Some (take n (drop a xs))"
proof -
  have "those (map (\<lambda>i. rd xs (a + i)) [0..<n]) = Some (map (\<lambda>i. xs ! (a + i)) [0..<n])"
    using assms by (intro those_map_Some) (simp add: rd_def)
  then show ?thesis
    using assms by (simp add: rd_span_def take_drop_conv_map_nth)
qed

lemma rd_span_eq_Some_iff:
  "rd_span xs a n = Some ys \<longleftrightarrow> ys = take n (drop a xs) \<and> (a + n \<le> length xs \<or> n = 0)"
proof (cases "a + n \<le> length xs")
  case True
  then show ?thesis by (auto simp: rd_span_Some)
next
  case out: False
  show ?thesis
  proof (cases "n = 0")
    case True
    then show ?thesis by (auto simp: rd_span_def)
  next
    case False
    with out have "\<exists>i \<in> set [0..<n]. rd xs (a + i) = None"
      by (intro bexI [of _ "n - 1"]) (auto simp: rd_def)
    then have "rd_span xs a n = None"
      unfolding rd_span_def by (rule those_map_None)
    with out False show ?thesis by simp
  qed
qed

section \<open>Big-endian 16-bit values\<close>

text \<open>\<open>((uint16_t)hi << 8) | lo\<close>, \<open>(uint8_t)(v >> 8)\<close> and \<open>(uint8_t)(v & 0xFF)\<close>.\<close>

definition be16 :: "u8 \<Rightarrow> u8 \<Rightarrow> u16" where
  "be16 h l = push_bit 8 (ucast h) OR ucast l"

definition hi8 :: "u16 \<Rightarrow> u8" where
  "hi8 v = ucast (drop_bit 8 v)"

definition lo8 :: "u16 \<Rightarrow> u8" where
  "lo8 v = ucast (v AND 0xFF)"

lemma bit_be16: "bit (be16 h l) n \<longleftrightarrow> (if n < 8 then bit l n else bit h (n - 8))"
  by (auto simp: be16_def bit_simps dest: bit_imp_le_length)

lemma bit_hi8: "bit (hi8 v) n \<longleftrightarrow> n < 8 \<and> bit v (n + 8)"
  by (auto simp: hi8_def bit_simps add.commute dest: bit_imp_le_length)

lemma mask8_eq: "(0xFF :: 'a::len word) = mask 8"
  by (simp add: mask_eq_exp_minus_1)

lemma bit_lo8: "bit (lo8 v) n \<longleftrightarrow> n < 8 \<and> bit v n"
  by (auto simp: lo8_def mask8_eq bit_simps dest: bit_imp_le_length)

lemma hi8_be16 [simp]: "hi8 (be16 h l) = h"
  by (rule bit_eqI) (auto simp: bit_hi8 bit_be16)

lemma lo8_be16 [simp]: "lo8 (be16 h l) = l"
  by (rule bit_eqI) (auto simp: bit_lo8 bit_be16)

lemma be16_hi8_lo8 [simp]: "be16 (hi8 v) (lo8 v) = v"
  by (rule bit_eqI) (auto simp: bit_hi8 bit_lo8 bit_be16)

lemma be16_inject [simp]: "be16 h l = be16 h' l' \<longleftrightarrow> h = h' \<and> l = l'"
  by (metis hi8_be16 lo8_be16)

lemma be16_eq_iff: "be16 h l = v \<longleftrightarrow> h = hi8 v \<and> l = lo8 v"
  by auto

definition be_bytes :: "u16 list \<Rightarrow> u8 list" where
  "be_bytes vs = concat (map (\<lambda>v. [hi8 v, lo8 v]) vs)"

lemma be_bytes_Nil [simp]: "be_bytes [] = []"
  by (simp add: be_bytes_def)

lemma be_bytes_Cons [simp]: "be_bytes (v # vs) = hi8 v # lo8 v # be_bytes vs"
  by (simp add: be_bytes_def)

lemma be_bytes_append [simp]: "be_bytes (vs @ ws) = be_bytes vs @ be_bytes ws"
  by (simp add: be_bytes_def)

lemma length_be_bytes [simp]: "length (be_bytes vs) = 2 * length vs"
  by (induction vs) auto

lemma nth_be_bytes:
  "i < length vs \<Longrightarrow> be_bytes vs ! (2 * i) = hi8 (vs ! i) \<and> be_bytes vs ! (2 * i + 1) = lo8 (vs ! i)"
proof (induction vs arbitrary: i)
  case Nil
  then show ?case by simp
next
  case (Cons v vs)
  then show ?case by (cases i) auto
qed

text \<open>Checked read of one, and of \<open>n\<close> consecutive, big-endian values at byte offset \<open>off\<close>.\<close>

definition rd16 :: "u8 list \<Rightarrow> nat \<Rightarrow> u16 option" where
  "rd16 xs i = do { h \<leftarrow> rd xs i; l \<leftarrow> rd xs (i + 1); Some (be16 h l) }"

definition rd16_span :: "u8 list \<Rightarrow> nat \<Rightarrow> nat \<Rightarrow> u16 list option" where
  "rd16_span xs off n = those (map (\<lambda>i. rd16 xs (off + 2 * i)) [0..<n])"

lemma rd16_Some [array_simps]: "i + 1 < length xs \<Longrightarrow> rd16 xs i = Some (be16 (xs ! i) (xs ! (i + 1)))"
  by (simp add: rd16_def rd_def)

lemma rd16_None: "length xs \<le> i + 1 \<Longrightarrow> rd16 xs i = None"
  by (auto simp: rd16_def rd_def)

lemma rd16_span_Some [array_simps]:
  assumes "off + 2 * n \<le> length xs"
  shows "rd16_span xs off n = Some (map (\<lambda>i. be16 (xs ! (off + 2 * i)) (xs ! (off + 2 * i + 1))) [0..<n])"
  unfolding rd16_span_def using assms by (intro those_map_Some) (simp add: rd16_Some)

lemma rd16_span_be_bytes:
  assumes "off + 2 * length vs \<le> length xs"
    and "\<And>i. i < 2 * length vs \<Longrightarrow> xs ! (off + i) = be_bytes vs ! i"
  shows "rd16_span xs off (length vs) = Some vs"
proof -
  have "map (\<lambda>i. be16 (xs ! (off + 2 * i)) (xs ! (off + 2 * i + 1))) [0..<length vs] = vs"
  proof (intro nth_equalityI)
    fix i
    assume "i < length (map (\<lambda>i. be16 (xs ! (off + 2 * i)) (xs ! (off + 2 * i + 1))) [0..<length vs])"
    then have i: "i < length vs" by simp
    with assms(2) [of "2 * i"] assms(2) [of "2 * i + 1"] nth_be_bytes [OF i]
    show "map (\<lambda>i. be16 (xs ! (off + 2 * i)) (xs ! (off + 2 * i + 1))) [0..<length vs] ! i = vs ! i"
      by (simp add: add.assoc)
  qed simp
  with assms(1) show ?thesis by (simp add: rd16_span_Some)
qed

lemma rd16_span_append:
  "rd16_span (xs @ be_bytes vs @ ys) (length xs) (length vs) = Some vs"
  by (rule rd16_span_be_bytes) (auto simp: nth_append)

lemma length_rd16_span: "rd16_span xs off n = Some vs \<Longrightarrow> length vs = n"
  by (auto simp: rd16_span_def dest: length_those)

lemma rd16_span_None:
  assumes "length xs < off + 2 * n" and "0 < n"
  shows "rd16_span xs off n = None"
proof -
  have "\<exists>i \<in> set [0..<n]. rd16 xs (off + 2 * i) = None"
    using assms by (intro bexI [of _ "n - 1"]) (auto intro: rd16_None)
  then show ?thesis unfolding rd16_span_def by (rule those_map_None)
qed

lemma unat_inject [simp]: "unat (a :: 'a::len word) = unat b \<longleftrightarrow> a = b"
  by (simp add: word_eq_iff_unsigned [where ?'a = nat])

lemma unat_u8_less: "unat (x :: u8) < 256"
  using unsigned_less [where 'b = 8 and 'a = nat, of x] by simp

lemma unat_u16_less: "unat (x :: u16) < 65536"
  using unsigned_less [where 'b = 16 and 'a = nat, of x] by simp

lemma unat_u32_less: "unat (x :: u32) < 4294967296"
  using unsigned_less [where 'b = 32 and 'a = nat, of x] by simp

lemma unat_u8_of_nat [simp]: "n < 256 \<Longrightarrow> unat (of_nat n :: u8) = n"
  by (simp add: unat_of_nat take_bit_nat_eq_self_iff)

lemma unat_u16_of_nat [simp]: "n < 65536 \<Longrightarrow> unat (of_nat n :: u16) = n"
  by (simp add: unat_of_nat take_bit_nat_eq_self_iff)

lemma unat_u32_of_nat [simp]: "n < 4294967296 \<Longrightarrow> unat (of_nat n :: u32) = n"
  by (simp add: unat_of_nat take_bit_nat_eq_self_iff)

lemma of_nat_eq_u8_iff: "m < 256 \<Longrightarrow> (of_nat m :: u8) = b \<longleftrightarrow> m = unat b"
  by (metis unat_u8_of_nat of_nat_unat ucast_id)

lemma unat_ucast_u8_u16 [simp]: "unat (ucast (l :: u8) :: u16) = unat l"
  by (simp add: unsigned_ucast_eq take_bit_nat_eq_self_iff) (use unat_u8_less [of l] in simp)

lemma unat_be16: "unat (be16 h l) = 256 * unat h + unat l"
proof -
  have "be16 h l = push_bit 8 (ucast h) + ucast l"
    unfolding be16_def by (rule disjunctive_add [symmetric]) (auto simp: bit_simps dest: bit_imp_le_length)
  then show ?thesis
    using unat_u8_less [of h] unat_u8_less [of l]
    by (simp add: push_bit_eq_mult unat_word_ariths)
qed

text \<open>Time that passes adds to the time elapsed, until the clock has gone round.\<close>

lemma elapsed_add:
  assumes "unat (x - s :: u32) + n < 2 ^ 32"
  shows "unat (x + of_nat n - s) = unat (x - s) + n"
proof -
  have "unat ((x - s) + of_nat n) = unat (x - s) + n"
    using assms by (simp only: unat_word_ariths unat_of_nat) (simp add: mod_simps)
  then show ?thesis by (simp add: algebra_simps)
qed

text \<open>The bytes of a string constant, without the terminator.\<close>

definition str_bytes :: "string \<Rightarrow> u8 list" where
  "str_bytes s = map of_char s"

section \<open>Evaluation on explicit lists\<close>

lemma rd_Cons [simp]:
  "rd (x # xs) 0 = Some x"
  "rd (x # xs) (Suc n) = rd xs n"
  "rd (x # xs) (numeral k) = rd xs (pred_numeral k)"
  "rd [] n = None"
  by (auto simp: rd_def numeral_eq_Suc)

lemma rd16_Cons [simp]:
  "rd16 (h # l # xs) 0 = Some (be16 h l)"
  "rd16 (x # xs) (Suc n) = rd16 xs n"
  "rd16 (x # xs) (numeral k) = rd16 xs (pred_numeral k)"
  by (auto simp: rd16_def numeral_eq_Suc)

lemma rd_span_0 [simp]: "rd_span xs a 0 = Some []"
  by (simp add: rd_span_def)

lemma rd_span_Cons [simp]:
  "rd_span (x # xs) (Suc a) n = rd_span xs a n"
  "rd_span (x # xs) (numeral k) n = rd_span xs (pred_numeral k) n"
  "rd_span (x # xs) 0 (Suc n) = map_option ((#) x) (rd_span xs 0 n)"
  "rd_span (x # xs) 0 (numeral k) = map_option ((#) x) (rd_span xs 0 (pred_numeral k))"
proof -
  show 1: "rd_span (x # xs) (Suc a) n = rd_span xs a n" for a
    by (simp add: rd_span_def)
  show 2: "rd_span (x # xs) 0 (Suc n) = map_option ((#) x) (rd_span xs 0 n)" for n
  proof -
    have "[0..<Suc n] = 0 # map Suc [0..<n]"
      by (simp add: upt_conv_Cons map_Suc_upt)
    then show ?thesis
      by (simp add: rd_span_def comp_def split: option.splits)
  qed
  show "rd_span (x # xs) (numeral k) n = rd_span xs (pred_numeral k) n"
    by (simp add: numeral_eq_Suc 1)
  show "rd_span (x # xs) 0 (numeral k) = map_option ((#) x) (rd_span xs 0 (pred_numeral k))"
    by (simp add: numeral_eq_Suc 2)
qed

section \<open>Counting loops\<close>

text \<open>
  \<open>for (i = 0; i < n; i++) body\<close> over an explicit state; a body that faults stops the loop.
\<close>

primrec for_n :: "nat \<Rightarrow> (nat \<Rightarrow> 's \<Rightarrow> 's option) \<Rightarrow> 's \<Rightarrow> 's option" where
  "for_n 0 body s = Some s"
| "for_n (Suc n) body s = do { t \<leftarrow> for_n n body s; body n t }"

lemma for_n_invariant:
  assumes "P 0 s"
    and "\<And>i t. i < n \<Longrightarrow> P i t \<Longrightarrow> \<exists>t'. body i t = Some t' \<and> P (Suc i) t'"
  shows "\<exists>t. for_n n body s = Some t \<and> P n t"
  using assms(2)
proof (induction n)
  case 0
  with assms(1) show ?case by simp
next
  case (Suc n)
  then obtain t where "for_n n body s = Some t" and "P n t"
    by (metis less_Suc_eq)
  with Suc.prems [of n t] show ?case by auto
qed

lemma for_n_Some: "for_n n (\<lambda>i s. Some (f i s)) s = Some (fold f [0..<n] s)"
  by (induction n) auto

lemma for_n_cong_Some:
  "(\<And>i t. i < n \<Longrightarrow> body i t = Some (f i t)) \<Longrightarrow> for_n n body s = Some (fold f [0..<n] s)"
  by (induction n) auto

end
