(* ===== verification/Modbus_Types.thy ===== *)
theory Modbus_Types
  imports Prelude
begin

text \<open>
  The constants of the Modbus protocol as \<open>inc/modbus.h\<close>, \<open>src/modbus.c\<close>, \<open>inc/modbus_tcp.h\<close>,
  \<open>inc/modbus_master.h\<close> and \<open>inc/board_config.h\<close> define them, under their names there. Like the macros
  of the code they stand for their values; a size has the type its context asks for.
\<close>

section \<open>Function codes\<close>

abbreviation (input) MODBUS_FC_READ_COILS :: u8 where "MODBUS_FC_READ_COILS \<equiv> 0x01"
abbreviation (input) MODBUS_FC_READ_DISCRETE_INPUTS :: u8 where "MODBUS_FC_READ_DISCRETE_INPUTS \<equiv> 0x02"
abbreviation (input) MODBUS_FC_READ_HOLDING_REGISTERS :: u8 where "MODBUS_FC_READ_HOLDING_REGISTERS \<equiv> 0x03"
abbreviation (input) MODBUS_FC_READ_INPUT_REGISTERS :: u8 where "MODBUS_FC_READ_INPUT_REGISTERS \<equiv> 0x04"
abbreviation (input) MODBUS_FC_WRITE_SINGLE_COIL :: u8 where "MODBUS_FC_WRITE_SINGLE_COIL \<equiv> 0x05"
abbreviation (input) MODBUS_FC_WRITE_SINGLE_REGISTER :: u8 where "MODBUS_FC_WRITE_SINGLE_REGISTER \<equiv> 0x06"
abbreviation (input) MODBUS_FC_READ_EXCEPTION_STATUS :: u8 where "MODBUS_FC_READ_EXCEPTION_STATUS \<equiv> 0x07"
abbreviation (input) MODBUS_FC_DIAGNOSTICS :: u8 where "MODBUS_FC_DIAGNOSTICS \<equiv> 0x08"
abbreviation (input) MODBUS_FC_GET_COMM_EVENT_COUNTER :: u8 where "MODBUS_FC_GET_COMM_EVENT_COUNTER \<equiv> 0x0B"
abbreviation (input) MODBUS_FC_GET_COMM_EVENT_LOG :: u8 where "MODBUS_FC_GET_COMM_EVENT_LOG \<equiv> 0x0C"
abbreviation (input) MODBUS_FC_WRITE_MULTIPLE_COILS :: u8 where "MODBUS_FC_WRITE_MULTIPLE_COILS \<equiv> 0x0F"
abbreviation (input) MODBUS_FC_WRITE_MULTIPLE_REGISTERS :: u8 where "MODBUS_FC_WRITE_MULTIPLE_REGISTERS \<equiv> 0x10"
abbreviation (input) MODBUS_FC_REPORT_SERVER_ID :: u8 where "MODBUS_FC_REPORT_SERVER_ID \<equiv> 0x11"
abbreviation (input) MODBUS_FC_READ_FILE_RECORD :: u8 where "MODBUS_FC_READ_FILE_RECORD \<equiv> 0x14"
abbreviation (input) MODBUS_FC_WRITE_FILE_RECORD :: u8 where "MODBUS_FC_WRITE_FILE_RECORD \<equiv> 0x15"
abbreviation (input) MODBUS_FC_MASK_WRITE_REGISTER :: u8 where "MODBUS_FC_MASK_WRITE_REGISTER \<equiv> 0x16"
abbreviation (input) MODBUS_FC_READ_WRITE_MULTIPLE_REGS :: u8 where "MODBUS_FC_READ_WRITE_MULTIPLE_REGS \<equiv> 0x17"
abbreviation (input) MODBUS_FC_READ_FIFO_QUEUE :: u8 where "MODBUS_FC_READ_FIFO_QUEUE \<equiv> 0x18"
abbreviation (input) MODBUS_FC_ENCAPSULATED_INTERFACE :: u8 where "MODBUS_FC_ENCAPSULATED_INTERFACE \<equiv> 0x2B"

section \<open>Exception codes\<close>

abbreviation (input) MODBUS_EXC_ILLEGAL_FUNCTION :: u8 where "MODBUS_EXC_ILLEGAL_FUNCTION \<equiv> 0x01"
abbreviation (input) MODBUS_EXC_ILLEGAL_DATA_ADDRESS :: u8 where "MODBUS_EXC_ILLEGAL_DATA_ADDRESS \<equiv> 0x02"
abbreviation (input) MODBUS_EXC_ILLEGAL_DATA_VALUE :: u8 where "MODBUS_EXC_ILLEGAL_DATA_VALUE \<equiv> 0x03"
abbreviation (input) MODBUS_EXC_SLAVE_DEVICE_FAILURE :: u8 where "MODBUS_EXC_SLAVE_DEVICE_FAILURE \<equiv> 0x04"

section \<open>Device identification and files\<close>

abbreviation (input) MODBUS_MEI_READ_DEVICE_ID :: u8 where "MODBUS_MEI_READ_DEVICE_ID \<equiv> 0x0E"
abbreviation (input) MODBUS_DEVID_BASIC :: u8 where "MODBUS_DEVID_BASIC \<equiv> 0x01"
abbreviation (input) MODBUS_DEVID_REGULAR :: u8 where "MODBUS_DEVID_REGULAR \<equiv> 0x02"
abbreviation (input) MODBUS_DEVID_EXTENDED :: u8 where "MODBUS_DEVID_EXTENDED \<equiv> 0x03"
abbreviation (input) MODBUS_DEVID_SPECIFIC :: u8 where "MODBUS_DEVID_SPECIFIC \<equiv> 0x04"
abbreviation (input) MODBUS_DEVID_OBJ_VENDOR_NAME :: u8 where "MODBUS_DEVID_OBJ_VENDOR_NAME \<equiv> 0x00"
abbreviation (input) MODBUS_DEVID_OBJ_PRODUCT_CODE :: u8 where "MODBUS_DEVID_OBJ_PRODUCT_CODE \<equiv> 0x01"
abbreviation (input) MODBUS_DEVID_OBJ_MAJOR_MINOR_REV :: u8 where "MODBUS_DEVID_OBJ_MAJOR_MINOR_REV \<equiv> 0x02"
abbreviation (input) MODBUS_FILE_REF_TYPE :: u8 where "MODBUS_FILE_REF_TYPE \<equiv> 0x06"

section \<open>Quantities and sizes\<close>

abbreviation (input) MODBUS_MAX_READ_COILS :: u16 where "MODBUS_MAX_READ_COILS \<equiv> 2000"
abbreviation (input) MODBUS_MAX_READ_REGISTERS :: u16 where "MODBUS_MAX_READ_REGISTERS \<equiv> 125"
abbreviation (input) MODBUS_MAX_WRITE_COILS :: u16 where "MODBUS_MAX_WRITE_COILS \<equiv> 1968"
abbreviation (input) MODBUS_MAX_WRITE_REGISTERS :: u16 where "MODBUS_MAX_WRITE_REGISTERS \<equiv> 123"

abbreviation (input) MODBUS_MAX_REGISTERS :: "'a :: numeral" where "MODBUS_MAX_REGISTERS \<equiv> 256"
abbreviation (input) MODBUS_MAX_COILS :: "'a :: numeral" where "MODBUS_MAX_COILS \<equiv> 128"
abbreviation (input) MODBUS_FILE_COUNT :: "'a :: numeral" where "MODBUS_FILE_COUNT \<equiv> 4"
abbreviation (input) MODBUS_FILE_SIZE_REGS :: "'a :: numeral" where "MODBUS_FILE_SIZE_REGS \<equiv> 128"
abbreviation (input) MODBUS_FIFO_COUNT :: "'a :: numeral" where "MODBUS_FIFO_COUNT \<equiv> 2"
abbreviation (input) MODBUS_FIFO_DEPTH :: "'a :: numeral" where "MODBUS_FIFO_DEPTH \<equiv> 31"
abbreviation (input) MODBUS_RTU_FRAME_MAX :: "'a :: numeral" where "MODBUS_RTU_FRAME_MAX \<equiv> 256"
abbreviation (input) MODBUS_TCP_MBAP_SIZE :: "'a :: numeral" where "MODBUS_TCP_MBAP_SIZE \<equiv> 7"
abbreviation (input) MODBUS_TCP_MAX_PDU :: "'a :: numeral" where "MODBUS_TCP_MAX_PDU \<equiv> 253"
abbreviation (input) MODBUS_TCP_MAX_ADU :: "'a :: numeral" where "MODBUS_TCP_MAX_ADU \<equiv> MODBUS_TCP_MBAP_SIZE + MODBUS_TCP_MAX_PDU"
abbreviation (input) MODBUS_MASTER_DEVID_VALUE_MAX :: u8 where "MODBUS_MASTER_DEVID_VALUE_MAX \<equiv> 64"
abbreviation (input) MODBUS_MASTER_DEVID_OBJECTS_MAX :: u8 where "MODBUS_MASTER_DEVID_OBJECTS_MAX \<equiv> 8"

section \<open>Serial line timing\<close>

abbreviation (input) MODBUS_RTU_BITS_PER_CHAR :: u32 where "MODBUS_RTU_BITS_PER_CHAR \<equiv> 11"
abbreviation (input) MODBUS_RTU_BAUD_THRESHOLD :: u32 where "MODBUS_RTU_BAUD_THRESHOLD \<equiv> 19200"
abbreviation (input) MODBUS_RTU_T15_FIXED_US :: u32 where "MODBUS_RTU_T15_FIXED_US \<equiv> 750"
abbreviation (input) MODBUS_RTU_T35_FIXED_US :: u32 where "MODBUS_RTU_T35_FIXED_US \<equiv> 1750"

text \<open>A function code leaves the exception bit free, so no request is taken for an exception response.\<close>

lemma function_code_plain:
  "fc \<in> {MODBUS_FC_READ_COILS, MODBUS_FC_READ_DISCRETE_INPUTS, MODBUS_FC_READ_HOLDING_REGISTERS, MODBUS_FC_READ_INPUT_REGISTERS,
     MODBUS_FC_WRITE_SINGLE_COIL, MODBUS_FC_WRITE_SINGLE_REGISTER, MODBUS_FC_READ_EXCEPTION_STATUS, MODBUS_FC_DIAGNOSTICS,
     MODBUS_FC_GET_COMM_EVENT_COUNTER, MODBUS_FC_GET_COMM_EVENT_LOG, MODBUS_FC_WRITE_MULTIPLE_COILS,
     MODBUS_FC_WRITE_MULTIPLE_REGISTERS, MODBUS_FC_REPORT_SERVER_ID, MODBUS_FC_READ_FILE_RECORD, MODBUS_FC_WRITE_FILE_RECORD,
     MODBUS_FC_MASK_WRITE_REGISTER, MODBUS_FC_READ_WRITE_MULTIPLE_REGS, MODBUS_FC_READ_FIFO_QUEUE,
     MODBUS_FC_ENCAPSULATED_INTERFACE} \<Longrightarrow> fc AND 0x80 = 0"
  by auto

end
