(* ===== verification/Crc.thy ===== *)
theory Crc
  imports Modbus_Types
begin

text \<open>
  The RTU checksum of \<open>src/modbus.c\<close> (\<open>modbus_crc_init_tables\<close>, \<open>modbus_crc16\<close>) and the
  silent-interval computation \<open>modbus_rtu_timeouts_us\<close>.

  The two lookup tables are constants once \<open>modbus_crc_init_tables\<close> has run, and
  \<open>modbus_crc16\<close> runs it before the first lookup, so they are modelled as the lists it fills.
  The interface locale \<open>frame_check\<close> states what the framing layers need of a checksum; it is
  interpreted on \<open>modbus_crc16\<close>.
\<close>

section \<open>Definitions\<close>

text \<open>One bit of the table generator: the body of the inner loop.\<close>

definition crc_bit_step :: "u16 \<Rightarrow> u16" where
  "crc_bit_step crc =
     (if crc AND 0x0001 \<noteq> 0 then drop_bit 1 crc XOR 0xA001 else drop_bit 1 crc)"

definition crc_entry :: "u16 \<Rightarrow> u16" where
  "crc_entry i = (crc_bit_step ^^ 8) i"

definition low_crc_table :: "u16 list" where
  "low_crc_table = map (\<lambda>i. crc_entry (of_nat i) AND 0xFF) [0..<256]"

definition high_crc_table :: "u16 list" where
  "high_crc_table = map (\<lambda>i. drop_bit 8 (crc_entry (of_nat i))) [0..<256]"

text \<open>The body of the loop of \<open>modbus_crc16\<close>; the pair is \<open>(crc_hi, crc_lo)\<close>.\<close>

definition crc_update :: "u8 \<times> u8 \<Rightarrow> u8 \<Rightarrow> u8 \<times> u8" where
  "crc_update = (\<lambda>(crc_hi, crc_lo) b.
     let idx = crc_lo XOR b;
         crc_lo' = ucast (ucast crc_hi XOR high_crc_table ! unat idx);
         crc_hi' = ucast (low_crc_table ! unat idx)
     in (crc_hi', crc_lo'))"

definition modbus_crc16 :: "u8 list \<Rightarrow> u16" where
  "modbus_crc16 buf = (case foldl crc_update (0xFF, 0xFF) buf of (crc_hi, crc_lo) \<Rightarrow> be16 crc_hi crc_lo)"

definition modbus_rtu_timeouts_us :: "u32 \<Rightarrow> u32 \<times> u32" where
  "modbus_rtu_timeouts_us baudrate =
     (let baudrate = (if baudrate = 0 then 9600 else baudrate)
      in if baudrate > MODBUS_RTU_BAUD_THRESHOLD then (MODBUS_RTU_T15_FIXED_US, MODBUS_RTU_T35_FIXED_US)
         else let char_time_us = (MODBUS_RTU_BITS_PER_CHAR * 1000000 + baudrate - 1) div baudrate
              in ((char_time_us * 3) div 2, (char_time_us * 7) div 2))"

text \<open>
  Reference: the CRC-16 of Modbus over Serial Line V1.02, shifting the message in bit by bit.
\<close>

definition crc16_modbus_ref :: "u8 list \<Rightarrow> u16" where
  "crc16_modbus_ref buf = foldl (\<lambda>c b. crc_entry (c XOR ucast b)) 0xFFFF buf"

definition swap8 :: "u16 \<Rightarrow> u16" where
  "swap8 w = be16 (lo8 w) (hi8 w)"

section \<open>The tables\<close>

lemma length_crc_tables [simp]: "length low_crc_table = 256" "length high_crc_table = 256"
  by (simp_all add: low_crc_table_def high_crc_table_def)

lemma of_nat_unat_ucast: "(of_nat (unat (i :: u8)) :: u16) = ucast i"
  by simp

lemma low_crc_table_nth [simp]: "ucast (low_crc_table ! unat (i :: u8)) = lo8 (crc_entry (ucast i))"
  using unat_u8_less [of i] by (simp add: low_crc_table_def lo8_def of_nat_unat_ucast)

lemma high_crc_table_nth [simp]: "ucast (high_crc_table ! unat (i :: u8)) = hi8 (crc_entry (ucast i))"
  using unat_u8_less [of i] by (simp add: high_crc_table_def hi8_def of_nat_unat_ucast)

lemma high_crc_table_bits: "high_crc_table ! unat (i :: u8) = drop_bit 8 (crc_entry (ucast i))"
  using unat_u8_less [of i] by (simp add: high_crc_table_def of_nat_unat_ucast)

lemma crc_update_eq:
  "crc_update (h, l) b =
     (lo8 (crc_entry (ucast (l XOR b))), h XOR hi8 (crc_entry (ucast (l XOR b))))"
  by (simp add: crc_update_def Let_def high_crc_table_bits hi8_def)
     (rule bit_eqI, auto simp: bit_simps)

lemma crc_bit_step_xor: "crc_bit_step (x XOR y) = crc_bit_step x XOR crc_bit_step y"
proof -
  have odd: "(w AND 1 \<noteq> 0) = bit w 0" for w :: u16
    by (simp add: and_one_eq bit_0 odd_iff_mod_2_eq_one)
  have "drop_bit 1 (x XOR y) = drop_bit 1 x XOR drop_bit 1 y" by (rule drop_bit_xor)
  then show ?thesis
    by (auto simp: crc_bit_step_def odd bit_xor_iff xor.assoc xor.commute xor.left_commute)
qed

lemma crc_bit_steps_xor: "(crc_bit_step ^^ n) (x XOR y) = (crc_bit_step ^^ n) x XOR (crc_bit_step ^^ n) y"
  by (induction n) (simp_all add: crc_bit_step_xor)

lemma crc_entry_xor: "crc_entry (x XOR y) = crc_entry x XOR crc_entry y"
  by (simp add: crc_entry_def crc_bit_steps_xor)

text \<open>The generator is linear over XOR, so eight entries determine the table.\<close>

lemma crc_entry_unfold:
  "crc_entry w = crc_bit_step (crc_bit_step (crc_bit_step (crc_bit_step
     (crc_bit_step (crc_bit_step (crc_bit_step (crc_bit_step w)))))))"
  by (simp add: crc_entry_def numeral_eq_Suc)

lemma crc_entry_basis:
  "crc_entry 1 = 0xC0C1"
  "crc_entry 2 = 0xC181"
  "crc_entry 4 = 0xC301"
  "crc_entry 8 = 0xC601"
  "crc_entry 16 = 0xCC01"
  "crc_entry 32 = 0xD801"
  "crc_entry 64 = 0xF001"
  "crc_entry 128 = 0xA001"
  by (simp_all add: crc_entry_unfold crc_bit_step_def)

lemma bit_if_zero: "bit (if c then k else 0) n \<longleftrightarrow> c \<and> bit k n"
  by simp

lemma u8_bits: "(d :: u8) =
      (if bit d 0 then 1 else 0) XOR
      (if bit d 1 then 2 else 0) XOR
      (if bit d 2 then 4 else 0) XOR
      (if bit d 3 then 8 else 0) XOR
      (if bit d 4 then 16 else 0) XOR
      (if bit d 5 then 32 else 0) XOR
      (if bit d 6 then 64 else 0) XOR
      (if bit d 7 then 128 else 0)"
proof (rule bit_word_eqI)
  fix n
  assume "n < LENGTH(8)"
  then have "n \<in> {0, 1, 2, 3, 4, 5, 6, 7}" by auto
  then show "bit d n = bit ((if bit d 0 then 1 else 0) XOR
      (if bit d 1 then 2 else 0) XOR
      (if bit d 2 then 4 else 0) XOR
      (if bit d 3 then 8 else 0) XOR
      (if bit d 4 then 16 else 0) XOR
      (if bit d 5 then 32 else 0) XOR
      (if bit d 6 then 64 else 0) XOR
      (if bit d 7 then 128 else 0) :: u8) n"
    by (elim insertE emptyE) (simp_all add: bit_xor_iff bit_if_zero del: if_split)
qed

lemma crc_entry_0 [simp]: "crc_entry 0 = 0"
  by (simp add: crc_entry_unfold crc_bit_step_def)

lemma crc_entry_if:
  "crc_entry (ucast (if c then k else (0 :: u8))) = (if c then crc_entry (ucast k) else 0)"
  by simp

lemma crc_entry_bits: "crc_entry (ucast (d :: u8)) =
     (if bit d 0 then 0xC0C1 else 0) XOR
     (if bit d 1 then 0xC181 else 0) XOR
     (if bit d 2 then 0xC301 else 0) XOR
     (if bit d 3 then 0xC601 else 0) XOR
     (if bit d 4 then 0xCC01 else 0) XOR
     (if bit d 5 then 0xD801 else 0) XOR
     (if bit d 6 then 0xF001 else 0) XOR
     (if bit d 7 then 0xA001 else 0)"
  by (subst u8_bits [of d])
     (simp only: unsigned_xor_eq crc_entry_xor crc_entry_if unsigned_numeral unsigned_1
       crc_entry_basis, simp add: crc_entry_basis del: if_split)

section \<open>Detection of a corrupted byte\<close>

definition par8 :: "u8 \<Rightarrow> bool" where
  "par8 d \<longleftrightarrow> (bit d 0 \<noteq> (bit d 1 \<noteq> (bit d 2 \<noteq> (bit d 3 \<noteq>
     (bit d 4 \<noteq> (bit d 5 \<noteq> (bit d 6 \<noteq> bit d 7)))))))"

lemma crc_entry_lo_bits:
  fixes l :: u8
  shows "bit (lo8 (crc_entry (ucast l))) 0 \<longleftrightarrow> par8 l"
    and "\<not> bit (lo8 (crc_entry (ucast l))) (Suc 0)" and "\<not> bit (lo8 (crc_entry (ucast l))) 2"
    and "\<not> bit (lo8 (crc_entry (ucast l))) 3" and "\<not> bit (lo8 (crc_entry (ucast l))) 4"
    and "\<not> bit (lo8 (crc_entry (ucast l))) 5"
    and "bit (lo8 (crc_entry (ucast l))) 6 \<longleftrightarrow> bit l 0"
    and "bit (lo8 (crc_entry (ucast l))) 7 \<longleftrightarrow> (bit l 0 \<noteq> bit l (Suc 0))"
  by (simp_all add: crc_entry_bits bit_lo8 bit_xor_iff bit_if_zero par8_def del: if_split)

lemma crc_entry_hi_bits:
  fixes l :: u8
  shows "bit (hi8 (crc_entry (ucast l))) 0 \<longleftrightarrow> (bit l (Suc 0) \<noteq> bit l 2)"
    and "bit (hi8 (crc_entry (ucast l))) (Suc 0) \<longleftrightarrow> (bit l 2 \<noteq> bit l 3)"
    and "bit (hi8 (crc_entry (ucast l))) 2 \<longleftrightarrow> (bit l 3 \<noteq> bit l 4)"
    and "bit (hi8 (crc_entry (ucast l))) 3 \<longleftrightarrow> (bit l 4 \<noteq> bit l 5)"
    and "bit (hi8 (crc_entry (ucast l))) 4 \<longleftrightarrow> (bit l 5 \<noteq> bit l 6)"
    and "bit (hi8 (crc_entry (ucast l))) 5 \<longleftrightarrow> (bit l 6 \<noteq> bit l 7)"
    and "bit (hi8 (crc_entry (ucast l))) 6 \<longleftrightarrow> (bit l 7 \<noteq> par8 l)"
    and "bit (hi8 (crc_entry (ucast l))) 7 \<longleftrightarrow> par8 l"
  by (simp_all add: crc_entry_bits bit_hi8 bit_xor_iff bit_if_zero par8_def del: if_split)
     (cases "bit l 0"; cases "bit l (Suc 0)"; cases "bit l 2"; cases "bit l 3";
      cases "bit l 4"; cases "bit l 5"; cases "bit l 6"; simp)

text \<open>How a difference between two register pairs evolves when the same byte is shifted in.\<close>

definition crc_delta :: "u8 \<times> u8 \<Rightarrow> u8 \<times> u8" where
  "crc_delta = (\<lambda>(h, l). (lo8 (crc_entry (ucast l)), h XOR hi8 (crc_entry (ucast l))))"

definition xor_pair :: "u8 \<times> u8 \<Rightarrow> u8 \<times> u8 \<Rightarrow> u8 \<times> u8" where
  "xor_pair a b = (fst a XOR fst b, snd a XOR snd b)"

lemma lo8_xor: "lo8 (x XOR y) = lo8 x XOR lo8 y"
  by (rule bit_eqI) (auto simp: bit_lo8 bit_xor_iff)

lemma hi8_xor: "hi8 (x XOR y) = hi8 x XOR hi8 y"
  by (rule bit_eqI) (auto simp: bit_hi8 bit_xor_iff)

lemma crc_update_xor:
  "crc_update (xor_pair s d) (b XOR e) = xor_pair (crc_update s b) (crc_delta (fst d, snd d XOR e))"
proof -
  have "snd s XOR snd d XOR (b XOR e) = (snd s XOR b) XOR (snd d XOR e)"
    by (simp add: xor.assoc xor.left_commute)
  then show ?thesis
    by (cases s; cases d)
       (simp add: xor_pair_def crc_update_eq crc_delta_def unsigned_xor_eq crc_entry_xor
         lo8_xor hi8_xor xor.assoc xor.left_commute)
qed

text \<open>
  The differences that a corrupted byte can cause lie in the subspace \<open>crc_stable\<close>, which
  \<open>crc_delta\<close> maps into itself injectively.
\<close>

definition crc_stable :: "u8 \<times> u8 \<Rightarrow> bool" where
  "crc_stable = (\<lambda>(h, l). \<not> bit h 1 \<and> \<not> bit h 2 \<and> \<not> bit h 3 \<and> \<not> bit h 4 \<and> \<not> bit h 5 \<and>
     (bit h 7 = (bit h 0 \<noteq> (bit l 1 \<noteq> (bit l 3 \<noteq> bit l 5)))))"

definition crc_live :: "u8 \<times> u8 \<Rightarrow> bool" where
  "crc_live d \<longleftrightarrow> d \<noteq> (0, 0) \<and> crc_stable d"

lemma u8_eq_0_iff:
  "(x :: u8) = 0 \<longleftrightarrow> \<not> bit x 0 \<and> \<not> bit x (Suc 0) \<and> \<not> bit x 2 \<and> \<not> bit x 3 \<and> \<not> bit x 4 \<and>
     \<not> bit x 5 \<and> \<not> bit x 6 \<and> \<not> bit x 7"
proof
  assume bits: "\<not> bit x 0 \<and> \<not> bit x (Suc 0) \<and> \<not> bit x 2 \<and> \<not> bit x 3 \<and> \<not> bit x 4 \<and>
     \<not> bit x 5 \<and> \<not> bit x 6 \<and> \<not> bit x 7"
  show "x = 0"
  proof (rule bit_word_eqI)
    fix n
    assume "n < LENGTH(8)"
    then have "n \<in> {0, Suc 0, 2, 3, 4, 5, 6, 7}" by auto
    with bits show "bit x n = bit 0 n" by auto
  qed
qed simp

lemmas crc_delta_bits = crc_delta_def crc_stable_def bit_xor_iff crc_entry_lo_bits crc_entry_hi_bits

lemma crc_delta_stable:
  assumes "\<not> bit h (Suc 0)" "\<not> bit h 3" "\<not> bit h 5"
  shows "crc_stable (crc_delta (h, l))"
  using assms
  by (simp add: crc_delta_bits par8_def)
     (cases "bit l 0"; cases "bit l (Suc 0)"; cases "bit l 2"; cases "bit l 3";
      cases "bit l 4"; cases "bit l 5"; cases "bit l 6"; simp)

lemma crc_stable_bits:
  "crc_stable (h, l) \<Longrightarrow> \<not> bit h (Suc 0) \<and> \<not> bit h 3 \<and> \<not> bit h 5"
  by (simp add: crc_stable_def)

lemma crc_stable_delta: "crc_stable d \<Longrightarrow> crc_stable (crc_delta d)"
  by (cases d) (simp add: crc_delta_stable crc_stable_bits)

lemma crc_stable_kernel: "crc_stable d \<Longrightarrow> crc_delta d = (0, 0) \<Longrightarrow> d = (0, 0)"
  by (cases d) (auto simp: crc_delta_bits u8_eq_0_iff)

lemma crc_live_start: "e \<noteq> 0 \<Longrightarrow> crc_live (crc_delta (0, e))"
  by (auto simp: crc_live_def crc_delta_stable)
     (auto simp: crc_delta_bits u8_eq_0_iff)

lemma crc_live_step: "crc_live d \<Longrightarrow> crc_live (crc_delta d)"
  by (auto simp: crc_live_def crc_stable_delta dest: crc_stable_kernel)

lemma crc_live_foldl:
  "crc_live d \<Longrightarrow> \<exists>d'. crc_live d' \<and> foldl crc_update (xor_pair s d) xs = xor_pair (foldl crc_update s xs) d'"
proof (induction xs arbitrary: s d)
  case Nil
  then show ?case by (intro exI [of _ d]) simp
next
  case (Cons x xs)
  have "crc_update (xor_pair s d) x = xor_pair (crc_update s x) (crc_delta d)"
    using crc_update_xor [of s d x 0] by simp
  with Cons.IH [OF crc_live_step [OF Cons.prems], of "crc_update s x"] show ?case by simp
qed

lemma word_xor_eq_self_iff: "x XOR d = x \<longleftrightarrow> d = (0 :: 'a::len word)"
proof
  assume "x XOR d = x"
  then have "x XOR (x XOR d) = x XOR x" by simp
  then show "d = 0" by (simp flip: xor.assoc)
qed simp

lemma modbus_crc16_detects_byte:
  assumes i: "i < length xs" and v: "v \<noteq> xs ! i"
  shows "modbus_crc16 (xs[i := v]) \<noteq> modbus_crc16 xs"
proof -
  define s where "s = foldl crc_update (0xFF, 0xFF) (take i xs)"
  define ys where "ys = drop (Suc i) xs"
  define e where "e = xs ! i XOR v"
  have e0: "e \<noteq> 0"
    using v word_xor_eq_self_iff [of "xs ! i" e] by (auto simp: e_def simp flip: xor.assoc)
  have v_eq: "v = xs ! i XOR e"
    by (simp add: e_def flip: xor.assoc)
  have xs: "xs = take i xs @ xs ! i # ys" and xs': "xs[i := v] = take i xs @ v # ys"
    using i by (simp_all add: ys_def id_take_nth_drop upd_conv_take_nth_drop)
  have "crc_update s v = xor_pair (crc_update s (xs ! i)) (crc_delta (0, e))"
    using crc_update_xor [of s "(0, 0)" "xs ! i" e] by (simp add: v_eq xor_pair_def)
  with crc_live_foldl [OF crc_live_start [OF e0], of "crc_update s (xs ! i)" ys]
  obtain d' where live: "crc_live d'"
    and f: "foldl crc_update s (v # ys) = xor_pair (foldl crc_update s (xs ! i # ys)) d'"
    by auto
  obtain h l where hl: "foldl crc_update s (xs ! i # ys) = (h, l)" by fastforce
  obtain dh dl where d': "d' = (dh, dl)" by fastforce
  have "modbus_crc16 (xs[i := v]) = be16 (h XOR dh) (l XOR dl)"
    using f hl d' by (simp add: modbus_crc16_def xs' s_def xor_pair_def)
  moreover have "modbus_crc16 xs = be16 h l"
    by (subst xs) (use hl in \<open>simp add: modbus_crc16_def s_def\<close>)
  moreover have "h XOR dh \<noteq> h \<or> l XOR dl \<noteq> l"
    using live d' by (auto simp: crc_live_def word_xor_eq_self_iff)
  ultimately show ?thesis by simp
qed

section \<open>Residue and the reference polynomial\<close>

lemma modbus_crc16_residue:
  "modbus_crc16 (xs @ [lo8 (modbus_crc16 xs), hi8 (modbus_crc16 xs)]) = 0"
proof -
  obtain h l where hl: "foldl crc_update (0xFF, 0xFF) xs = (h, l)" by fastforce
  then have "modbus_crc16 xs = be16 h l" by (simp add: modbus_crc16_def)
  with hl show ?thesis
    by (simp add: modbus_crc16_def crc_update_eq lo8_def [of 0] hi8_def [of 0] be16_def [of 0])
qed

lemma be16_xor: "be16 (a XOR c) (b XOR d) = be16 a b XOR be16 c d"
  by (rule bit_eqI) (auto simp: bit_be16 bit_xor_iff)

lemma drop_bit_8_be16: "drop_bit 8 (be16 h l) = be16 0 h"
  by (rule bit_eqI) (auto simp: bit_be16 bit_simps dest: bit_imp_le_length)

text \<open>
  The step the code performs, on the 16-bit register: the table entry is added with its two
  bytes exchanged. In the reference it is added as it is.
\<close>

lemma crc_update_swapped:
  "be16 (fst (crc_update (h, l) b)) (snd (crc_update (h, l) b)) =
     drop_bit 8 (be16 h l) XOR swap8 (crc_entry (ucast (lo8 (be16 h l) XOR b)))"
proof -
  have "be16 0 h XOR be16 x y = be16 x (h XOR y)" for x y
    by (simp flip: be16_xor)
  then show ?thesis by (simp add: crc_update_eq swap8_def drop_bit_8_be16)
qed

lemma modbus_crc16_swapped_entries:
  "modbus_crc16 buf =
     foldl (\<lambda>c b. drop_bit 8 c XOR swap8 (crc_entry (ucast (lo8 c XOR b)))) 0xFFFF buf"
proof -
  have "be16 (fst (foldl crc_update s xs)) (snd (foldl crc_update s xs)) =
      foldl (\<lambda>c b. drop_bit 8 c XOR swap8 (crc_entry (ucast (lo8 c XOR b)))) (be16 (fst s) (snd s)) xs"
    for s xs
  proof (induction xs arbitrary: s)
    case Nil
    then show ?case by simp
  next
    case (Cons x xs)
    show ?case using Cons.IH [of "crc_update s x"] crc_update_swapped [of "fst s" "snd s" x] by simp
  qed
  from this [of "(0xFF, 0xFF)" buf] show ?thesis
    by (cases "foldl crc_update (0xFF, 0xFF) buf") (simp add: modbus_crc16_def be16_def)
qed

lemma crc_entry_high: "crc_entry (be16 h 0) = be16 0 h"
proof -
  have step: "crc_bit_step w = drop_bit 1 w" if "\<not> bit w 0" for w
    using that by (simp add: crc_bit_step_def and_one_eq bit_0 odd_iff_mod_2_eq_one)
  have "(crc_bit_step ^^ n) (be16 h 0) = drop_bit n (be16 h 0)" if "n \<le> 8" for n
    using that
  proof (induction n)
    case 0
    then show ?case by simp
  next
    case (Suc n)
    then have "\<not> bit (drop_bit n (be16 h 0)) 0"
      by (simp add: bit_drop_bit_eq bit_be16)
    with Suc show ?case by (simp add: step drop_bit_drop_bit [of 1])
  qed
  from this [of 8] show ?thesis by (simp add: crc_entry_def drop_bit_8_be16)
qed

lemma crc_entry_byte_split: "crc_entry w = drop_bit 8 w XOR crc_entry (ucast (lo8 w))"
proof -
  have "w = be16 (hi8 w) 0 XOR be16 0 (lo8 w)" by (simp flip: be16_xor)
  then have "crc_entry w = crc_entry (be16 (hi8 w) 0) XOR crc_entry (be16 0 (lo8 w))"
    by (metis crc_entry_xor)
  moreover have "be16 0 (lo8 w) = ucast (lo8 w)" by (simp add: be16_def)
  moreover have "be16 0 (hi8 w) = drop_bit 8 w"
    by (rule bit_eqI) (auto simp: bit_be16 bit_hi8 bit_simps add.commute dest: bit_imp_le_length)
  ultimately show ?thesis by (simp add: crc_entry_high)
qed

text \<open>The reference step, with the same table: only the byte order of the entry differs.\<close>

lemma crc16_modbus_ref_table:
  "crc16_modbus_ref buf = foldl (\<lambda>c b. drop_bit 8 c XOR crc_entry (ucast (lo8 c XOR b))) 0xFFFF buf"
proof -
  have "drop_bit 8 (c XOR ucast b) = drop_bit 8 c" and "lo8 (c XOR ucast b) = lo8 c XOR b"
    for c :: u16 and b :: u8
    by (rule bit_eqI; auto simp: bit_lo8 bit_simps dest: bit_imp_le_length)+
  then have "crc_entry (c XOR ucast b) = drop_bit 8 c XOR crc_entry (ucast (lo8 c XOR b))" for c b
    by (metis crc_entry_byte_split)
  then show ?thesis by (simp add: crc16_modbus_ref_def)
qed

section \<open>The checksum interface of the framing layers\<close>

text \<open>
  The sender appends the checksum of the body, low byte first; the receiver recomputes it over
  all but the last two bytes. These two expressions occur in \<open>modbus_rtu_process\<close>,
  \<open>modbus_master_rtu_frame\<close> and \<open>modbus_master_rtu_validate_response\<close>.
\<close>

definition rtu_seal :: "(u8 list \<Rightarrow> u16) \<Rightarrow> u8 list \<Rightarrow> u8 list" where
  "rtu_seal crc body = body @ [lo8 (crc body), hi8 (crc body)]"

definition rtu_check :: "(u8 list \<Rightarrow> u16) \<Rightarrow> u8 list \<Rightarrow> bool" where
  "rtu_check crc adu \<longleftrightarrow>
     be16 (adu ! (length adu - 1)) (adu ! (length adu - 2)) = crc (take (length adu - 2) adu)"

lemma length_rtu_seal [simp]: "length (rtu_seal crc body) = length body + 2"
  by (simp add: rtu_seal_def)

locale frame_check =
  fixes crc :: "u8 list \<Rightarrow> u16"
  assumes detects_byte: "i < length xs \<Longrightarrow> v \<noteq> xs ! i \<Longrightarrow> crc (xs[i := v]) \<noteq> crc xs"
begin

lemma check_seal: "rtu_check crc (rtu_seal crc body)"
  by (simp add: rtu_check_def rtu_seal_def nth_append)

lemma seal_of_check:
  assumes "rtu_check crc adu" and "2 \<le> length adu"
  shows "adu = rtu_seal crc (take (length adu - 2) adu)"
proof -
  have "adu = take (length adu - 2) adu @ [adu ! (length adu - 2), adu ! (length adu - 1)]"
  proof (rule nth_equalityI)
    fix i
    assume "i < length adu"
    then consider "i < length adu - 2" | "i = length adu - 2" | "i = length adu - 1" by linarith
    then show "adu ! i = (take (length adu - 2) adu @ [adu ! (length adu - 2), adu ! (length adu - 1)]) ! i"
      using assms(2) by cases (auto simp: nth_append)
  qed (use assms(2) in auto)
  with assms(1) show ?thesis
    by (simp add: rtu_check_def rtu_seal_def be16_eq_iff)
qed

text \<open>A frame with one byte changed, in the body or in the checksum itself, is rejected.\<close>

lemma corrupt_rejected:
  assumes ok: "rtu_check crc adu" and len: "2 \<le> length adu"
    and i: "i < length adu" and v: "v \<noteq> adu ! i"
  shows "\<not> rtu_check crc (adu[i := v])"
proof (cases "i < length adu - 2")
  case True
  then have "crc ((take (length adu - 2) adu)[i := v]) \<noteq> crc (take (length adu - 2) adu)"
    using v by (intro detects_byte) auto
  with True ok show ?thesis
    by (auto simp: rtu_check_def take_update_swap)
next
  case False
  with i have "i = length adu - 2 \<or> i = length adu - 1" by linarith
  with ok len v show ?thesis
    by (auto simp: rtu_check_def be16_eq_iff nth_list_update)
qed

end

interpretation mb_crc: frame_check modbus_crc16
  by unfold_locales (rule modbus_crc16_detects_byte)

section \<open>Silent intervals\<close>

definition char_time_us :: "u32 \<Rightarrow> nat" where
  "char_time_us baudrate =
     (let b = (if baudrate = 0 then 9600 else unat baudrate) in (11000000 + b - 1) div b)"

lemma u32_div: "unat ((a :: u32) div b) = unat a div unat b"
  by (rule unat_div)

lemma timeouts_low_baud:
  assumes "baudrate \<le> 19200"
  shows "unat (fst (modbus_rtu_timeouts_us baudrate)) = char_time_us baudrate * 3 div 2"
    and "unat (snd (modbus_rtu_timeouts_us baudrate)) = char_time_us baudrate * 7 div 2"
proof -
  define b where "b = (if baudrate = 0 then 9600 else baudrate)"
  have b: "0 < unat b" "unat b \<le> 19200"
    using assms by (auto simp: b_def word_le_nat_alt unat_gt_0)
  have sum: "unat (11 * 1000000 + b - 1) = 11000000 + unat b - 1"
    using b by (simp add: unat_word_ariths unat_sub_if')
  define c where "c = (11 * 1000000 + b - 1) div b"
  have c: "unat c = (11000000 + unat b - 1) div unat b"
    by (simp only: c_def u32_div sum)
  have "unat c \<le> 11000000 + unat b - 1" unfolding c by (rule div_le_dividend)
  with b have le: "unat c \<le> 11019199" by linarith
  have low: "\<not> b > 19200" using b by (simp add: word_less_nat_alt)
  have eq: "modbus_rtu_timeouts_us baudrate = ((c * 3) div 2, (c * 7) div 2)"
    using low by (simp add: modbus_rtu_timeouts_us_def b_def c_def Let_def)
  have ct: "char_time_us baudrate = unat c"
    by (auto simp: char_time_us_def c b_def Let_def)
  show "unat (fst (modbus_rtu_timeouts_us baudrate)) = char_time_us baudrate * 3 div 2"
    using le by (simp add: eq ct u32_div unat_word_ariths)
  show "unat (snd (modbus_rtu_timeouts_us baudrate)) = char_time_us baudrate * 7 div 2"
    using le by (simp add: eq ct u32_div unat_word_ariths)
qed

lemma timeouts_high_baud:
  "19200 < baudrate \<Longrightarrow> modbus_rtu_timeouts_us baudrate = (750, 1750)"
  by (auto simp: modbus_rtu_timeouts_us_def Let_def)

section \<open>The properties of the checksum and the silent intervals\<close>

text \<open>
  Changing any one byte of any message, in any way, changes its checksum.
\<close>

theorem crc_single_byte_error:
  "\<forall>xs i v. i < length xs \<longrightarrow> v \<noteq> xs ! i \<longrightarrow> modbus_crc16 (xs[i := v]) \<noteq> modbus_crc16 xs"
  using mb_crc.detects_byte by blast

lemma crc_single_byte_error_witness:
  "modbus_crc16 ([1, 3, 0][1 := 4]) \<noteq> modbus_crc16 [1, 3, 0]"
  using crc_single_byte_error [rule_format, of 1 "[1, 3, 0]" 4] by simp

text \<open>
  C38: The loop over the two byte tables computes the shift register of a table-free CRC, except that
  it adds each table entry with its two bytes exchanged: the first equation is the code's, the
  second the reference's, in the same form.
\<close>

theorem crc_register_form:
  "modbus_crc16 buf = foldl (\<lambda>c b. drop_bit 8 c XOR swap8 (crc_entry (ucast (lo8 c XOR b)))) 0xFFFF buf \<and>
   crc16_modbus_ref buf = foldl (\<lambda>c b. drop_bit 8 c XOR crc_entry (ucast (lo8 c XOR b))) 0xFFFF buf"
  using modbus_crc16_swapped_entries crc16_modbus_ref_table by blast

text \<open>
  The checksum is not the CRC-16/MODBUS of the protocol: the lookup uses the two bytes of each
  table entry in swapped order. For the request \<open>01 03 00 00 00 0A\<close> the code computes 0x40ED where
  the reference algorithm gives 0xCDC5, so a frame with the standard checksum fails the code's check.
\<close>

theorem crc_not_standard:
  "modbus_crc16 [0x01, 0x03, 0, 0, 0, 0x0A] = 0x40ED \<and> crc16_modbus_ref [0x01, 0x03, 0, 0, 0, 0x0A] = 0xCDC5 \<and>
   \<not> rtu_check modbus_crc16 (rtu_seal crc16_modbus_ref [0x01, 0x03, 0, 0, 0, 0x0A])"
proof -
  have 1: "modbus_crc16 [0x01, 0x03, 0, 0, 0, 0x0A] = 0x40ED"
    by (simp add: modbus_crc16_def crc_update_eq crc_entry_unfold crc_bit_step_def be16_def lo8_def hi8_def)
  have 2: "crc16_modbus_ref [0x01, 0x03, 0, 0, 0, 0x0A] = 0xCDC5"
    by (simp add: crc16_modbus_ref_def crc_entry_unfold crc_bit_step_def)
  show ?thesis by (simp add: 1 2 rtu_check_def rtu_seal_def)
qed

text \<open>
  C36: The silent intervals: up to 19200 baud T1.5 and T3.5 are the integer parts of 1.5 and 3.5
  times the 11-bit character time rounded up to a microsecond, with no overflow of the 32-bit
  arithmetic, and above it the fixed 750 and 1750 microseconds; baud rate 0 counts as 9600.
\<close>

theorem timeouts_correct:
  "(unat (fst (modbus_rtu_timeouts_us baudrate)), unat (snd (modbus_rtu_timeouts_us baudrate))) =
    (if baudrate > 19200 then (750, 1750)
     else (char_time_us baudrate * 3 div 2, char_time_us baudrate * 7 div 2))"
  using timeouts_low_baud [of baudrate] timeouts_high_baud [of baudrate] by (auto simp: not_less)

end
