(* ===== verification/Framer.thy ===== *)
theory Framer
  imports Crc
begin

text \<open>
  The RTU framing engine \<open>src/rtu_framer.c\<close>: assembly of received bytes into frames by silent
  intervals (T1.5 aborts a frame, T3.5 ends it), with a second buffer for the completed frame.

  The SysTick registers are the argument \<open>systick\<close> of every operation that reads the clock. Here an
  operation is one atomic step of the state, and \<open>framer_step\<close> is the relation of these steps;
  \<open>Framer_Irq\<close> takes the operations apart at the sections the code runs with interrupts disabled. A
  buffer write out of range is \<open>None\<close>.
\<close>

section \<open>State\<close>

datatype rtu_framer_state = RTU_FRAMER_IDLE | RTU_FRAMER_RECEIVING

record rtu_framer =
  rx_buffer :: "u8 list"
  completed_buffer :: "u8 list"
  buffer_size :: u16
  t15_us :: u32
  t35_us :: u32
  rx_callback :: bool
  fstate :: rtu_framer_state
  rx_len :: u16
  frame_ready :: bool
  completed_len :: u16
  ms_tick :: u32
  last_byte_us :: u32
  t35_armed :: bool

text \<open>One sample of the SysTick block: the reload value, the counter, the pending bit, and the
  counter read again when the bit is set.\<close>

record systick =
  LOAD :: u32
  VAL :: u32
  PENDSTSET :: bool
  VAL_again :: u32

section \<open>The timebase\<close>

definition rtu_time_us :: "rtu_framer \<Rightarrow> systick \<Rightarrow> u32" where
  "rtu_time_us f k =
     (let ms = (if PENDSTSET k then ms_tick f + 1 else ms_tick f);
          val = (if PENDSTSET k then VAL_again k else VAL k)
      in ms * 1000 + ((LOAD k - val) * 1000) div (LOAD k + 1))"

definition rtu_elapsed_us :: "rtu_framer \<Rightarrow> systick \<Rightarrow> u32" where
  "rtu_elapsed_us f k = rtu_time_us f k - last_byte_us f"

definition rtu_timer_start_t35 :: "systick \<Rightarrow> rtu_framer \<Rightarrow> rtu_framer" where
  "rtu_timer_start_t35 k f = f\<lparr>last_byte_us := rtu_time_us f k, t35_armed := True\<rparr>"

definition rtu_timer_stop :: "rtu_framer \<Rightarrow> rtu_framer" where
  "rtu_timer_stop f = f\<lparr>t35_armed := False\<rparr>"

section \<open>Operations\<close>

text \<open>The loop that copies the first \<open>n\<close> bytes of one buffer to another.\<close>

definition copy_bytes :: "nat \<Rightarrow> u8 list \<Rightarrow> u8 list \<Rightarrow> u8 list option" where
  "copy_bytes n src dst = for_n n (\<lambda>i d. do { v \<leftarrow> rd src i; wr d i v }) dst"

definition rtu_try_complete_frame :: "systick \<Rightarrow> rtu_framer \<Rightarrow> rtu_framer option" where
  "rtu_try_complete_frame k f =
     (if \<not> t35_armed f then Some f
      else if t35_armed f \<and> fstate f = RTU_FRAMER_RECEIVING \<and> rtu_elapsed_us f k \<ge> t35_us f then
        let len = rx_len f;
            g = f\<lparr>t35_armed := False, rx_len := 0, fstate := RTU_FRAMER_IDLE\<rparr>
        in if len > 0 then
             (if frame_ready g then Some g
              else do {
                let len = (if len > buffer_size g then buffer_size g else len);
                c \<leftarrow> copy_bytes (unat len) (rx_buffer g) (completed_buffer g);
                Some (g\<lparr>completed_buffer := c, completed_len := len, frame_ready := True\<rparr>)
              })
           else Some g
      else Some f)"

definition rtu_reset_frame :: "rtu_framer \<Rightarrow> rtu_framer" where
  "rtu_reset_frame f = f\<lparr>rx_len := 0, fstate := RTU_FRAMER_IDLE, t35_armed := False\<rparr>"

definition rtu_framer_init :: "u8 list \<Rightarrow> u8 list \<Rightarrow> u16 \<Rightarrow> u32 \<Rightarrow> rtu_framer \<Rightarrow> rtu_framer" where
  "rtu_framer_init rx_buf completed_buf sz baudrate f =
     (let sz = (if sz > 256 then 256 else sz); (t15, t35) = modbus_rtu_timeouts_us baudrate
      in f\<lparr>rx_buffer := rx_buf, completed_buffer := completed_buf, buffer_size := sz,
           rx_callback := False, t15_us := t15, t35_us := t35,
           rx_len := 0, fstate := RTU_FRAMER_IDLE, frame_ready := False, completed_len := 0,
           t35_armed := False, last_byte_us := 0\<rparr>)"

definition rtu_framer_set_callback :: "bool \<Rightarrow> rtu_framer \<Rightarrow> rtu_framer" where
  "rtu_framer_set_callback callback f = f\<lparr>rx_callback := callback\<rparr>"

definition rtu_framer_on_systick :: "systick \<Rightarrow> rtu_framer \<Rightarrow> rtu_framer option" where
  "rtu_framer_on_systick k f = rtu_try_complete_frame k (f\<lparr>ms_tick := ms_tick f + 1\<rparr>)"

text \<open>\<open>k\<close> is the sample of the T1.5 test, \<open>k'\<close> the one that restarts the timer.\<close>

definition rtu_framer_on_byte :: "systick \<Rightarrow> systick \<Rightarrow> u8 \<Rightarrow> rtu_framer \<Rightarrow> rtu_framer option" where
  "rtu_framer_on_byte k k' byte f =
     (if frame_ready f \<and> fstate f = RTU_FRAMER_IDLE then Some f
      else if fstate f = RTU_FRAMER_IDLE then do {
        b \<leftarrow> wr (rx_buffer f) 0 byte;
        Some (rtu_timer_start_t35 k' (f\<lparr>rx_buffer := b, rx_len := 1, fstate := RTU_FRAMER_RECEIVING\<rparr>))
      }
      else if rtu_elapsed_us f k > t15_us f then
        (if frame_ready f then Some (f\<lparr>fstate := RTU_FRAMER_IDLE, rx_len := 0, t35_armed := False\<rparr>)
         else do {
           b \<leftarrow> wr (rx_buffer f) 0 byte;
           Some (rtu_timer_start_t35 k' (f\<lparr>rx_buffer := b, rx_len := 1\<rparr>))
         })
      else if rx_len f < buffer_size f then do {
        b \<leftarrow> wr (rx_buffer f) (unat (rx_len f)) byte;
        Some (rtu_timer_start_t35 k' (f\<lparr>rx_buffer := b, rx_len := rx_len f + 1\<rparr>))
      }
      else Some (rtu_timer_start_t35 k' f))"

text \<open>The frame handed to the callback is returned, \<open>[]\<close> when there is none.\<close>

definition rtu_framer_process :: "systick \<Rightarrow> rtu_framer \<Rightarrow> (u8 list \<times> rtu_framer) option" where
  "rtu_framer_process k f = do {
     f \<leftarrow> rtu_try_complete_frame k f;
     if \<not> rx_callback f then Some ([], f)
     else if frame_ready f \<and> completed_len f > 0 then do {
       loc \<leftarrow> rd_span (completed_buffer f) 0 (unat (completed_len f));
       Some (loc, f\<lparr>frame_ready := False, completed_len := 0\<rparr>)
     }
     else Some ([], f)
   }"

definition rtu_framer_read :: "u16 \<Rightarrow> rtu_framer \<Rightarrow> (u8 list \<times> rtu_framer) option" where
  "rtu_framer_read max_len f =
     (if max_len = 0 then Some ([], f)
      else if frame_ready f \<and> completed_len f > 0 then do {
        let count = (if completed_len f > max_len then max_len else completed_len f);
        out \<leftarrow> rd_span (completed_buffer f) 0 (unat count);
        Some (out, f\<lparr>frame_ready := False, completed_len := 0\<rparr>)
      }
      else Some ([], f))"

definition rtu_framer_flush :: "rtu_framer \<Rightarrow> rtu_framer" where
  "rtu_framer_flush f = (rtu_reset_frame (rtu_timer_stop f))\<lparr>frame_ready := False, completed_len := 0\<rparr>"

definition rtu_framer_tx_begin :: "rtu_framer \<Rightarrow> rtu_framer" where
  "rtu_framer_tx_begin f = (rtu_reset_frame (rtu_timer_stop f))\<lparr>frame_ready := False\<rparr>"

text \<open>
  The busy wait of \<open>rtu_framer_delay_t35\<close>: \<open>time n\<close> is the value of the \<open>n\<close>-th call of
  \<open>rtu_time_us\<close> after the first; the result is the number of calls that found the gap too short.
\<close>

partial_function (option) delay_loop :: "(nat \<Rightarrow> u32) \<Rightarrow> u32 \<Rightarrow> u32 \<Rightarrow> nat \<Rightarrow> nat option" where
  "delay_loop time start t35 n =
     (if time n - start < t35 then delay_loop time start t35 (Suc n) else Some n)"

definition rtu_framer_delay_t35 :: "u32 \<Rightarrow> (nat \<Rightarrow> u32) \<Rightarrow> rtu_framer \<Rightarrow> (nat \<times> rtu_framer) option" where
  "rtu_framer_delay_t35 start time f = do {
     let f = rtu_timer_stop f;
     n \<leftarrow> delay_loop time start (t35_us f) 0;
     Some (n, f)
   }"

definition rtu_framer_bytes_available :: "rtu_framer \<Rightarrow> u16" where
  "rtu_framer_bytes_available f = (if fstate f = RTU_FRAMER_RECEIVING then rx_len f else 0)"

definition rtu_framer_get_t15_us :: "rtu_framer \<Rightarrow> u32" where
  "rtu_framer_get_t15_us f = t15_us f"

definition rtu_framer_get_t35_us :: "rtu_framer \<Rightarrow> u32" where
  "rtu_framer_get_t35_us f = t35_us f"

section \<open>Steps and the invariant\<close>

datatype framer_event =
    Byte systick systick u8
  | Tick systick
  | Process systick
  | Read u16
  | Flush
  | Tx_Begin

inductive framer_step :: "rtu_framer \<Rightarrow> framer_event \<Rightarrow> u8 list \<Rightarrow> rtu_framer \<Rightarrow> bool" where
  byte: "rtu_framer_on_byte k k' b f = Some g \<Longrightarrow> framer_step f (Byte k k' b) [] g"
| tick: "rtu_framer_on_systick k f = Some g \<Longrightarrow> framer_step f (Tick k) [] g"
| process: "rtu_framer_process k f = Some (out, g) \<Longrightarrow> framer_step f (Process k) out g"
| read: "rtu_framer_read n f = Some (out, g) \<Longrightarrow> framer_step f (Read n) out g"
| flush: "framer_step f Flush [] (rtu_framer_flush f)"
| tx_begin: "framer_step f Tx_Begin [] (rtu_framer_tx_begin f)"

inductive_cases framer_stepE: "framer_step f e out g"
inductive_simps framer_step_Byte: "framer_step f (Byte k k' b) out g"
inductive_simps framer_step_Tick: "framer_step f (Tick k) out g"

definition framer_wf :: "rtu_framer \<Rightarrow> bool" where
  "framer_wf f \<longleftrightarrow>
     0 < unat (buffer_size f) \<and> unat (buffer_size f) \<le> 256 \<and>
     unat (buffer_size f) \<le> length (rx_buffer f) \<and> unat (buffer_size f) \<le> length (completed_buffer f) \<and>
     unat (rx_len f) \<le> unat (buffer_size f) \<and> unat (completed_len f) \<le> unat (buffer_size f) \<and>
     (t35_armed f \<longrightarrow> fstate f = RTU_FRAMER_RECEIVING) \<and>
     (fstate f = RTU_FRAMER_RECEIVING \<longrightarrow> 0 < rx_len f)"

lemma copy_bytes_eq:
  assumes "n \<le> length src" and "n \<le> length dst"
  shows "copy_bytes n src dst = Some (take n src @ drop n dst)"
  using assms unfolding copy_bytes_def
proof (induction n)
  case 0
  then show ?case by simp
next
  case (Suc n)
  then show ?case
    by (simp add: rd_Some wr_def list_update_append take_Suc_conv_app_nth Cons_nth_drop_Suc [symmetric])
qed

lemma try_complete_eq:
  assumes "framer_wf f"
  shows "rtu_try_complete_frame k f = Some
    (if t35_armed f \<and> rtu_elapsed_us f k \<ge> t35_us f then
       (let g = f\<lparr>t35_armed := False, rx_len := 0, fstate := RTU_FRAMER_IDLE\<rparr> in
        if frame_ready f then g
        else g\<lparr>completed_buffer := take (unat (rx_len f)) (rx_buffer f) @ drop (unat (rx_len f)) (completed_buffer f),
               completed_len := rx_len f, frame_ready := True\<rparr>)
     else f)"
proof -
  have "\<not> rx_len f > buffer_size f"
    using assms by (simp add: framer_wf_def word_less_nat_alt)
  then show ?thesis
    using assms by (auto simp: rtu_try_complete_frame_def framer_wf_def Let_def copy_bytes_eq)
qed

lemma framer_wf_try:
  "framer_wf f \<Longrightarrow> rtu_try_complete_frame k f = Some g \<Longrightarrow> framer_wf g"
  by (auto simp: try_complete_eq) (auto simp: framer_wf_def Let_def)

lemma wf_tick: "framer_wf f \<Longrightarrow> framer_wf (f\<lparr>ms_tick := n\<rparr>)"
  by (simp add: framer_wf_def)

lemma on_byte_total:
  assumes "framer_wf f"
  shows "\<exists>g. rtu_framer_on_byte k k' b f = Some g \<and> framer_wf g"
proof -
  have sz: "0 < unat (buffer_size f)" "unat (buffer_size f) \<le> length (rx_buffer f)"
    "unat (rx_len f) \<le> unat (buffer_size f)" "unat (buffer_size f) \<le> 256"
    using assms by (simp_all add: framer_wf_def)
  then have "rx_buffer f \<noteq> []" by auto
  have inc: "unat (rx_len f + 1) = unat (rx_len f) + 1"
    using sz by (simp add: unat_word_ariths)
  then have "rx_len f + 1 \<noteq> 0" by (metis Suc_eq_plus1 nat.distinct(1) unat_0)
  show ?thesis
    using assms sz \<open>rx_buffer f \<noteq> []\<close> inc \<open>rx_len f + 1 \<noteq> 0\<close>
    by (cases "fstate f") (auto simp: rtu_framer_on_byte_def wr_def framer_wf_def rtu_timer_start_t35_def word_less_nat_alt
        word_neq_0_conv [symmetric])
qed

lemma process_total:
  assumes "framer_wf f"
  shows "\<exists>out g. rtu_framer_process k f = Some (out, g) \<and> framer_wf g \<and> length out \<le> 256"
proof -
  obtain g where g: "rtu_try_complete_frame k f = Some g" using try_complete_eq [OF assms] by simp
  with framer_wf_try [OF assms] have "framer_wf g" by blast
  then have "unat (completed_len g) \<le> 256" "unat (completed_len g) \<le> length (completed_buffer g)"
    "framer_wf (g\<lparr>frame_ready := False, completed_len := 0\<rparr>)"
    by (auto simp: framer_wf_def)
  with g \<open>framer_wf g\<close> show ?thesis by (simp add: rtu_framer_process_def rd_span_Some)
qed

lemma read_total:
  assumes "framer_wf f"
  shows "\<exists>out g. rtu_framer_read n f = Some (out, g) \<and> framer_wf g \<and> length out \<le> unat n"
proof -
  have "unat (if completed_len f > n then n else completed_len f) \<le> length (completed_buffer f)"
    "unat (if completed_len f > n then n else completed_len f) \<le> unat n"
    "framer_wf (f\<lparr>frame_ready := False, completed_len := 0\<rparr>)"
    using assms by (auto simp: framer_wf_def word_less_nat_alt)
  with assms show ?thesis by (simp add: rtu_framer_read_def rd_span_Some Let_def)
qed

inductive framer_run :: "rtu_framer \<Rightarrow> framer_event list \<Rightarrow> u8 list list \<Rightarrow> rtu_framer \<Rightarrow> bool" where
  run_nil: "framer_run f [] [] f"
| run_step: "framer_step f e out g \<Longrightarrow> framer_run g es outs h \<Longrightarrow> framer_run f (e # es) (out # outs) h"

inductive_simps framer_run_Nil: "framer_run f [] outs g"
inductive_simps framer_run_Cons: "framer_run f (e # es) outs g"

lemma framer_step_total:
  assumes "framer_wf f"
  shows "\<exists>out g. framer_step f e out g \<and> framer_wf g \<and> length out \<le> 65535"
proof (cases e)
  case (Byte k k' b)
  with on_byte_total [OF assms] show ?thesis by (metis framer_step.byte list.size(3) zero_le)
next
  case (Tick k)
  obtain g where "rtu_framer_on_systick k f = Some g"
    using try_complete_eq [OF wf_tick [OF assms]] by (simp add: rtu_framer_on_systick_def)
  moreover from this have "framer_wf g"
    unfolding rtu_framer_on_systick_def by (rule framer_wf_try [OF wf_tick [OF assms]])
  ultimately show ?thesis using Tick framer_step.tick by fastforce
next
  case (Process k)
  obtain out g where "rtu_framer_process k f = Some (out, g)" "framer_wf g" "length out \<le> 256"
    using process_total [OF assms] by blast
  with Process framer_step.process [of k f out g] show ?thesis by fastforce
next
  case (Read n)
  obtain out g where "rtu_framer_read n f = Some (out, g)" "framer_wf g" "length out \<le> unat n"
    using read_total [OF assms] by blast
  with Read framer_step.read [of n f out g] unat_u16_less [of n] show ?thesis by fastforce
next
  case Flush
  have "framer_wf (rtu_framer_flush f)"
    using assms by (simp add: framer_wf_def rtu_framer_flush_def rtu_reset_frame_def rtu_timer_stop_def)
  with Flush framer_step.flush [of f] show ?thesis by fastforce
next
  case Tx_Begin
  have "framer_wf (rtu_framer_tx_begin f)"
    using assms by (simp add: framer_wf_def rtu_framer_tx_begin_def rtu_reset_frame_def rtu_timer_stop_def)
  with Tx_Begin framer_step.tx_begin [of f] show ?thesis by fastforce
qed

lemma framer_step_det: "framer_step f e out g \<Longrightarrow> framer_step f e out' g' \<Longrightarrow> out' = out \<and> g' = g"
  by (erule framer_stepE; auto elim: framer_stepE)

lemma framer_step_wf: "framer_wf f \<Longrightarrow> framer_step f e out g \<Longrightarrow> framer_wf g"
  using framer_step_total framer_step_det by metis

lemma framer_run_total: "framer_wf f \<Longrightarrow> \<exists>outs g. framer_run f es outs g \<and> framer_wf g"
proof (induction es arbitrary: f)
  case Nil
  then show ?case using framer_run.run_nil by blast
next
  case (Cons e es)
  obtain out g where "framer_step f e out g" "framer_wf g" using framer_step_total [OF Cons.prems] by blast
  with Cons.IH [of g] framer_run.run_step show ?case by meson
qed

section \<open>Assembly of a frame\<close>

definition clock :: "u32 \<Rightarrow> systick \<Rightarrow> u32" where
  "clock ms k = rtu_time_us (undefined\<lparr>ms_tick := ms\<rparr>) k"

lemma rtu_time_clock: "rtu_time_us f k = clock (ms_tick f) k"
  by (simp add: clock_def rtu_time_us_def)

text \<open>
  \<open>gap_ok t15 t35 ms t0 es\<close>: the events are bytes and ticks, every byte follows the one before
  it (the first follows time \<open>t0\<close>) within T1.5, and no tick sees a silence of T3.5.
  \<open>ends ms t0 es\<close> is the tick count and the time of the last byte after them.
\<close>

fun gap_ok :: "u32 \<Rightarrow> u32 \<Rightarrow> u32 \<Rightarrow> u32 \<Rightarrow> framer_event list \<Rightarrow> bool" where
  "gap_ok t15 t35 ms t0 [] = True"
| "gap_ok t15 t35 ms t0 (Byte k k' b # es) = (clock ms k - t0 \<le> t15 \<and> gap_ok t15 t35 ms (clock ms k') es)"
| "gap_ok t15 t35 ms t0 (Tick k # es) = (clock (ms + 1) k - t0 < t35 \<and> gap_ok t15 t35 (ms + 1) t0 es)"
| "gap_ok t15 t35 ms t0 (_ # es) = False"

fun ends :: "u32 \<Rightarrow> u32 \<Rightarrow> framer_event list \<Rightarrow> u32 \<times> u32" where
  "ends ms t0 [] = (ms, t0)"
| "ends ms t0 (Byte k k' b # es) = ends ms (clock ms k') es"
| "ends ms t0 (Tick k # es) = ends (ms + 1) t0 es"
| "ends ms t0 (_ # es) = ends ms t0 es"

fun bytes_of :: "framer_event list \<Rightarrow> u8 list" where
  "bytes_of [] = []"
| "bytes_of (Byte k k' b # es) = b # bytes_of es"
| "bytes_of (_ # es) = bytes_of es"

definition assembling :: "rtu_framer \<Rightarrow> u8 list \<Rightarrow> bool" where
  "assembling f bs \<longleftrightarrow>
     framer_wf f \<and> fstate f = RTU_FRAMER_RECEIVING \<and> t35_armed f \<and> \<not> frame_ready f \<and>
     take (unat (rx_len f)) (rx_buffer f) = take (unat (buffer_size f)) bs"

lemma assembling_len: "assembling f bs \<Longrightarrow> unat (rx_len f) = min (length bs) (unat (buffer_size f))"
proof -
  assume a: "assembling f bs"
  then have "length (take (unat (rx_len f)) (rx_buffer f)) = length (take (unat (buffer_size f)) bs)"
    by (simp add: assembling_def)
  moreover have "unat (rx_len f) \<le> length (rx_buffer f)"
    using a by (simp add: assembling_def framer_wf_def)
  ultimately show ?thesis by simp
qed

lemma assembling_byte:
  assumes a: "assembling f bs" and gap: "clock (ms_tick f) k - last_byte_us f \<le> t15_us f"
  shows "\<exists>g. rtu_framer_on_byte k k' b f = Some g \<and> assembling g (bs @ [b]) \<and> ms_tick g = ms_tick f \<and>
    last_byte_us g = clock (ms_tick f) k' \<and> t15_us g = t15_us f \<and> t35_us g = t35_us f \<and>
    buffer_size g = buffer_size f \<and> rx_callback g = rx_callback f"
proof -
  from a have wf: "framer_wf f" and st: "fstate f = RTU_FRAMER_RECEIVING" and nr: "\<not> frame_ready f"
    and c: "take (unat (rx_len f)) (rx_buffer f) = take (unat (buffer_size f)) bs" and t: "t35_armed f"
    by (simp_all add: assembling_def)
  obtain g where g: "rtu_framer_on_byte k k' b f = Some g" "framer_wf g" using on_byte_total [OF wf] by blast
  have el: "\<not> rtu_elapsed_us f k > t15_us f"
    using gap by (simp add: rtu_elapsed_us_def rtu_time_clock not_less)
  note len = assembling_len [OF a]
  show ?thesis
  proof (cases "rx_len f < buffer_size f")
    case True
    then have lt: "unat (rx_len f) < unat (buffer_size f)" by (simp add: word_less_nat_alt)
    then have i: "unat (rx_len f) < length (rx_buffer f)" "unat (rx_len f + 1) = unat (rx_len f) + 1"
      using wf by (auto simp: framer_wf_def unat_word_ariths)
    have geq: "g = rtu_timer_start_t35 k' (f\<lparr>rx_buffer := (rx_buffer f)[unat (rx_len f) := b], rx_len := rx_len f + 1\<rparr>)"
      using g(1) st nr el True i by (simp add: rtu_framer_on_byte_def wr_def)
    have "length bs = unat (rx_len f)" using len lt by linarith
    then have "take (unat (rx_len f + 1)) ((rx_buffer f)[unat (rx_len f) := b]) = take (unat (buffer_size f)) (bs @ [b])"
      using c i lt by (simp add: take_Suc_conv_app_nth)
    with g geq st nr show ?thesis
      by (auto simp: assembling_def rtu_timer_start_t35_def rtu_time_clock)
  next
    case False
    then have geq: "g = rtu_timer_start_t35 k' f"
      using g(1) st nr el by (simp add: rtu_framer_on_byte_def)
    have "unat (buffer_size f) \<le> length bs" using False len by (simp add: word_less_nat_alt)
    with g geq st nr c show ?thesis
      by (auto simp: assembling_def rtu_timer_start_t35_def rtu_time_clock)
  qed
qed

lemma assembling_tick:
  assumes a: "assembling f bs" and "clock (ms_tick f + 1) k - last_byte_us f < t35_us f"
  shows "rtu_framer_on_systick k f = Some (f\<lparr>ms_tick := ms_tick f + 1\<rparr>) \<and> assembling (f\<lparr>ms_tick := ms_tick f + 1\<rparr>) bs"
  using assms by (simp add: rtu_framer_on_systick_def try_complete_eq wf_tick assembling_def
      rtu_elapsed_us_def rtu_time_clock not_le)

lemma assembling_run:
  assumes "assembling f bs" and "gap_ok (t15_us f) (t35_us f) (ms_tick f) (last_byte_us f) es"
    and "framer_run f es outs g"
  shows "assembling g (bs @ bytes_of es) \<and> (ms_tick g, last_byte_us g) = ends (ms_tick f) (last_byte_us f) es \<and>
    t35_us g = t35_us f \<and> buffer_size g = buffer_size f \<and> rx_callback g = rx_callback f \<and> concat outs = []"
  using assms
proof (induction es arbitrary: f bs outs)
  case Nil
  then show ?case by (simp add: framer_run_Nil)
next
  case (Cons e es)
  from Cons.prems(3) obtain out h outs' where s: "framer_step f e out h" and r: "framer_run h es outs' g"
    and outs: "outs = out # outs'"
    by (auto simp: framer_run_Cons)
  show ?case
  proof (cases e)
    case (Byte k k' b)
    with Cons.prems obtain h' where "rtu_framer_on_byte k k' b f = Some h'" "assembling h' (bs @ [b])"
      "ms_tick h' = ms_tick f" "last_byte_us h' = clock (ms_tick f) k'" "t15_us h' = t15_us f"
      "t35_us h' = t35_us f" "buffer_size h' = buffer_size f" "rx_callback h' = rx_callback f"
      using assembling_byte [of f bs k k' b] by auto
    with Byte s Cons.IH [of h "bs @ [b]" outs'] Cons.prems(2) r outs show ?thesis
      by (auto simp: framer_step_Byte)
  next
    case (Tick k)
    with Cons.prems assembling_tick [of f bs k] s Cons.IH [of h bs outs'] r outs show ?thesis
      by (auto simp: framer_step_Tick)
  qed (use Cons.prems in auto)
qed

lemma first_byte:
  assumes "framer_wf f" and "fstate f = RTU_FRAMER_IDLE" and "\<not> frame_ready f"
  shows "\<exists>g. rtu_framer_on_byte k k' b f = Some g \<and> assembling g [b] \<and> ms_tick g = ms_tick f \<and>
    last_byte_us g = clock (ms_tick f) k' \<and> t15_us g = t15_us f \<and> t35_us g = t35_us f \<and>
    buffer_size g = buffer_size f \<and> rx_callback g = rx_callback f"
proof -
  obtain g where g: "rtu_framer_on_byte k k' b f = Some g" "framer_wf g" using on_byte_total [OF assms(1)] by blast
  have ne: "0 < length (rx_buffer f)" using assms(1) by (auto simp: framer_wf_def)
  then have geq: "g = rtu_timer_start_t35 k' (f\<lparr>rx_buffer := (rx_buffer f)[0 := b], rx_len := 1, fstate := RTU_FRAMER_RECEIVING\<rparr>)"
    using g(1) assms by (simp add: rtu_framer_on_byte_def wr_def)
  have "take (Suc 0) ((rx_buffer f)[0 := b]) = take (unat (buffer_size f)) [b]"
    using ne assms(1) by (cases "rx_buffer f") (auto simp: framer_wf_def)
  with g geq assms show ?thesis
    by (auto simp: assembling_def rtu_timer_start_t35_def rtu_time_clock)
qed

section \<open>The properties of the framer\<close>

text \<open>
  C15: A frame is delivered complete and alone: from an idle engine, bytes that follow one another
  within T1.5 (with any ticks in between), then a tick that sees T3.5 of silence and a poll, hand
  the callback exactly these bytes in order, cut at the buffer size. Times are compared modulo
  \<open>2 ^ 32\<close>, as the code does, so a wrap of the microsecond clock does not matter.
\<close>

theorem frame_delivered:
  assumes "framer_wf f" and "fstate f = RTU_FRAMER_IDLE" and "\<not> frame_ready f" and "rx_callback f"
    and "gap_ok (t15_us f) (t35_us f) (ms_tick f) (clock (ms_tick f) k') es"
    and "ends (ms_tick f) (clock (ms_tick f) k') es = (ms, t_last)"
    and "clock (ms + 1) kt - t_last \<ge> t35_us f"
    and "framer_run f ([Byte k k' b] @ es @ [Tick kt, Process kp]) outs g"
  shows "concat outs = take (unat (buffer_size f)) (b # bytes_of es)"
proof -
  obtain f1 where f1: "rtu_framer_on_byte k k' b f = Some f1" "assembling f1 [b]" "ms_tick f1 = ms_tick f"
    "last_byte_us f1 = clock (ms_tick f) k'" "t15_us f1 = t15_us f" "t35_us f1 = t35_us f"
    "buffer_size f1 = buffer_size f" "rx_callback f1 = rx_callback f"
    using first_byte [OF assms(1-3)] by blast
  from assms(8) f1(1) obtain outs1 where r1: "framer_run f1 (es @ [Tick kt, Process kp]) outs1 g" "concat outs = concat outs1"
    by (auto simp: framer_run_Cons framer_step_Byte)
  have split: "\<exists>o1 o2 h. framer_run f1 es o1 h \<and> framer_run h es' o2 g \<and> outs1 = o1 @ o2"
    if "framer_run f1 (es @ es') outs1 g" for es es' f1 outs1
    using that
  proof (induction es arbitrary: f1 outs1)
    case Nil
    then show ?case using framer_run.run_nil by fastforce
  next
    case (Cons e es)
    then obtain out f2 outs2 where "framer_step f1 e out f2" "framer_run f2 (es @ es') outs2 g" "outs1 = out # outs2"
      by (auto simp: framer_run_Cons)
    with Cons.IH [of f2 outs2] framer_run.run_step show ?case by (metis append_Cons)
  qed
  from split [OF r1(1)] obtain o1 o2 h where
    h: "framer_run f1 es o1 h" "framer_run h [Tick kt, Process kp] o2 g" "outs1 = o1 @ o2" by blast
  have a: "assembling h ([b] @ bytes_of es)" "ms_tick h = ms" "last_byte_us h = t_last" "t35_us h = t35_us f"
    "buffer_size h = buffer_size f" "rx_callback h" "concat o1 = []"
    using assembling_run [OF f1(2) _ h(1)] assms f1 by auto
  define h1 where "h1 = h\<lparr>ms_tick := ms_tick h + 1\<rparr>"
  have h1: "framer_wf h1" "t35_armed h1" "\<not> frame_ready h1" "rtu_elapsed_us h1 kt \<ge> t35_us h1"
    using a assms(7) by (auto simp: h1_def assembling_def wf_tick rtu_elapsed_us_def rtu_time_clock)
  from a(1) have len: "0 < unat (rx_len h)" "unat (rx_len h) \<le> length (rx_buffer h)"
    and c: "take (unat (rx_len h)) (rx_buffer h) = take (unat (buffer_size f)) (b # bytes_of es)"
    by (auto simp: assembling_def framer_wf_def word_less_nat_alt a(5))
  from h(2) obtain h2 where "rtu_framer_on_systick kt h = Some h2" and pr: "rtu_framer_process kp h2 = Some (concat o2, g)"
    by (auto simp: framer_run_Cons framer_run_Nil elim!: framer_stepE)
  then have h2: "h2 = h1\<lparr>t35_armed := False, rx_len := 0, fstate := RTU_FRAMER_IDLE,
      completed_buffer := take (unat (rx_len h)) (rx_buffer h) @ drop (unat (rx_len h)) (completed_buffer h),
      completed_len := rx_len h, frame_ready := True\<rparr>"
    using h1 by (simp add: rtu_framer_on_systick_def try_complete_eq Let_def h1_def)
  then have "concat o2 = take (unat (rx_len h)) (rx_buffer h)"
    using pr len a(6)
    by (simp add: rtu_framer_process_def rtu_try_complete_frame_def h1_def rd_span_Some word_less_nat_alt)
  with c r1(2) h(3) a(7) show ?thesis by simp
qed

text \<open>An engine as the ports set it up, 9600 baud, with a callback.\<close>

definition port_framer :: rtu_framer where
  "port_framer = rtu_framer_set_callback True
     (rtu_framer_init (replicate 256 0) (replicate 256 0) 256 9600
       \<lparr>rx_buffer = [], completed_buffer = [], buffer_size = 0, t15_us = 0, t35_us = 0, rx_callback = False,
        fstate = RTU_FRAMER_IDLE, rx_len = 0, frame_ready = False, completed_len = 0, ms_tick = 0,
        last_byte_us = 0, t35_armed = False\<rparr>)"

lemma port_framer_simps [simp]:
  "framer_wf port_framer" "fstate port_framer = RTU_FRAMER_IDLE" "\<not> frame_ready port_framer"
  "rx_callback port_framer" "ms_tick port_framer = 0" "buffer_size port_framer = 256"
  "t35_us port_framer = 4011" "t15_us port_framer = 1719"
  by (simp_all add: port_framer_def rtu_framer_init_def rtu_framer_set_callback_def modbus_rtu_timeouts_us_def
      framer_wf_def Let_def)

lemma frame_delivered_witness:
  "\<exists>outs g. framer_run port_framer [Byte \<lparr>LOAD = 999, VAL = 999, PENDSTSET = False, VAL_again = 0\<rparr>
       \<lparr>LOAD = 999, VAL = 999, PENDSTSET = False, VAL_again = 0\<rparr> 0x2A,
     Tick \<lparr>LOAD = 4999, VAL = 0, PENDSTSET = True, VAL_again = 4999\<rparr>, Tick \<lparr>LOAD = 4999, VAL = 0, PENDSTSET = True, VAL_again = 4999\<rparr>,
     Tick \<lparr>LOAD = 4999, VAL = 0, PENDSTSET = True, VAL_again = 4999\<rparr>, Tick \<lparr>LOAD = 4999, VAL = 0, PENDSTSET = True, VAL_again = 4999\<rparr>,
     Process \<lparr>LOAD = 4999, VAL = 4999, PENDSTSET = False, VAL_again = 0\<rparr>] outs g \<and> concat outs = [0x2A]"
proof -
  define k where "k = \<lparr>LOAD = 999, VAL = 999, PENDSTSET = False, VAL_again = (0 :: u32)\<rparr>"
  define t where "t = \<lparr>LOAD = 4999, VAL = 0, PENDSTSET = True, VAL_again = (4999 :: u32)\<rparr>"
  define p where "p = \<lparr>LOAD = 4999, VAL = 4999, PENDSTSET = False, VAL_again = (0 :: u32)\<rparr>"
  have c: "clock ms k = ms * 1000" "clock ms t = (ms + 1) * 1000" for ms
    by (simp_all add: clock_def rtu_time_us_def k_def t_def)
  obtain outs g where r: "framer_run port_framer ([Byte k k 0x2A] @ [Tick t, Tick t, Tick t] @ [Tick t, Process p]) outs g"
    using framer_run_total [OF port_framer_simps(1)] by blast
  have "concat outs = [0x2A]"
    using frame_delivered [where es = "[Tick t, Tick t, Tick t]" and ms = 3 and t_last = 0, OF port_framer_simps(1-4) _ _ _ r]
    by (simp add: c)
  with r show ?thesis unfolding k_def t_def p_def by (intro exI) simp
qed

text \<open>
  The engine never faults and never overruns a buffer: from a well-formed state every sequence
  of bytes, ticks, polls, reads, flushes and transmissions runs to the end, in a well-formed state.
\<close>

theorem framer_never_stuck:
  assumes "framer_wf f"
  shows "\<exists>outs g. framer_run f es outs g \<and> framer_wf g"
  using assms by (rule framer_run_total)

lemma framer_never_stuck_witness:
  "\<exists>outs g. framer_run port_framer [Read 7, Flush, Tx_Begin] outs g"
  using framer_never_stuck [OF port_framer_simps(1)] by blast

text \<open>
  A completed frame that has not been collected is never overwritten: as long as \<open>frame_ready\<close>
  is set, received bytes and ticks leave \<open>frame_ready\<close>, the completed bytes and their number alone.
\<close>

theorem pending_frame_kept:
  assumes "framer_step f e out g" and "frame_ready f" and "e = Byte k k' b \<or> e = Tick k"
  shows "frame_ready g \<and> completed_buffer g = completed_buffer f \<and> completed_len g = completed_len f \<and> out = []"
  using assms(1)
proof cases
  case (byte k k' b)
  with assms(2) show ?thesis
    by (auto simp: rtu_framer_on_byte_def rtu_timer_start_t35_def wr_eq_Some_iff split: if_splits bind_splits)
next
  case (tick k)
  with assms(2) show ?thesis
    by (auto simp: rtu_framer_on_systick_def rtu_try_complete_frame_def Let_def split: if_splits)
qed (use assms(3) in auto)

lemma pending_frame_kept_witness:
  "\<exists>g. framer_step (port_framer\<lparr>frame_ready := True\<rparr>)
     (Byte \<lparr>LOAD = 999, VAL = 0, PENDSTSET = False, VAL_again = 0\<rparr> \<lparr>LOAD = 999, VAL = 0, PENDSTSET = False, VAL_again = 0\<rparr> 1) [] g \<and>
     frame_ready g"
proof -
  define k where "k = \<lparr>LOAD = 999, VAL = 0, PENDSTSET = False, VAL_again = (0 :: u32)\<rparr>"
  have "framer_step (port_framer\<lparr>frame_ready := True\<rparr>) (Byte k k 1) [] (port_framer\<lparr>frame_ready := True\<rparr>)"
    by (simp add: framer_step_Byte rtu_framer_on_byte_def)
  from pending_frame_kept [OF this, of k k 1] this show ?thesis unfolding k_def by auto
qed

text \<open>
  A late byte loses the frame before it: when a byte arrives more than T1.5 after the last one
  and no tick or poll came in between, the bytes assembled so far are dropped, even if the silence
  was already longer than T3.5 and they were a complete frame.
\<close>

theorem late_byte_discards_frame:
  assumes "framer_wf f" and "fstate f = RTU_FRAMER_RECEIVING" and "\<not> frame_ready f"
    and "rtu_elapsed_us f k > t15_us f"
  shows "\<exists>g. framer_step f (Byte k k' b) [] g \<and> rx_len g = 1 \<and> rx_buffer g ! 0 = b \<and> \<not> frame_ready g \<and>
    completed_buffer g = completed_buffer f"
proof -
  have "0 < length (rx_buffer f)" using assms(1) by (auto simp: framer_wf_def)
  with assms show ?thesis
    by (auto simp: framer_step_Byte rtu_framer_on_byte_def wr_def rtu_timer_start_t35_def)
qed

lemma late_byte_discards_frame_witness:
  "\<exists>g. framer_step (port_framer\<lparr>fstate := RTU_FRAMER_RECEIVING, rx_len := 8, t35_armed := True, ms_tick := 9\<rparr>)
     (Byte \<lparr>LOAD = 999, VAL = 999, PENDSTSET = False, VAL_again = 0\<rparr> \<lparr>LOAD = 999, VAL = 999, PENDSTSET = False, VAL_again = 0\<rparr> 5) [] g \<and>
     rx_len g = 1"
proof -
  define f where "f = port_framer\<lparr>fstate := RTU_FRAMER_RECEIVING, rx_len := 8, t35_armed := True, ms_tick := 9\<rparr>"
  define k where "k = \<lparr>LOAD = 999, VAL = 999, PENDSTSET = False, VAL_again = (0 :: u32)\<rparr>"
  have l: "last_byte_us port_framer = 0"
    by (simp add: port_framer_def rtu_framer_init_def rtu_framer_set_callback_def split_beta Let_def)
  have "framer_wf f" using port_framer_simps(1) by (simp add: f_def framer_wf_def)
  moreover have "t15_us f < rtu_elapsed_us f k"
    by (simp add: f_def rtu_elapsed_us_def rtu_time_us_def k_def l)
  ultimately show ?thesis
    using late_byte_discards_frame [of f k k 5] by (auto simp: f_def k_def)
qed

lemma delay_loop_first:
  assumes "\<not> time (n + m) - start < t35" and "\<And>i. i < m \<Longrightarrow> time (n + i) - start < t35"
  shows "delay_loop time start t35 n = Some (n + m)"
  using assms
proof (induction m arbitrary: n)
  case 0
  then show ?case by (subst delay_loop.simps) simp
next
  case (Suc m)
  have "delay_loop time start t35 (Suc n) = Some (Suc n + m)"
    using Suc.prems by (intro Suc.IH) (metis add_Suc add_Suc_right Suc_less_eq)+
  moreover have "time n - start < t35" using Suc.prems(2) [of 0] by simp
  ultimately show ?case by (subst delay_loop.simps) simp
qed

lemma delay_ends:
  assumes "\<not> time m - start < t35_us f"
  shows "\<exists>n. rtu_framer_delay_t35 start time f = Some (n, rtu_timer_stop f)"
proof -
  define n where "n = (LEAST n. \<not> time n - start < t35_us f)"
  have "\<not> time n - start < t35_us f" "\<forall>i < n. time i - start < t35_us f"
    unfolding n_def using LeastI [of "\<lambda>n. \<not> time n - start < t35_us f" m] assms by (auto dest: not_less_Least)
  then have "delay_loop time start (t35_us f) 0 = Some n"
    using delay_loop_first [of time 0 n start "t35_us f"] by simp
  then show ?thesis by (simp add: rtu_framer_delay_t35_def rtu_timer_stop_def)
qed

text \<open>
  The busy wait before transmission ends as soon as the clock shows T3.5 of silence, at the
  first such reading, and only then; if the clock never gets there it does not end.
\<close>

theorem delay_terminates:
  assumes "\<not> time m - start < t35_us f"
  shows "\<exists>n. rtu_framer_delay_t35 start time f = Some (n, rtu_timer_stop f) \<and> n \<le> m \<and>
    \<not> time n - start < t35_us f \<and> (\<forall>i < n. time i - start < t35_us f)"
proof -
  define n where "n = (LEAST n. \<not> time n - start < t35_us f)"
  have n: "\<not> time n - start < t35_us f" "\<forall>i < n. time i - start < t35_us f" "n \<le> m"
    unfolding n_def using LeastI [of "\<lambda>n. \<not> time n - start < t35_us f" m]
      Least_le [of "\<lambda>n. \<not> time n - start < t35_us f" m] assms by (auto dest: not_less_Least)
  then have "delay_loop time start (t35_us f) 0 = Some n"
    using delay_loop_first [of time 0 n start "t35_us f"] by simp
  with n show ?thesis by (simp add: rtu_framer_delay_t35_def rtu_timer_stop_def)
qed

lemma delay_terminates_witness:
  "\<exists>n. rtu_framer_delay_t35 0 (\<lambda>i. of_nat i * 1000) port_framer = Some (n, rtu_timer_stop port_framer) \<and> n \<le> 5"
  using delay_terminates [of "\<lambda>i. of_nat i * 1000" 5 0 port_framer] by auto

end
