(* ===== verification/Event_Log.thy ===== *)
theory Event_Log
  imports Modbus_Types
begin

text \<open>
  The comm event counter and event log of \<open>src/modbus_event.c\<close>: the static variables of the file
  as the record \<open>event\<close> and one definition per function. The log array keeps the most recent
  event at index 0; \<open>event_list\<close> abstracts array and count to the list of logged events, on
  which pushing is consing with truncation (the locale \<open>bounded_log\<close>).
\<close>

section \<open>State and operations\<close>

record event =
  s_event_counter :: u16
  s_log :: "u8 list"
  s_log_count :: u8

text \<open>The constants of \<open>inc/modbus_event.h\<close>.\<close>

abbreviation (input) MODBUS_EVENT_LOG_SIZE :: "'a :: numeral" where "MODBUS_EVENT_LOG_SIZE \<equiv> 64"
abbreviation (input) MODBUS_EVENT_RESTART :: u8 where "MODBUS_EVENT_RESTART \<equiv> 0x00"
abbreviation (input) MODBUS_EVENT_ENTER_LISTEN_ONLY :: u8 where "MODBUS_EVENT_ENTER_LISTEN_ONLY \<equiv> 0x04"
abbreviation (input) MODBUS_EVENT_RX :: u8 where "MODBUS_EVENT_RX \<equiv> 0x80"
abbreviation (input) MODBUS_EVENT_RX_COMM_ERROR :: u8 where "MODBUS_EVENT_RX_COMM_ERROR \<equiv> 0x02"
abbreviation (input) MODBUS_EVENT_RX_CHAR_OVERRUN :: u8 where "MODBUS_EVENT_RX_CHAR_OVERRUN \<equiv> 0x10"
abbreviation (input) MODBUS_EVENT_RX_LISTEN_ONLY :: u8 where "MODBUS_EVENT_RX_LISTEN_ONLY \<equiv> 0x20"
abbreviation (input) MODBUS_EVENT_TX :: u8 where "MODBUS_EVENT_TX \<equiv> 0x40"
abbreviation (input) MODBUS_EVENT_TX_READ_EXC :: u8 where "MODBUS_EVENT_TX_READ_EXC \<equiv> 0x01"
abbreviation (input) MODBUS_EVENT_TX_ABORT_EXC :: u8 where "MODBUS_EVENT_TX_ABORT_EXC \<equiv> 0x02"
abbreviation (input) MODBUS_EVENT_TX_BUSY_EXC :: u8 where "MODBUS_EVENT_TX_BUSY_EXC \<equiv> 0x04"
abbreviation (input) MODBUS_EVENT_TX_NAK_EXC :: u8 where "MODBUS_EVENT_TX_NAK_EXC \<equiv> 0x08"
abbreviation (input) MODBUS_EVENT_STATUS_READY :: u16 where "MODBUS_EVENT_STATUS_READY \<equiv> 0x0000"

text \<open>The loop \<open>for (i = n; i > 0; i--) s_log[i] = s_log[i - 1]\<close>.\<close>

primrec log_shift :: "nat \<Rightarrow> u8 list \<Rightarrow> u8 list" where
  "log_shift 0 l = l"
| "log_shift (Suc i) l = log_shift i (l[Suc i := l ! i])"

definition modbus_event_push :: "u8 \<Rightarrow> event \<Rightarrow> event" where
  "modbus_event_push event_byte e =
     (let n = (if s_log_count e \<ge> MODBUS_EVENT_LOG_SIZE then 63 else s_log_count e);
          l = (log_shift (unat n) (s_log e))[0 := event_byte];
          c = (if s_log_count e < MODBUS_EVENT_LOG_SIZE then s_log_count e + 1 else s_log_count e)
      in e\<lparr>s_log := l, s_log_count := c\<rparr>)"

text \<open>The loop that zeroes the log array.\<close>

definition log_clear :: "u8 list \<Rightarrow> u8 list" where
  "log_clear l = fold (\<lambda>i l. l[i := 0]) [0..<MODBUS_EVENT_LOG_SIZE] l"

definition modbus_event_reset :: "event \<Rightarrow> event" where
  "modbus_event_reset e =
     modbus_event_push MODBUS_EVENT_RESTART (e\<lparr>s_event_counter := 0, s_log_count := 0, s_log := log_clear (s_log e)\<rparr>)"

definition modbus_event_note_restart :: "bool \<Rightarrow> event \<Rightarrow> event" where
  "modbus_event_note_restart clear_log e =
     (let e = e\<lparr>s_event_counter := 0\<rparr>;
          e = (if clear_log then e\<lparr>s_log_count := 0, s_log := log_clear (s_log e)\<rparr> else e)
      in modbus_event_push MODBUS_EVENT_RESTART e)"

definition modbus_event_clear_counter :: "event \<Rightarrow> event" where
  "modbus_event_clear_counter e = e\<lparr>s_event_counter := 0\<rparr>"

definition modbus_event_note_success :: "event \<Rightarrow> event" where
  "modbus_event_note_success e = e\<lparr>s_event_counter := s_event_counter e + 1\<rparr>"

definition tx_event_byte :: "u8 \<Rightarrow> u8" where
  "tx_event_byte exception_code =
     (if exception_code = 0 then MODBUS_EVENT_TX
      else if exception_code = 1 \<or> exception_code = 2 \<or> exception_code = 3 then MODBUS_EVENT_TX OR MODBUS_EVENT_TX_READ_EXC
      else if exception_code = 4 then MODBUS_EVENT_TX OR MODBUS_EVENT_TX_ABORT_EXC
      else if exception_code = 5 \<or> exception_code = 6 then MODBUS_EVENT_TX OR MODBUS_EVENT_TX_BUSY_EXC
      else if exception_code = 7 then MODBUS_EVENT_TX OR MODBUS_EVENT_TX_NAK_EXC
      else MODBUS_EVENT_TX)"

definition modbus_event_note_tx :: "u8 \<Rightarrow> event \<Rightarrow> event" where
  "modbus_event_note_tx exception_code e = modbus_event_push (tx_event_byte exception_code) e"

definition modbus_event_counter :: "event \<Rightarrow> u16" where
  "modbus_event_counter e = s_event_counter e"

definition modbus_event_log_count :: "event \<Rightarrow> u8" where
  "modbus_event_log_count e = s_log_count e"

text \<open>
  The bytes \<open>modbus_event_log_read\<close> stores into \<open>out\<close> (\<open>None\<close>: a read past the log array); their
  number is the returned count.
\<close>

definition modbus_event_log_read :: "u8 \<Rightarrow> event \<Rightarrow> u8 list option" where
  "modbus_event_log_read max_events e =
     (let n = (if s_log_count e > max_events then max_events else s_log_count e)
      in rd_span (s_log e) 0 (unat n))"

text \<open>
  \<open>modbus_event_process\<close>. \<open>message_count\<close> is the value of
  \<open>modbus_diag_counter_read(MODBUS_DIAG_SUB_SLAVE_MESSAGE_COUNT)\<close>, which the caller passes in
  because the diagnostics module lives above this one in the import order. The result is the
  response PDU, empty when nothing is answered.
\<close>

definition modbus_event_process :: "u16 \<Rightarrow> event \<Rightarrow> u8 list \<Rightarrow> bool \<Rightarrow> u8 list option" where
  "modbus_event_process message_count e rx_pdu is_broadcast =
     (if length rx_pdu < 1 then Some []
      else do {
        fc \<leftarrow> rd rx_pdu 0;
        if is_broadcast then Some []
        else if length rx_pdu \<noteq> 1 then Some [fc OR 0x80, MODBUS_EXC_ILLEGAL_DATA_VALUE]
        else if fc = MODBUS_FC_GET_COMM_EVENT_COUNTER then
          Some (fc # be_bytes [MODBUS_EVENT_STATUS_READY, s_event_counter e])
        else do {
          events \<leftarrow> rd_span (s_log e) 0 (unat (s_log_count e));
          Some (fc # (6 + s_log_count e) #
                be_bytes [MODBUS_EVENT_STATUS_READY, s_event_counter e, message_count] @ events)
        }
      })"

section \<open>Invariant and abstraction\<close>

definition event_wf :: "event \<Rightarrow> bool" where
  "event_wf e \<longleftrightarrow> length (s_log e) = MODBUS_EVENT_LOG_SIZE \<and> unat (s_log_count e) \<le> MODBUS_EVENT_LOG_SIZE"

definition event_list :: "event \<Rightarrow> u8 list" where
  "event_list e = take (unat (s_log_count e)) (s_log e)"

lemma length_log_shift [simp]: "length (log_shift n l) = length l"
  by (induction n arbitrary: l) auto

lemma log_shift_nth:
  "n < length l \<Longrightarrow> i < length l \<Longrightarrow>
    log_shift n l ! i = (if 0 < i \<and> i \<le> n then l ! (i - 1) else l ! i)"
proof (induction n arbitrary: l)
  case 0
  then show ?case by simp
next
  case (Suc n)
  then have "log_shift (Suc n) l ! i =
      (if 0 < i \<and> i \<le> n then l[Suc n := l ! n] ! (i - 1) else l[Suc n := l ! n] ! i)"
    by simp
  with Suc.prems show ?case by (cases "i = Suc n") (auto simp: nth_list_update)
qed

lemma length_log_clear [simp]: "length (log_clear l) = length l"
proof -
  have "length (fold (\<lambda>i l. l[i := 0]) is l) = length l" for "is"
    by (induction "is" arbitrary: l) auto
  then show ?thesis by (simp add: log_clear_def)
qed

lemma count_cases: "unat (c :: u8) \<le> 64 \<Longrightarrow> unat (if c < 64 then c + 1 else c) = min 64 (unat c + 1)"
  by (auto simp: word_less_nat_alt unat_word_ariths)

lemma event_wf_push [simp]: "event_wf e \<Longrightarrow> event_wf (modbus_event_push b e)"
  using count_cases [of "s_log_count e"] by (auto simp: event_wf_def modbus_event_push_def Let_def)

lemma event_list_push:
  assumes wf: "event_wf e"
  shows "event_list (modbus_event_push b e) = take MODBUS_EVENT_LOG_SIZE (b # event_list e)"
proof (rule nth_equalityI)
  have cnt: "unat (s_log_count (modbus_event_push b e)) = min 64 (unat (s_log_count e) + 1)"
    using wf count_cases [of "s_log_count e"] by (simp add: event_wf_def modbus_event_push_def Let_def)
  then show len: "length (event_list (modbus_event_push b e)) = length (take MODBUS_EVENT_LOG_SIZE (b # event_list e))"
    using wf event_wf_push [OF wf, of b] by (simp add: event_list_def event_wf_def)
  fix i
  assume "i < length (event_list (modbus_event_push b e))"
  then have i: "i < min 64 (unat (s_log_count e) + 1)"
    using cnt by (simp add: event_list_def)
  define n where "n = unat (if s_log_count e \<ge> 64 then 63 else s_log_count e)"
  have n: "n < 64" "i \<le> n"
    using i wf by (auto simp: n_def event_wf_def word_le_nat_alt split: if_splits)
  have "event_list (modbus_event_push b e) ! i = (log_shift n (s_log e))[0 := b] ! i"
    using i cnt by (simp add: event_list_def modbus_event_push_def Let_def n_def)
  also have "\<dots> = (if i = 0 then b else s_log e ! (i - 1))"
    using n wf by (auto simp: log_shift_nth event_wf_def nth_list_update)
  also have "\<dots> = take MODBUS_EVENT_LOG_SIZE (b # event_list e) ! i"
    using i by (cases i) (auto simp: event_list_def)
  finally show "event_list (modbus_event_push b e) ! i = take MODBUS_EVENT_LOG_SIZE (b # event_list e) ! i" .
qed

lemma event_push_counter [simp]: "s_event_counter (modbus_event_push b e) = s_event_counter e"
  by (simp add: modbus_event_push_def Let_def)

lemma length_event_list: "event_wf e \<Longrightarrow> length (event_list e) \<le> MODBUS_EVENT_LOG_SIZE"
  by (simp add: event_list_def event_wf_def)

section \<open>The log interface\<close>

text \<open>
  What the diagnostics module and the RTU transport rely on: a bounded log of which they see
  only pushes. The laws determine the log contents after any sequence of pushes.
\<close>

locale bounded_log =
  fixes push :: "'e \<Rightarrow> 'l \<Rightarrow> 'l"
    and entries :: "'l \<Rightarrow> 'e list"
    and valid :: "'l \<Rightarrow> bool"
    and cap :: nat
  assumes push_valid: "valid l \<Longrightarrow> valid (push x l)"
    and push_entries: "valid l \<Longrightarrow> entries (push x l) = take cap (x # entries l)"
    and entries_bound: "valid l \<Longrightarrow> length (entries l) \<le> cap"
begin

lemma fold_push_valid: "valid l \<Longrightarrow> valid (fold push xs l)"
  by (induction xs arbitrary: l) (auto simp: push_valid)

lemma fold_push_entries:
  "valid l \<Longrightarrow> entries (fold push xs l) = take cap (rev xs @ entries l)"
proof (induction xs arbitrary: l)
  case Nil
  then show ?case by (simp add: entries_bound)
next
  case (Cons x xs)
  then have "entries (fold push xs (push x l)) = take cap (rev xs @ take cap (x # entries l))"
    by (simp add: push_valid push_entries)
  also have "\<dots> = take cap (rev xs @ x # entries l)"
    by (simp add: take_Cons' min_def)
  finally show ?case by simp
qed

text \<open>The newest events survive, the oldest are dropped.\<close>

lemma newest_first:
  assumes "valid l" and "i < length xs" and "i < cap"
  shows "entries (fold push xs l) ! i = xs ! (length xs - 1 - i)"
  using assms by (simp add: fold_push_entries nth_append rev_nth)

end

interpretation ev_log: bounded_log modbus_event_push event_list event_wf MODBUS_EVENT_LOG_SIZE
  by unfold_locales (simp_all add: event_list_push length_event_list)

lemma event_wf_ops [simp]:
  "event_wf e \<Longrightarrow> event_wf (modbus_event_note_tx c e)"
  "event_wf e \<Longrightarrow> event_wf (modbus_event_note_success e)"
  "event_wf e \<Longrightarrow> event_wf (modbus_event_clear_counter e)"
  "event_wf e \<Longrightarrow> event_wf (modbus_event_note_restart b e)"
  "length (s_log e) = MODBUS_EVENT_LOG_SIZE \<Longrightarrow> event_wf (modbus_event_reset e)"
proof -
  show "event_wf e \<Longrightarrow> event_wf (modbus_event_note_success e)"
    and "event_wf e \<Longrightarrow> event_wf (modbus_event_clear_counter e)"
    by (simp_all add: event_wf_def modbus_event_note_success_def modbus_event_clear_counter_def)
  show "event_wf e \<Longrightarrow> event_wf (modbus_event_note_tx c e)"
    by (simp add: modbus_event_note_tx_def)
  show "event_wf e \<Longrightarrow> event_wf (modbus_event_note_restart b e)"
    unfolding modbus_event_note_restart_def Let_def
    by (rule event_wf_push) (simp add: event_wf_def)
  show "length (s_log e) = MODBUS_EVENT_LOG_SIZE \<Longrightarrow> event_wf (modbus_event_reset e)"
    unfolding modbus_event_reset_def by (rule event_wf_push) (simp add: event_wf_def)
qed

lemma event_list_restart:
  assumes "event_wf e"
  shows "event_list (modbus_event_note_restart clear_log e) =
    (if clear_log then [0x00] else take MODBUS_EVENT_LOG_SIZE (0x00 # event_list e))"
proof (cases clear_log)
  case True
  have "event_wf (e\<lparr>s_event_counter := 0, s_log_count := 0, s_log := log_clear (s_log e)\<rparr>)"
    using assms by (simp add: event_wf_def)
  from event_list_push [OF this] True show ?thesis
    by (simp add: modbus_event_note_restart_def event_list_def)
next
  case False
  have "event_wf (e\<lparr>s_event_counter := 0\<rparr>)" using assms by (simp add: event_wf_def)
  from event_list_push [OF this] False show ?thesis
    by (simp add: modbus_event_note_restart_def event_list_def)
qed

lemma event_list_reset:
  assumes "length (s_log e) = MODBUS_EVENT_LOG_SIZE"
  shows "event_list (modbus_event_reset e) = [0x00]"
proof -
  have "event_wf (e\<lparr>s_event_counter := 0, s_log_count := 0, s_log := log_clear (s_log e)\<rparr>)"
    using assms by (simp add: event_wf_def)
  from event_list_push [OF this] show ?thesis
    by (simp add: modbus_event_reset_def event_list_def)
qed

lemma event_list_frame [simp]:
  "event_list (modbus_event_note_success e) = event_list e"
  "event_list (modbus_event_clear_counter e) = event_list e"
  "s_event_counter (modbus_event_note_restart b e) = 0"
  "s_event_counter (modbus_event_clear_counter e) = 0"
  "s_event_counter (modbus_event_reset e) = 0"
  "s_event_counter (modbus_event_note_tx c e) = s_event_counter e"
  "s_event_counter (modbus_event_note_success e) = s_event_counter e + 1"
  by (simp_all add: modbus_event_note_success_def modbus_event_clear_counter_def event_list_def
      modbus_event_note_restart_def modbus_event_reset_def modbus_event_note_tx_def Let_def)

lemma event_process_total:
  assumes "event_wf e"
  shows "\<exists>resp. modbus_event_process mc e rx bc = Some resp \<and> length resp \<le> 72 \<and> (bc \<longrightarrow> resp = [])"
proof (cases rx)
  case Nil
  then show ?thesis by (simp add: modbus_event_process_def)
next
  case (Cons fc rest)
  with assms show ?thesis
    by (auto simp: modbus_event_process_def rd_def event_wf_def rd_span_Some)
qed

lemma event_process_log:
  assumes "event_wf e" and "fc \<noteq> 0x0B"
  shows "modbus_event_process mc e [fc] False =
    Some (fc # of_nat (6 + length (event_list e)) #
          be_bytes [0x0000, s_event_counter e, mc] @ event_list e)"
proof -
  have "unat (s_log_count e) \<le> length (s_log e)"
    using assms(1) by (simp add: event_wf_def)
  then show ?thesis
    using assms(2) by (simp add: modbus_event_process_def rd_def rd_span_Some event_list_def)
qed

text \<open>
  C37: After a reset and any sequence of events, Get Comm Event Log (FC 0x0C) reports the last 64 of
  them, newest first, followed by what is left of the restart event, with the byte count, the event
  counter and the message count in front.
\<close>

theorem event_log_contents:
  assumes "length (s_log e) = 64"
  shows "modbus_event_process mc (fold modbus_event_push evs (modbus_event_reset e)) [0x0C] False =
    Some (0x0C # of_nat (6 + length (take 64 (rev evs @ [0x00]))) #
      be_bytes [0x0000, s_event_counter (fold modbus_event_push evs (modbus_event_reset e)), mc] @
      take 64 (rev evs @ [0x00]))"
proof -
  have wf: "event_wf (modbus_event_reset e)" using assms by simp
  have "event_list (fold modbus_event_push evs (modbus_event_reset e)) = take 64 (rev evs @ [0x00])"
    using ev_log.fold_push_entries [OF wf, of evs] assms by (simp add: event_list_reset)
  with event_process_log [OF ev_log.fold_push_valid [OF wf, of evs], of "0x0C" mc] show ?thesis
    by (simp del: of_nat_add)
qed

lemma event_log_contents_witness:
  "modbus_event_process 3 (fold modbus_event_push [0x40, 0x41]
      (modbus_event_reset \<lparr>s_event_counter = 5, s_log = replicate 64 0, s_log_count = 7\<rparr>)) [0x0C] False =
    Some (0x0C # 9 # be_bytes [0, 0, 3] @ [0x41, 0x40, 0x00])"
  using event_log_contents [of "\<lparr>s_event_counter = 5, s_log = replicate 64 0, s_log_count = 7\<rparr>" 3 "[0x40, 0x41]"]
  by simp

end
