(* ===== verification/Diag.thy ===== *)
theory Diag
  imports Event_Log
begin

text \<open>
  FC 0x08 Diagnostics, \<open>src/modbus_diag.c\<close>: the counters, the diagnostic register and the
  listen-only flag of the serial port as the record \<open>diag\<close>, the dispatcher, and the bookkeeping
  hooks the RTU transport calls. The operations that also write the event log of
  \<open>src/modbus_event.c\<close> take and return the pair of both states, \<open>comm\<close>.
\<close>

section \<open>State\<close>

record diag =
  s_bus_message_count :: u16
  s_comm_error_count :: u16
  s_exception_error_count :: u16
  s_slave_message_count :: u16
  s_slave_no_response_count :: u16
  s_char_overrun_count :: u16
  s_diag_register :: u16
  s_listen_only :: bool

type_synonym comm = "diag \<times> event"

text \<open>The sub-functions, from \<open>inc/modbus_diag.h\<close>.\<close>

abbreviation (input) MODBUS_DIAG_SUB_RETURN_QUERY_DATA :: u16 where "MODBUS_DIAG_SUB_RETURN_QUERY_DATA \<equiv> 0x0000"
abbreviation (input) MODBUS_DIAG_SUB_RESTART_COMM :: u16 where "MODBUS_DIAG_SUB_RESTART_COMM \<equiv> 0x0001"
abbreviation (input) MODBUS_DIAG_SUB_READ_DIAG_REGISTER :: u16 where "MODBUS_DIAG_SUB_READ_DIAG_REGISTER \<equiv> 0x0002"
abbreviation (input) MODBUS_DIAG_SUB_CHANGE_ASCII_DELIMITER :: u16 where "MODBUS_DIAG_SUB_CHANGE_ASCII_DELIMITER \<equiv> 0x0003"
abbreviation (input) MODBUS_DIAG_SUB_FORCE_LISTEN_ONLY :: u16 where "MODBUS_DIAG_SUB_FORCE_LISTEN_ONLY \<equiv> 0x0004"
abbreviation (input) MODBUS_DIAG_SUB_CLEAR_COUNTERS :: u16 where "MODBUS_DIAG_SUB_CLEAR_COUNTERS \<equiv> 0x000A"
abbreviation (input) MODBUS_DIAG_SUB_BUS_MESSAGE_COUNT :: u16 where "MODBUS_DIAG_SUB_BUS_MESSAGE_COUNT \<equiv> 0x000B"
abbreviation (input) MODBUS_DIAG_SUB_BUS_COMM_ERROR_COUNT :: u16 where "MODBUS_DIAG_SUB_BUS_COMM_ERROR_COUNT \<equiv> 0x000C"
abbreviation (input) MODBUS_DIAG_SUB_SLAVE_EXCEPTION_COUNT :: u16 where "MODBUS_DIAG_SUB_SLAVE_EXCEPTION_COUNT \<equiv> 0x000D"
abbreviation (input) MODBUS_DIAG_SUB_SLAVE_MESSAGE_COUNT :: u16 where "MODBUS_DIAG_SUB_SLAVE_MESSAGE_COUNT \<equiv> 0x000E"
abbreviation (input) MODBUS_DIAG_SUB_SLAVE_NO_RESPONSE_COUNT :: u16 where "MODBUS_DIAG_SUB_SLAVE_NO_RESPONSE_COUNT \<equiv> 0x000F"
abbreviation (input) MODBUS_DIAG_SUB_SLAVE_NAK_COUNT :: u16 where "MODBUS_DIAG_SUB_SLAVE_NAK_COUNT \<equiv> 0x0010"
abbreviation (input) MODBUS_DIAG_SUB_SLAVE_BUSY_COUNT :: u16 where "MODBUS_DIAG_SUB_SLAVE_BUSY_COUNT \<equiv> 0x0011"
abbreviation (input) MODBUS_DIAG_SUB_BUS_CHAR_OVERRUN_COUNT :: u16 where "MODBUS_DIAG_SUB_BUS_CHAR_OVERRUN_COUNT \<equiv> 0x0012"
abbreviation (input) MODBUS_DIAG_SUB_CLEAR_OVERRUN :: u16 where "MODBUS_DIAG_SUB_CLEAR_OVERRUN \<equiv> 0x0014"

definition modbus_diag_clear_counters :: "diag \<Rightarrow> diag" where
  "modbus_diag_clear_counters d =
     d\<lparr>s_bus_message_count := 0, s_comm_error_count := 0, s_exception_error_count := 0,
       s_slave_message_count := 0, s_slave_no_response_count := 0, s_char_overrun_count := 0,
       s_diag_register := 0\<rparr>"

definition modbus_diag_reset :: "diag \<Rightarrow> diag" where
  "modbus_diag_reset d = (modbus_diag_clear_counters d)\<lparr>s_listen_only := False\<rparr>"

definition modbus_diag_listen_only :: "diag \<Rightarrow> bool" where
  "modbus_diag_listen_only d = s_listen_only d"

section \<open>The dispatcher\<close>

definition modbus_diag_exception :: "u8 \<Rightarrow> u8 list" where
  "modbus_diag_exception exception_code = [MODBUS_FC_DIAGNOSTICS OR 0x80, exception_code]"

definition modbus_diag_echo :: "u8 list \<Rightarrow> u8 list option" where
  "modbus_diag_echo rx_pdu = rd_span rx_pdu 0 5"

definition modbus_diag_broadcast_eligible :: "u16 \<Rightarrow> bool" where
  "modbus_diag_broadcast_eligible sub_function \<longleftrightarrow>
     sub_function = MODBUS_DIAG_SUB_RESTART_COMM \<or> sub_function = MODBUS_DIAG_SUB_FORCE_LISTEN_ONLY \<or> sub_function = MODBUS_DIAG_SUB_CLEAR_COUNTERS"

definition modbus_diag_counter_read :: "diag \<Rightarrow> u16 \<Rightarrow> u16" where
  "modbus_diag_counter_read d sub_function =
     (if sub_function = MODBUS_DIAG_SUB_BUS_MESSAGE_COUNT then s_bus_message_count d
      else if sub_function = MODBUS_DIAG_SUB_BUS_COMM_ERROR_COUNT then s_comm_error_count d
      else if sub_function = MODBUS_DIAG_SUB_SLAVE_EXCEPTION_COUNT then s_exception_error_count d
      else if sub_function = MODBUS_DIAG_SUB_SLAVE_MESSAGE_COUNT then s_slave_message_count d
      else if sub_function = MODBUS_DIAG_SUB_SLAVE_NO_RESPONSE_COUNT then s_slave_no_response_count d
      else if sub_function = MODBUS_DIAG_SUB_SLAVE_NAK_COUNT then 0
      else if sub_function = MODBUS_DIAG_SUB_SLAVE_BUSY_COUNT then 0
      else if sub_function = MODBUS_DIAG_SUB_BUS_CHAR_OVERRUN_COUNT then s_char_overrun_count d
      else 0)"

text \<open>
  The result pairs the response PDU (empty: nothing is sent) with the new state.
\<close>

definition modbus_diag_process :: "u8 list \<Rightarrow> bool \<Rightarrow> comm \<Rightarrow> (u8 list \<times> comm) option" where
  "modbus_diag_process rx_pdu is_broadcast s =
    (let (d, e) = s in
     if length rx_pdu < 5 then
       (if s_listen_only d then Some ([], d, e) else Some (modbus_diag_exception MODBUS_EXC_ILLEGAL_DATA_VALUE, d, e))
     else do {
       sub_function \<leftarrow> rd16 rx_pdu 1;
       data \<leftarrow> rd16 rx_pdu 3;
       r1 \<leftarrow> rd rx_pdu 1;
       r2 \<leftarrow> rd rx_pdu 2;
       if s_listen_only d \<and> sub_function \<noteq> MODBUS_DIAG_SUB_RESTART_COMM then Some ([], d, e)
       else if is_broadcast \<and> \<not> modbus_diag_broadcast_eligible sub_function then Some ([], d, e)
       else if sub_function = MODBUS_DIAG_SUB_RETURN_QUERY_DATA then do { t \<leftarrow> modbus_diag_echo rx_pdu; Some (t, d, e) }
       else if sub_function = MODBUS_DIAG_SUB_RESTART_COMM then
         (if data \<noteq> 0x0000 \<and> data \<noteq> 0xFF00 then Some (modbus_diag_exception MODBUS_EXC_ILLEGAL_DATA_VALUE, d, e)
          else
            let d1 = modbus_diag_clear_counters d;
                e1 = modbus_event_note_restart (data = 0xFF00) e
            in if s_listen_only d1 then Some ([], d1\<lparr>s_listen_only := False\<rparr>, e1)
               else if is_broadcast then Some ([], d1, e1)
               else do { t \<leftarrow> modbus_diag_echo rx_pdu; Some (t, d1, e1) })
       else if sub_function = MODBUS_DIAG_SUB_READ_DIAG_REGISTER then
         (if data \<noteq> 0x0000 then Some (modbus_diag_exception MODBUS_EXC_ILLEGAL_DATA_VALUE, d, e)
          else Some ([MODBUS_FC_DIAGNOSTICS, r1, r2, hi8 (s_diag_register d), lo8 (s_diag_register d)], d, e))
       else if sub_function = MODBUS_DIAG_SUB_CHANGE_ASCII_DELIMITER then do { t \<leftarrow> modbus_diag_echo rx_pdu; Some (t, d, e) }
       else if sub_function = MODBUS_DIAG_SUB_FORCE_LISTEN_ONLY then
         (if data \<noteq> 0x0000 then Some (modbus_diag_exception MODBUS_EXC_ILLEGAL_DATA_VALUE, d, e)
          else Some ([], d\<lparr>s_listen_only := True\<rparr>, modbus_event_push MODBUS_EVENT_ENTER_LISTEN_ONLY e))
       else if sub_function = MODBUS_DIAG_SUB_CLEAR_COUNTERS then
         (if data \<noteq> 0x0000 then Some (modbus_diag_exception MODBUS_EXC_ILLEGAL_DATA_VALUE, d, e)
          else
            let d1 = modbus_diag_clear_counters d; e1 = modbus_event_clear_counter e
            in if is_broadcast then Some ([], d1, e1)
               else do { t \<leftarrow> modbus_diag_echo rx_pdu; Some (t, d1, e1) })
       else if MODBUS_DIAG_SUB_BUS_MESSAGE_COUNT \<le> sub_function \<and> sub_function \<le> MODBUS_DIAG_SUB_BUS_CHAR_OVERRUN_COUNT then
         (if data \<noteq> 0x0000 then Some (modbus_diag_exception MODBUS_EXC_ILLEGAL_DATA_VALUE, d, e)
          else
            let value = modbus_diag_counter_read d sub_function
            in Some ([MODBUS_FC_DIAGNOSTICS, r1, r2, hi8 value, lo8 value], d, e))
       else if sub_function = MODBUS_DIAG_SUB_CLEAR_OVERRUN then
         (if data \<noteq> 0x0000 then Some (modbus_diag_exception MODBUS_EXC_ILLEGAL_DATA_VALUE, d, e)
          else do { t \<leftarrow> modbus_diag_echo rx_pdu; Some (t, d\<lparr>s_char_overrun_count := 0\<rparr>, e) })
       else Some (modbus_diag_exception MODBUS_EXC_ILLEGAL_FUNCTION, d, e)
     })"

section \<open>Bookkeeping hooks\<close>

definition modbus_diag_note_bus_message :: "diag \<Rightarrow> diag" where
  "modbus_diag_note_bus_message d = d\<lparr>s_bus_message_count := s_bus_message_count d + 1\<rparr>"

definition modbus_diag_note_comm_error :: "comm \<Rightarrow> comm" where
  "modbus_diag_note_comm_error s =
     (let (d, e) = s in
      (d\<lparr>s_comm_error_count := s_comm_error_count d + 1\<rparr>,
       modbus_event_push (MODBUS_EVENT_RX OR MODBUS_EVENT_RX_COMM_ERROR OR (if s_listen_only d then MODBUS_EVENT_RX_LISTEN_ONLY else 0)) e))"

definition modbus_diag_note_slave_message :: "diag \<Rightarrow> diag" where
  "modbus_diag_note_slave_message d = d\<lparr>s_slave_message_count := s_slave_message_count d + 1\<rparr>"

definition modbus_diag_note_char_overrun :: "comm \<Rightarrow> comm" where
  "modbus_diag_note_char_overrun s =
     (let (d, e) = s in
      (d\<lparr>s_char_overrun_count := s_char_overrun_count d + 1,
         s_comm_error_count := s_comm_error_count d + 1\<rparr>,
       modbus_event_push (MODBUS_EVENT_RX OR MODBUS_EVENT_RX_COMM_ERROR OR MODBUS_EVENT_RX_CHAR_OVERRUN OR
          (if s_listen_only d then MODBUS_EVENT_RX_LISTEN_ONLY else 0)) e))"

definition modbus_diag_note_result :: "bool \<Rightarrow> bool \<Rightarrow> diag \<Rightarrow> diag" where
  "modbus_diag_note_result responded is_exception d =
     (if is_exception then d\<lparr>s_exception_error_count := s_exception_error_count d + 1\<rparr>
      else if \<not> responded then d\<lparr>s_slave_no_response_count := s_slave_no_response_count d + 1\<rparr>
      else d)"

section \<open>Properties of the dispatcher\<close>

abbreviation diag_req :: "u16 \<Rightarrow> u16 \<Rightarrow> u8 list \<Rightarrow> u8 list" where
  "diag_req sub data rest \<equiv> 0x08 # hi8 sub # lo8 sub # hi8 data # lo8 data # rest"

lemma diag_rx_cases:
  assumes "5 \<le> length rx"
  obtains fc sub data rest where "rx = fc # hi8 sub # lo8 sub # hi8 data # lo8 data # rest"
proof -
  from assms obtain a b c d e rest where "rx = a # b # c # d # e # rest"
    by (auto simp: numeral_eq_Suc Suc_le_length_iff)
  then have "rx = a # hi8 (be16 b c) # lo8 (be16 b c) # hi8 (be16 d e) # lo8 (be16 d e) # rest"
    by simp
  then show ?thesis by (rule that)
qed

lemma diag_echo_simps [simp]:
  "modbus_diag_echo (a # b # c # d # e # r) = Some [a, b, c, d, e]"
  by (simp add: modbus_diag_echo_def)

lemma diag_clear_simps [simp]:
  "s_listen_only (modbus_diag_clear_counters d) = s_listen_only d"
  "s_char_overrun_count (modbus_diag_clear_counters d) = 0"
  "s_comm_error_count (modbus_diag_clear_counters d) = 0"
  "s_bus_message_count (modbus_diag_clear_counters d) = 0"
  "s_exception_error_count (modbus_diag_clear_counters d) = 0"
  "s_slave_message_count (modbus_diag_clear_counters d) = 0"
  "s_slave_no_response_count (modbus_diag_clear_counters d) = 0"
  "s_diag_register (modbus_diag_clear_counters d) = 0"
  by (simp_all add: modbus_diag_clear_counters_def)

lemma diag_process_total:
  assumes "event_wf e"
  shows "\<exists>t d' e'. modbus_diag_process rx bc (d, e) = Some (t, d', e') \<and> length t \<le> 5 \<and> event_wf e'"
proof (cases "length rx < 5")
  case True
  with assms show ?thesis by (simp add: modbus_diag_process_def modbus_diag_exception_def)
next
  case False
  then obtain fc sub data rest where "rx = fc # hi8 sub # lo8 sub # hi8 data # lo8 data # rest"
    by (meson diag_rx_cases not_less)
  with assms show ?thesis
    by (simp add: modbus_diag_process_def modbus_diag_exception_def Let_def)
qed


text \<open>A restart request with a data value the code accepts.\<close>

definition restart_request :: "u8 list \<Rightarrow> bool" where
  "restart_request rx \<longleftrightarrow>
     (\<exists>fc data rest. rx = fc # 0x00 # 0x01 # hi8 data # lo8 data # rest \<and> (data = 0x0000 \<or> data = 0xFF00))"

lemma restart_request_cons:
  "restart_request (fc # hi8 sub # lo8 sub # hi8 data # lo8 data # rest) \<longleftrightarrow>
     sub = 0x0001 \<and> (data = 0x0000 \<or> data = 0xFF00)"
proof -
  have "(hi8 sub = 0 \<and> lo8 sub = 1) = (sub = 0x0001)"
    by (metis be16_hi8_lo8 be16_inject be16_eq_iff hi8_be16 lo8_be16 be16_def push_bit_of_0
        unsigned_0 or.left_neutral unsigned_1)
  then show ?thesis
    by (auto simp: restart_request_def) (metis be16_hi8_lo8)+
qed

lemma restart_request_short: "length rx < 5 \<Longrightarrow> \<not> restart_request rx"
  by (auto simp: restart_request_def)

text \<open>
  Listen-only mode seen as a whole: either the PDU is a restart request and the port silently
  returns to normal operation with cleared counters; or nothing changes.
\<close>

lemma diag_listen_only_cases:
  assumes "s_listen_only d" and "modbus_diag_process rx bc (d, e) = Some (t, d', e')"
  shows "if restart_request rx
         then t = [] \<and> d' = (modbus_diag_clear_counters d)\<lparr>s_listen_only := False\<rparr>
         else d' = d \<and> e' = e \<and>
           (t = [] \<or> t = modbus_diag_exception 0x03 \<and> (\<exists>data. rd16 rx 1 = Some 0x0001 \<and>
              rd16 rx 3 = Some data \<and> data \<notin> {0x0000, 0xFF00}))"
proof (cases "length rx < 5")
  case True
  with assms restart_request_short [OF True] show ?thesis
    by (simp add: modbus_diag_process_def)
next
  case False
  then obtain fc sub data rest where rx: "rx = fc # hi8 sub # lo8 sub # hi8 data # lo8 data # rest"
    by (meson diag_rx_cases not_less)
  show ?thesis
    using assms unfolding rx restart_request_cons
    by (auto simp: modbus_diag_process_def modbus_diag_broadcast_eligible_def Let_def
        split: if_splits)
qed

lemma diag_mode_change:
  assumes "modbus_diag_process rx bc (d, e) = Some (t, d', e')" and "\<not> s_listen_only d"
  shows "s_listen_only d' \<longleftrightarrow> rd16 rx 1 = Some 0x0004 \<and> rd16 rx 3 = Some 0x0000"
proof (cases "length rx < 5")
  case True
  then have "rd16 rx 3 = None" by (simp add: rd16_None)
  with assms True show ?thesis by (simp add: modbus_diag_process_def)
next
  case False
  then obtain fc sub data rest where rx: "rx = fc # hi8 sub # lo8 sub # hi8 data # lo8 data # rest"
    by (meson diag_rx_cases not_less)
  show ?thesis
    using assms unfolding rx
    by (auto simp: modbus_diag_process_def modbus_diag_broadcast_eligible_def Let_def
        split: if_splits)
qed

lemma diag_broadcast_cases:
  assumes "modbus_diag_process rx True (d, e) = Some (t, d', e')"
  shows "t = [] \<or> t = modbus_diag_exception 0x03 \<and> d' = d \<and> e' = e \<and>
    (length rx < 5 \<and> \<not> s_listen_only d \<or>
     (\<exists>sub data. rd16 rx 1 = Some sub \<and> rd16 rx 3 = Some data \<and>
        modbus_diag_broadcast_eligible sub \<and> data \<noteq> 0))"
proof (cases "length rx < 5")
  case True
  with assms show ?thesis
    by (auto simp: modbus_diag_process_def split: if_splits)
next
  case False
  then obtain fc sub data rest where rx: "rx = fc # hi8 sub # lo8 sub # hi8 data # lo8 data # rest"
    by (meson diag_rx_cases not_less)
  show ?thesis
    using assms unfolding rx
    by (auto simp: modbus_diag_process_def modbus_diag_broadcast_eligible_def Let_def
        split: if_splits)
qed

text \<open>The functional behaviour of the sub-functions on a well-formed unicast request.\<close>

lemma diag_read_counter:
  assumes "\<not> s_listen_only d" and "0x000B \<le> sub" and "sub \<le> 0x0012"
  shows "modbus_diag_process (diag_req sub 0 rest) False (d, e) =
    Some (0x08 # hi8 sub # lo8 sub # be_bytes [modbus_diag_counter_read d sub], d, e)"
proof -
  have "sub \<notin> {0, 1, 2, 3, 4, 0x000A}" using assms(2) by (auto simp: word_le_nat_alt)
  with assms show ?thesis by (simp add: modbus_diag_process_def Let_def)
qed

lemma diag_restart:
  assumes "\<not> s_listen_only d" and "data = 0x0000 \<or> data = 0xFF00"
  shows "modbus_diag_process (diag_req 0x0001 data rest) False (d, e) =
    Some (diag_req 0x0001 data [], modbus_diag_clear_counters d, modbus_event_note_restart (data = 0xFF00) e)"
  using assms by (auto simp: modbus_diag_process_def Let_def)

end
