(* ===== verification/Cell_Bank.thy ===== *)
theory Cell_Bank
  imports Prelude
begin

text \<open>
  The interface shared by every bank of individually addressed cells of the firmware: the digital
  outputs, the relays, the coil and discrete-input bits, the holding and input registers. A bank
  has a reader, a writer that ignores addresses out of range, and a normalisation of the written
  value (a bit bank stores 1 for every non-zero value). The lemmas give the contents after a loop
  of writes; the component theories interpret the locale on their own operations.
\<close>

locale cell_bank =
  fixes get :: "'s \<Rightarrow> 'i \<Rightarrow> 'v"
    and put :: "'i \<Rightarrow> 'v \<Rightarrow> 's \<Rightarrow> 's"
    and norm :: "'v \<Rightarrow> 'v"
    and valid :: "'s \<Rightarrow> bool"
    and ok :: "'i \<Rightarrow> bool"
  assumes put_valid: "valid s \<Longrightarrow> valid (put i v s)"
    and get_put: "valid s \<Longrightarrow> ok i \<Longrightarrow> ok j \<Longrightarrow> get (put i v s) j = (if j = i then norm v else get s j)"
    and put_out: "\<not> ok i \<Longrightarrow> put i v s = s"
begin

definition put_all :: "(nat \<Rightarrow> 'i) \<Rightarrow> (nat \<Rightarrow> 'v) \<Rightarrow> nat \<Rightarrow> 's \<Rightarrow> 's" where
  "put_all at f n s = fold (\<lambda>i. put (at i) (f i)) [0..<n] s"

lemma put_all_0 [simp]: "put_all at f 0 s = s"
  by (simp add: put_all_def)

lemma put_all_Suc [simp]: "put_all at f (Suc n) s = put (at n) (f n) (put_all at f n s)"
  by (simp add: put_all_def)

lemma put_all_valid: "valid s \<Longrightarrow> valid (put_all at f n s)"
  by (induction n) (auto intro: put_valid)

lemma put_all_other:
  assumes "valid s" and "ok j" and "\<And>i. i < n \<Longrightarrow> at i \<noteq> j"
  shows "get (put_all at f n s) j = get s j"
  using assms(3)
proof (induction n)
  case 0
  then show ?case by simp
next
  case (Suc n)
  then have "at n \<noteq> j" and IH: "get (put_all at f n s) j = get s j"
    by auto
  with assms(1,2) show ?case
    by (cases "ok (at n)") (auto simp: get_put put_all_valid put_out)
qed

lemma put_all_at:
  assumes "valid s" and "k < n" and "\<And>i. i < n \<Longrightarrow> ok (at i)" and "inj_on at {..<n}"
  shows "get (put_all at f n s) (at k) = norm (f k)"
  using assms(2-4)
proof (induction n)
  case 0
  then show ?case by simp
next
  case (Suc n)
  have "get (put_all at f (Suc n) s) (at k) =
      (if at k = at n then norm (f n) else get (put_all at f n s) (at k))"
    using Suc.prems assms(1) by (simp add: get_put put_all_valid)
  also have "\<dots> = norm (f k)"
  proof (cases "k = n")
    case False
    with Suc.prems have "k < n" and "at k \<noteq> at n" by (auto simp: inj_on_def)
    moreover have "inj_on at {..<n}" using Suc.prems(3) by (rule inj_on_subset) auto
    ultimately show ?thesis using Suc.IH Suc.prems(2) by simp
  qed simp
  finally show ?case .
qed

text \<open>Overwriting: only the last write to a cell counts.\<close>

lemma put_put:
  assumes "valid s" and "ok i" and "ok j"
  shows "get (put i v (put i w s)) j = get (put i v s) j"
  using assms by (simp add: get_put put_valid)

lemma put_commute:
  assumes "valid s" and "i \<noteq> k" and "ok j"
  shows "get (put i v (put k w s)) j = get (put k w (put i v s)) j"
  using assms by (cases "ok i"; cases "ok k") (auto simp: get_put put_valid put_out)

end

text \<open>Consecutive 16-bit addresses that do not wrap are distinct and in range.\<close>

lemma addr_plus:
  assumes "unat (a :: u16) + i < 65536"
  shows "unat (a + of_nat i) = unat a + i"
  using assms by (simp add: unat_word_ariths unat_of_nat take_bit_nat_eq_self_iff)

lemma addr_inj:
  assumes "unat (a :: u16) + n \<le> 65536"
  shows "inj_on (\<lambda>i. a + of_nat i) {..<n}"
proof (rule inj_onI)
  fix i j
  assume ij: "i \<in> {..<n}" "j \<in> {..<n}" and eq: "a + of_nat i = a + of_nat j"
  have "unat (a + of_nat i) = unat a + i" and "unat (a + of_nat j) = unat a + j"
    using assms ij by (simp_all add: addr_plus)
  then have "unat a + i = unat a + j" by (metis eq)
  then show "i = j" by simp
qed

end
