(* ===== verification/Board_IO.thy ===== *)
theory Board_IO
  imports Cell_Bank
begin

text \<open>
  The board's inputs and outputs: \<open>src/digital_io.c\<close>, \<open>src/relay.c\<close> and the raw part of
  \<open>src/analog_io.c\<close>, over one record with the static variables of the three files. A register
  write of the code is an entry of the trace \<open>hw\<close>, newest first; \<open>odr\<close> replays the trace of a
  GPIO port the way its BSRR register works (low half sets, high half resets), so a lemma can say
  what the pins show, and \<open>confined\<close> says that a write stays on the pins of its bank. The port's input
  register and the ADC results are arguments. The configuration of the pins, the ADC and the DAC is in
  \<open>Board_Setup\<close>, the conversions from and to volts in \<open>Analog_Volt\<close>.
\<close>

section \<open>State\<close>

datatype gpio_port = DO_PORT | RELAY_PORT | RELAY_LED_PORT

datatype hw_write =
    BSRR gpio_port u32
  | DAC_SetValue u8 u16
  | DAC_Start u8

record board =
  digital_input_states :: u8
  digital_output_states :: u8
  di_debounce :: "u8 list"
  relay_states :: u8
  ai_raw_values :: "u16 list"
  hw :: "hw_write list"

definition di_pins :: "u16 list" where
  "di_pins = [0x0001, 0x0002, 0x0004, 0x0008, 0x0010, 0x0020, 0x0040, 0x0080]"

definition do_pins :: "u16 list" where
  "do_pins = [0x0001, 0x0002, 0x0020, 0x0040, 0x0100, 0x0200, 0x0400, 0x0080]"

definition relay_pins :: "u16 list" where
  "relay_pins = [0x0100, 0x0200, 0x0400, 0x0800]"

definition relay_led_pins :: "u16 list" where
  "relay_led_pins = [0x0001, 0x0002, 0x0004, 0x0008]"

definition emit :: "hw_write \<Rightarrow> board \<Rightarrow> board" where
  "emit w b = b\<lparr>hw := w # hw b\<rparr>"

section \<open>Digital inputs\<close>

definition digital_inputs_scan :: "u32 \<Rightarrow> board \<Rightarrow> board" where
  "digital_inputs_scan port b =
     (let (debounce, raw) =
        fold (\<lambda>i (db, raw).
            if port AND ucast (di_pins ! i) = 0 then
              (if db ! i < 5 then (db[i := db ! i + 1], raw) else (db, raw OR push_bit i 1))
            else (db[i := 0], raw))
          [0..<8] (di_debounce b, 0)
      in b\<lparr>di_debounce := debounce, digital_input_states := raw\<rparr>)"

definition digital_inputs_read_all :: "board \<Rightarrow> u8" where
  "digital_inputs_read_all b = digital_input_states b"

definition digital_input_read :: "board \<Rightarrow> u8 \<Rightarrow> u8" where
  "digital_input_read b channel =
     (if channel \<ge> 8 then 0 else drop_bit (unat channel) (digital_input_states b) AND 0x01)"

section \<open>Digital outputs\<close>

definition digital_outputs_init :: "board \<Rightarrow> board" where
  "digital_outputs_init b = (emit (BSRR DO_PORT (push_bit 16 0x07E3)) b)\<lparr>digital_output_states := 0\<rparr>"

text \<open>The loop that sorts the pins of a bank into those to set and those to reset.\<close>

definition bsrr_masks :: "u16 list \<Rightarrow> u8 \<Rightarrow> u32 \<times> u32" where
  "bsrr_masks pins v =
     fold (\<lambda>i (s, r). if v AND push_bit i 1 \<noteq> 0 then (s OR ucast (pins ! i), r)
                      else (s, r OR ucast (pins ! i)))
       [0..<length pins] (0, 0)"

definition digital_outputs_write_all :: "u8 \<Rightarrow> board \<Rightarrow> board" where
  "digital_outputs_write_all val b =
     (let b = b\<lparr>digital_output_states := val\<rparr>; (bsrr_set, bsrr_reset) = bsrr_masks do_pins val
      in emit (BSRR DO_PORT bsrr_set) (emit (BSRR DO_PORT (push_bit 16 bsrr_reset)) b))"

definition digital_output_write :: "u8 \<Rightarrow> u8 \<Rightarrow> board \<Rightarrow> board" where
  "digital_output_write channel state b =
     (if channel \<ge> 8 then b
      else if state \<noteq> 0 then
        emit (BSRR DO_PORT (ucast (do_pins ! unat channel)))
          (b\<lparr>digital_output_states := digital_output_states b OR push_bit (unat channel) 1\<rparr>)
      else
        emit (BSRR DO_PORT (push_bit 16 (ucast (do_pins ! unat channel))))
          (b\<lparr>digital_output_states := digital_output_states b AND NOT (push_bit (unat channel) 1)\<rparr>))"

definition digital_output_read :: "board \<Rightarrow> u8 \<Rightarrow> u8" where
  "digital_output_read b channel =
     (if channel \<ge> 8 then 0 else drop_bit (unat channel) (digital_output_states b) AND 0x01)"

definition digital_outputs_read_all :: "board \<Rightarrow> u8" where
  "digital_outputs_read_all b = digital_output_states b"

section \<open>Relays\<close>

definition relay_led_update :: "u8 \<Rightarrow> u8 \<Rightarrow> board \<Rightarrow> board" where
  "relay_led_update channel state b =
     (if channel \<ge> 4 then b
      else if state \<noteq> 0 then emit (BSRR RELAY_LED_PORT (ucast (relay_led_pins ! unat channel))) b
      else emit (BSRR RELAY_LED_PORT (push_bit 16 (ucast (relay_led_pins ! unat channel)))) b)"

definition relay_set :: "u8 \<Rightarrow> u8 \<Rightarrow> board \<Rightarrow> board" where
  "relay_set channel state b =
     (if channel \<ge> 4 then b
      else relay_led_update channel state
        (if state \<noteq> 0 then
           emit (BSRR RELAY_PORT (ucast (relay_pins ! unat channel)))
             (b\<lparr>relay_states := relay_states b OR push_bit (unat channel) 1\<rparr>)
         else
           emit (BSRR RELAY_PORT (push_bit 16 (ucast (relay_pins ! unat channel))))
             (b\<lparr>relay_states := relay_states b AND NOT (push_bit (unat channel) 1)\<rparr>)))"

definition relay_get :: "board \<Rightarrow> u8 \<Rightarrow> u8" where
  "relay_get b channel =
     (if channel \<ge> 4 then 0 else drop_bit (unat channel) (relay_states b) AND 0x01)"

definition relays_set_all :: "u8 \<Rightarrow> board \<Rightarrow> board" where
  "relays_set_all m b =
     (let b = b\<lparr>relay_states := m AND 0x0F\<rparr>; (bsrr_set, bsrr_reset) = bsrr_masks relay_pins m;
          b = emit (BSRR RELAY_PORT bsrr_set) (emit (BSRR RELAY_PORT (push_bit 16 bsrr_reset)) b)
      in fold (\<lambda>i. relay_led_update (of_nat i) (drop_bit i m AND 0x01)) [0..<4] b)"

definition relays_init :: "board \<Rightarrow> board" where
  "relays_init b = relays_set_all 0x00 b"

definition relays_get_all :: "board \<Rightarrow> u8" where
  "relays_get_all b = relay_states b"

definition relay_toggle :: "u8 \<Rightarrow> board \<Rightarrow> board" where
  "relay_toggle channel b =
     (if channel \<ge> 4 then b else relay_set channel (relay_get b channel XOR 0x01) b)"

section \<open>Analog inputs and outputs\<close>

text \<open>
  \<open>adc i\<close> is the conversion result of channel \<open>i\<close>, \<open>None\<close> when the poll times out (the buffer
  then keeps its old value). The buffer of the caller is returned updated.
\<close>

definition analog_inputs_scan_all :: "(nat \<Rightarrow> u16 option) \<Rightarrow> u16 list \<Rightarrow> board \<Rightarrow> (u16 list \<times> board) option" where
  "analog_inputs_scan_all adc buffer b = do {
     buffer \<leftarrow> for_n 4 (\<lambda>i buf. case adc i of Some v \<Rightarrow> wr buf i v | None \<Rightarrow> Some buf) buffer;
     raw \<leftarrow> for_n 4 (\<lambda>i raw. do { v \<leftarrow> rd buffer i; wr raw i v }) (ai_raw_values b);
     Some (buffer, b\<lparr>ai_raw_values := raw\<rparr>)
   }"

definition analog_input_read_raw :: "board \<Rightarrow> u8 \<Rightarrow> u16" where
  "analog_input_read_raw b channel = (if channel \<ge> 4 then 0 else ai_raw_values b ! unat channel)"

definition analog_output_write_raw :: "u8 \<Rightarrow> u16 \<Rightarrow> board \<Rightarrow> board" where
  "analog_output_write_raw channel val b =
     (if channel \<ge> 2 then b
      else if channel = 0 then emit (DAC_Start 0) (emit (DAC_SetValue 0 val) b)
      else emit (DAC_Start 1) (emit (DAC_SetValue 1 val) b))"

definition analog_outputs_init :: "board \<Rightarrow> board" where
  "analog_outputs_init b = analog_output_write_raw 1 0 (analog_output_write_raw 0 0 b)"

section \<open>The output banks\<close>

lemma bit_value: "(drop_bit n x AND 1 :: 'a::len word) = of_bool (bit x n)"
  by (simp add: bit_iff_odd_drop_bit and_one_eq mod_2_eq_odd)

lemma bit_u8_one: "bit (push_bit i 1 :: u8) n \<longleftrightarrow> n = i \<and> i < 8"
  by (auto simp: bit_simps)

lemma bit_u8_pow: "bit (2 ^ i :: u8) n \<longleftrightarrow> n = i \<and> i < 8"
  by (auto simp: bit_simps)

lemma u8_less_8: "unat (c :: u8) < 8 \<longleftrightarrow> c < 8" and u8_less_4: "unat c < 4 \<longleftrightarrow> c < 4"
  by (simp_all add: word_less_nat_alt)

lemma less_4_8: "c < 4 \<Longrightarrow> c < (8 :: u8)"
  by (simp add: word_less_nat_alt)

lemma less_4_8_nat: "c < 4 \<Longrightarrow> unat (c :: u8) < 8"
  by (simp add: word_less_nat_alt)

lemmas bit_bank_simps = bit_value bit_u8_one bit_simps u8_less_8 u8_less_4 not_le emit_def

interpretation do_bank: cell_bank digital_output_read digital_output_write
  "\<lambda>v. of_bool (v \<noteq> 0)" "\<lambda>_. True" "\<lambda>c. c < 8"
  by unfold_locales
    (auto simp: digital_output_read_def digital_output_write_def bit_bank_simps)

lemma relay_led_update_frame [simp]:
  "relay_states (relay_led_update c v b) = relay_states b"
  "digital_output_states (relay_led_update c v b) = digital_output_states b"
  "digital_input_states (relay_led_update c v b) = digital_input_states b"
  "ai_raw_values (relay_led_update c v b) = ai_raw_values b"
  by (simp_all add: relay_led_update_def emit_def)

interpretation relay_bank: cell_bank relay_get relay_set
  "\<lambda>v. of_bool (v \<noteq> 0)" "\<lambda>_. True" "\<lambda>c. c < 4"
  by unfold_locales
    (auto simp: relay_get_def relay_set_def bit_bank_simps less_4_8)

lemma relay_toggle_get:
  assumes "c < 4" and "c' < 4"
  shows "relay_get (relay_toggle c b) c' = (if c' = c then relay_get b c XOR 1 else relay_get b c')"
proof -
  have "of_bool (relay_get b c XOR 1 \<noteq> 0) = relay_get b c XOR 1"
    by (simp add: relay_get_def bit_value of_bool_def)
  with assms show ?thesis
    by (auto simp: relay_toggle_def relay_bank.get_put)
qed

section \<open>What the pins show\<close>

primrec odr :: "gpio_port \<Rightarrow> hw_write list \<Rightarrow> u32" where
  "odr p [] = 0"
| "odr p (w # ws) =
     (case w of
        BSRR q v \<Rightarrow> if q = p then (odr p ws AND NOT (drop_bit 16 v)) OR take_bit 16 v else odr p ws
      | _ \<Rightarrow> odr p ws)"

lemma bit_odr_set:
  "n < 16 \<Longrightarrow> bit (odr p (BSRR q (ucast (m :: u16)) # ws)) n \<longleftrightarrow>
    bit (odr p ws) n \<or> p = q \<and> bit m n"
  by (auto simp: bit_simps dest: bit_imp_le_length)

lemma bit_odr_reset:
  "n < 16 \<Longrightarrow> bit (odr p (BSRR q (push_bit 16 (ucast (m :: u16))) # ws)) n \<longleftrightarrow>
    bit (odr p ws) n \<and> \<not> (p = q \<and> bit m n)"
  by (auto simp: bit_simps dest: bit_imp_le_length)

lemma bit_odr_masks:
  assumes "n < 16" and "\<And>k. bit s k \<Longrightarrow> k < 16" and "\<And>k. bit r k \<Longrightarrow> k < 16"
  shows "bit (odr p (BSRR q s # BSRR q (push_bit 16 r) # ws)) n \<longleftrightarrow>
    (if p = q then bit s n \<or> (bit (odr p ws) n \<and> \<not> bit r n) else bit (odr p ws) n)"
  using assms(1) assms(2) [of "n + 16"] assms(3) [of "n + 16"]
  by (auto simp: bit_simps add.commute [of 16])

definition bsrr_step :: "u16 list \<Rightarrow> u8 \<Rightarrow> nat \<Rightarrow> u32 \<times> u32 \<Rightarrow> u32 \<times> u32" where
  "bsrr_step pins v = (\<lambda>i (s, r). if v AND push_bit i 1 \<noteq> 0 then (s OR ucast (pins ! i), r)
                                   else (s, r OR ucast (pins ! i)))"

lemma bit_bsrr_step:
  "bit (fst (bsrr_step pins v i p)) n \<longleftrightarrow> bit (fst p) n \<or> bit (pins ! i) n \<and> bit v i"
  "bit (snd (bsrr_step pins v i p)) n \<longleftrightarrow> bit (snd p) n \<or> bit (pins ! i) n \<and> \<not> bit v i"
  by (auto simp: bsrr_step_def split_beta bit_or_iff bit_ucast_iff
      bit_iff_and_push_bit_not_eq_0 [of v i] dest: bit_imp_le_length)

lemma bsrr_masks_bits:
  "bit (fst (bsrr_masks pins v)) n \<longleftrightarrow> (\<exists>i < length pins. bit (pins ! i) n \<and> bit v i)"
  "bit (snd (bsrr_masks pins v)) n \<longleftrightarrow> (\<exists>i < length pins. bit (pins ! i) n \<and> \<not> bit v i)"
proof -
  have "(bit (fst (fold (bsrr_step pins v) [0..<m] (0, 0))) n \<longleftrightarrow> (\<exists>i < m. bit (pins ! i) n \<and> bit v i)) \<and>
        (bit (snd (fold (bsrr_step pins v) [0..<m] (0, 0))) n \<longleftrightarrow> (\<exists>i < m. bit (pins ! i) n \<and> \<not> bit v i))" for m
    by (induction m) (auto simp: bit_bsrr_step less_Suc_eq)
  then show "bit (fst (bsrr_masks pins v)) n \<longleftrightarrow> (\<exists>i < length pins. bit (pins ! i) n \<and> bit v i)"
    and "bit (snd (bsrr_masks pins v)) n \<longleftrightarrow> (\<exists>i < length pins. bit (pins ! i) n \<and> \<not> bit v i)"
    by (simp_all add: bsrr_masks_def bsrr_step_def)
qed

text \<open>The pin numbers behind the masks of \<open>board_config.h\<close>.\<close>

definition do_pin_no :: "nat list" where "do_pin_no = [0, 1, 5, 6, 8, 9, 10, 7]"
definition relay_pin_no :: "nat list" where "relay_pin_no = [8, 9, 10, 11]"
definition relay_led_pin_no :: "nat list" where "relay_led_pin_no = [0, 1, 2, 3]"

lemma less_8_cases: "i < (8 :: nat) \<longleftrightarrow> i \<in> {0, 1, 2, 3, 4, 5, 6, 7}" by auto
lemma less_4_cases: "i < (4 :: nat) \<longleftrightarrow> i \<in> {0, 1, 2, 3}" by auto

lemma do_pins_bit:
  "i < 8 \<Longrightarrow> j < 8 \<Longrightarrow> bit (do_pins ! j) (do_pin_no ! i) \<longleftrightarrow> j = i"
  "i < 8 \<Longrightarrow> do_pin_no ! i < 16"
  "length do_pins = 8"
  by (auto simp: less_8_cases do_pins_def do_pin_no_def bit_numeral_rec)

lemma relay_pins_bit:
  "i < 4 \<Longrightarrow> j < 4 \<Longrightarrow> bit (relay_pins ! j) (relay_pin_no ! i) \<longleftrightarrow> j = i"
  "i < 4 \<Longrightarrow> relay_pin_no ! i < 16"
  "length relay_pins = 4"
  "i < 4 \<Longrightarrow> j < 4 \<Longrightarrow> bit (relay_led_pins ! j) (relay_led_pin_no ! i) \<longleftrightarrow> j = i"
  "i < 4 \<Longrightarrow> relay_led_pin_no ! i < 16"
  by (auto simp: less_4_cases relay_pins_def relay_pin_no_def relay_led_pins_def relay_led_pin_no_def)

text \<open>
  A board with its buffers of the right size, whose register writes so far stayed with the pins of
  their bank and the two DAC channels.
\<close>

definition bank_pin_no :: "gpio_port \<Rightarrow> nat list" where
  "bank_pin_no p = (case p of DO_PORT \<Rightarrow> do_pin_no | RELAY_PORT \<Rightarrow> relay_pin_no | RELAY_LED_PORT \<Rightarrow> relay_led_pin_no)"

fun confined :: "hw_write \<Rightarrow> bool" where
  "confined (BSRR p v) \<longleftrightarrow> (\<forall>n < 16. bit v n \<or> bit v (n + 16) \<longrightarrow> n \<in> set (bank_pin_no p))"
| "confined (DAC_SetValue c x) \<longleftrightarrow> c < 2"
| "confined (DAC_Start c) \<longleftrightarrow> c < 2"

definition board_wf :: "board \<Rightarrow> bool" where
  "board_wf b \<longleftrightarrow> length (di_debounce b) = 8 \<and> length (ai_raw_values b) = 4 \<and> (\<forall>w \<in> set (hw b). confined w)"

text \<open>The value a DAC channel was last given.\<close>

primrec dac_out :: "u8 \<Rightarrow> hw_write list \<Rightarrow> u16 option" where
  "dac_out ch [] = None"
| "dac_out ch (w # ws) = (case w of DAC_SetValue c v \<Rightarrow> if c = ch then Some v else dac_out ch ws | _ \<Rightarrow> dac_out ch ws)"

definition pins_ok :: "board \<Rightarrow> bool" where
  "pins_ok b \<longleftrightarrow>
     (\<forall>i < 8. bit (odr DO_PORT (hw b)) (do_pin_no ! i) = bit (digital_output_states b) i) \<and>
     (\<forall>i < 4. bit (odr RELAY_PORT (hw b)) (relay_pin_no ! i) = bit (relay_states b) i \<and>
              bit (odr RELAY_LED_PORT (hw b)) (relay_led_pin_no ! i) = bit (relay_states b) i)"

lemma odr_other_simps [simp]:
  "odr p (BSRR q v # ws) = (if q = p then (odr p ws AND NOT (drop_bit 16 v)) OR take_bit 16 v else odr p ws)"
  "odr p (DAC_SetValue c x # ws) = odr p ws"
  "odr p (DAC_Start c # ws) = odr p ws"
  by simp_all

declare odr.simps(2) [simp del]

lemma odr_frame: "q \<noteq> p \<Longrightarrow> odr p (BSRR q v # ws) = odr p ws"
  by simp

lemmas pin_bits = do_pins_bit relay_pins_bit bit_odr_set bit_odr_reset odr_frame

lemma pins_ok_output_write [simp]: "pins_ok b \<Longrightarrow> pins_ok (digital_output_write c v b)"
  by (auto simp: pins_ok_def digital_output_write_def emit_def pin_bits not_le u8_less_8
      bit_or_iff bit_and_iff bit_not_iff bit_u8_pow simp del: odr_other_simps(1))

lemma pins_ok_relay_set [simp]: "pins_ok b \<Longrightarrow> pins_ok (relay_set c v b)"
  by (auto simp: pins_ok_def relay_set_def relay_led_update_def emit_def pin_bits not_le u8_less_4
      bit_or_iff bit_and_iff bit_not_iff bit_u8_pow less_4_8_nat simp del: odr_other_simps(1))

lemma pins_ok_toggle [simp]: "pins_ok b \<Longrightarrow> pins_ok (relay_toggle c b)"
  by (simp add: relay_toggle_def)

lemma pins_ok_analog [simp]: "pins_ok b \<Longrightarrow> pins_ok (analog_output_write_raw c v b)"
  by (simp add: pins_ok_def analog_output_write_raw_def emit_def)

lemma pins_ok_scan [simp]: "pins_ok b \<Longrightarrow> pins_ok (digital_inputs_scan port b)"
  by (simp add: pins_ok_def digital_inputs_scan_def split_beta Let_def)

lemma masks_small:
  "bit (fst (bsrr_masks pins v)) k \<Longrightarrow> k < 16" "bit (snd (bsrr_masks pins v)) k \<Longrightarrow> k < 16"
  by (auto simp: bsrr_masks_bits dest: bit_imp_le_length)

text \<open>Writing the whole bank sets every pin of it, whatever the port showed before.\<close>

lemma bit_odr_bank:
  assumes "i < length pins" and "no < 16"
    and "\<And>j. j < length pins \<Longrightarrow> bit (pins ! j) no \<longleftrightarrow> j = i"
  shows "bit (odr p (BSRR p (fst (bsrr_masks pins v)) #
    BSRR p (push_bit 16 (snd (bsrr_masks pins v))) # ws)) no \<longleftrightarrow> bit v i"
  using assms(1,3) by (subst bit_odr_masks [OF assms(2) masks_small])
    (auto simp: bsrr_masks_bits)

lemma bit_odr_do_bank:
  "i < 8 \<Longrightarrow> bit (odr DO_PORT (BSRR DO_PORT (fst (bsrr_masks do_pins v)) #
     BSRR DO_PORT (push_bit 16 (snd (bsrr_masks do_pins v))) # ws)) (do_pin_no ! i) \<longleftrightarrow> bit v i"
  by (rule bit_odr_bank) (auto simp: pin_bits)

lemma bit_odr_relay_bank:
  "i < 4 \<Longrightarrow> bit (odr RELAY_PORT (BSRR RELAY_PORT (fst (bsrr_masks relay_pins v)) #
     BSRR RELAY_PORT (push_bit 16 (snd (bsrr_masks relay_pins v))) # ws)) (relay_pin_no ! i) \<longleftrightarrow> bit v i"
  by (rule bit_odr_bank) (auto simp: pin_bits)

lemma bit_and_15: "i < 4 \<Longrightarrow> bit (v AND 0x0F :: u8) i \<longleftrightarrow> bit v i"
  by (auto simp: less_4_cases bit_and_iff)

lemma pins_ok_write_all [simp]: "pins_ok b \<Longrightarrow> pins_ok (digital_outputs_write_all v b)"
  unfolding pins_ok_def digital_outputs_write_all_def Let_def split_beta emit_def
  by (simp add: bit_odr_do_bank odr_frame del: odr_other_simps(1))

lemma led_update_hw: "c < 4 \<Longrightarrow> hw (relay_led_update c v b) =
    BSRR RELAY_LED_PORT (if v \<noteq> 0 then ucast (relay_led_pins ! unat c)
      else push_bit 16 (ucast (relay_led_pins ! unat c))) # hw b"
  by (auto simp: relay_led_update_def emit_def)

lemma led_loop:
  "m \<le> 4 \<Longrightarrow>
   (let b' = fold (\<lambda>i. relay_led_update (of_nat i) (drop_bit i v AND 1)) [0..<m] b in
    relay_states b' = relay_states b \<and> digital_output_states b' = digital_output_states b \<and>
    (\<forall>p. p \<noteq> RELAY_LED_PORT \<longrightarrow> odr p (hw b') = odr p (hw b)) \<and>
    (\<forall>i < m. bit (odr RELAY_LED_PORT (hw b')) (relay_led_pin_no ! i) \<longleftrightarrow> bit v i))"
proof (induction m)
  case 0
  then show ?case by simp
next
  case (Suc m)
  then have m: "(of_nat m :: u8) < 4" and u: "unat (of_nat m :: u8) = m"
    by (simp_all add: word_less_nat_alt)
  with Suc show ?case
    by (auto simp: Let_def led_update_hw pin_bits bit_value less_Suc_eq simp del: odr_other_simps(1)
        split: if_splits)
qed

lemma pins_ok_relays_set_all [simp]:
  assumes "pins_ok b"
  shows "pins_ok (relays_set_all v b)"
proof -
  define b0 where "b0 = emit (BSRR RELAY_PORT (fst (bsrr_masks relay_pins v)))
    (emit (BSRR RELAY_PORT (push_bit 16 (snd (bsrr_masks relay_pins v)))) (b\<lparr>relay_states := v AND 0x0F\<rparr>))"
  have b0: "relay_states b0 = v AND 0x0F" "digital_output_states b0 = digital_output_states b"
    "odr DO_PORT (hw b0) = odr DO_PORT (hw b)"
    "i < 4 \<Longrightarrow> bit (odr RELAY_PORT (hw b0)) (relay_pin_no ! i) \<longleftrightarrow> bit v i" for i
    by (simp_all add: b0_def emit_def bit_odr_relay_bank odr_frame del: odr_other_simps(1))
  have "relays_set_all v b = fold (\<lambda>i. relay_led_update (of_nat i) (drop_bit i v AND 1)) [0..<4] b0"
    by (simp add: relays_set_all_def b0_def Let_def split_beta)
  with led_loop [of 4 v b0] assms show ?thesis
    by (simp add: pins_ok_def Let_def b0 bit_and_15)
qed

section \<open>Debouncing\<close>

text \<open>One channel of the scan: the debounce counter and the reported level.\<close>

definition debounce_step :: "bool \<Rightarrow> u8 \<Rightarrow> u8 \<times> bool" where
  "debounce_step active c = (if active then (if c < 5 then (c + 1, False) else (c, True)) else (0, False))"

lemma scan_channel:
  assumes "length (di_debounce b) = 8" and "i < 8"
  shows "(di_debounce (digital_inputs_scan port b) ! i, bit (digital_input_states (digital_inputs_scan port b)) i)
    = debounce_step (\<not> bit port i) (di_debounce b ! i)"
proof -
  define F :: "nat \<Rightarrow> u8 list \<times> u8 \<Rightarrow> u8 list \<times> u8" where
    "F = (\<lambda>i (db, raw).
            if port AND ucast (di_pins ! i) = 0 then
              (if db ! i < 5 then (db[i := db ! i + 1], raw) else (db, raw OR push_bit i 1))
            else (db[i := 0], raw))"
  have pin: "port AND ucast (di_pins ! i) = 0 \<longleftrightarrow> \<not> bit port i" if "i < 8" for i
  proof -
    have "ucast (di_pins ! i) = (push_bit i 1 :: u32)"
      using that by (auto simp: less_8_cases di_pins_def)
    then show ?thesis by (simp add: bit_iff_and_push_bit_not_eq_0)
  qed
  have "length (fst (fold F [0..<m] (db, 0))) = 8 \<and>
      (\<forall>j < 8. (fst (fold F [0..<m] (db, 0)) ! j, bit (snd (fold F [0..<m] (db, 0))) j) =
        (if j < m then debounce_step (\<not> bit port j) (db ! j) else (db ! j, False)))"
    if "m \<le> 8" "length db = 8" for m db
    using that
  proof (induction m)
    case 0
    then show ?case by simp
  next
    case (Suc m)
    obtain db' raw where f: "fold F [0..<m] (db, 0) = (db', raw)" by fastforce
    with Suc have db': "length db' = 8" and
      at: "j < 8 \<Longrightarrow> (db' ! j, bit raw j) = (if j < m then debounce_step (\<not> bit port j) (db ! j) else (db ! j, False))" for j
      by auto
    from at [of m] Suc.prems have m: "db' ! m = db ! m" "\<not> bit raw m" by auto
    have step: "fold F [0..<Suc m] (db, 0) = (if bit port m then (db'[m := 0], raw)
        else if db' ! m < 5 then (db'[m := db' ! m + 1], raw) else (db', raw OR push_bit m 1))"
      using Suc.prems by (simp add: f) (simp add: F_def pin)
    have "j < 8 \<Longrightarrow> (fst (fold F [0..<Suc m] (db, 0)) ! j, bit (snd (fold F [0..<Suc m] (db, 0))) j)
        = (if j = m then debounce_step (\<not> bit port m) (db ! m) else (db' ! j, bit raw j))" for j
      using Suc.prems db' m
      by (auto simp: step debounce_step_def bit_or_iff bit_u8_pow simp del: upt_Suc)
    then show ?case
      using db' by (auto simp: at less_Suc_eq step simp del: upt_Suc)
  qed
  from this [of 8 "di_debounce b"] assms show ?thesis
    by (simp add: digital_inputs_scan_def F_def split_beta Let_def)
qed

lemma length_scan [simp]: "length (di_debounce (digital_inputs_scan port b)) = length (di_debounce b)"
proof -
  have "length (fst (fold (\<lambda>i (db, raw).
            if port AND ucast (di_pins ! i) = 0 then
              (if db ! i < 5 then (db[i := db ! i + 1], raw) else (db, raw OR push_bit i 1))
            else (db[i := 0], raw)) is (db, r))) = length db" for "is" db and r :: u8
    by (induction "is" arbitrary: db r) auto
  then show ?thesis by (simp add: digital_inputs_scan_def split_beta Let_def)
qed

text \<open>The length of the run of low readings of channel \<open>i\<close> that ends a scan history, newest first.\<close>

primrec low_run :: "nat \<Rightarrow> u32 list \<Rightarrow> nat" where
  "low_run i [] = 0"
| "low_run i (p # ps) = (if bit p i then 0 else Suc (low_run i ps))"

definition scans :: "u32 list \<Rightarrow> board \<Rightarrow> board" where
  "scans ports b = foldr digital_inputs_scan ports b"

lemma scans_debounce:
  assumes "di_debounce b = replicate 8 0" and "i < 8"
  shows "length (di_debounce (scans ports b)) = 8 \<and>
    unat (di_debounce (scans ports b) ! i) = min 5 (low_run i ports) \<and>
    (ports \<noteq> [] \<longrightarrow> (bit (digital_input_states (scans ports b)) i \<longleftrightarrow> 6 \<le> low_run i ports))"
proof (induction ports)
  case Nil
  then show ?case using assms by (simp add: scans_def)
next
  case (Cons p ps)
  define c where "c = di_debounce (scans ps b) ! i"
  have len: "length (di_debounce (scans ps b)) = 8" and c: "unat c = min 5 (low_run i ps)"
    using Cons by (auto simp: c_def)
  have "c < 5 \<longleftrightarrow> low_run i ps < 5" and "c < 5 \<Longrightarrow> unat (c + 1) = unat c + 1"
    using c by (auto simp: word_less_nat_alt unat_word_ariths)
  with scan_channel [OF len assms(2), of p] c show ?case
    by (auto simp: scans_def [symmetric] debounce_step_def c_def [symmetric] len scans_def [of "p # ps"]
        split: if_splits)
qed

lemma scan_frame [simp]:
  "digital_output_states (digital_inputs_scan port b) = digital_output_states b"
  "relay_states (digital_inputs_scan port b) = relay_states b"
  "hw (digital_inputs_scan port b) = hw b"
  "ai_raw_values (digital_inputs_scan port b) = ai_raw_values b"
  by (simp_all add: digital_inputs_scan_def split_beta Let_def)

section \<open>The writes stay with their pins\<close>

lemma confined_bank:
  "confined (BSRR p (ucast (m :: u16))) \<longleftrightarrow> (\<forall>n < 16. bit m n \<longrightarrow> n \<in> set (bank_pin_no p))"
  "confined (BSRR p (push_bit 16 (ucast (m :: u16)))) \<longleftrightarrow> (\<forall>n < 16. bit m n \<longrightarrow> n \<in> set (bank_pin_no p))"
  by (auto simp: bit_simps dest: bit_imp_le_length)

lemma confined_masks:
  assumes "\<And>i n. i < length pins \<Longrightarrow> bit (pins ! i) n \<Longrightarrow> n \<in> set (bank_pin_no p)"
  shows "confined (BSRR p (fst (bsrr_masks pins v)))" "confined (BSRR p (push_bit 16 (snd (bsrr_masks pins v))))"
  using assms masks_small [of pins v] by (auto simp: bsrr_masks_bits bit_simps dest: bit_imp_le_length)

lemma pins_no:
  "i < 8 \<Longrightarrow> do_pins ! i = push_bit (do_pin_no ! i) 1"
  "i < 4 \<Longrightarrow> relay_pins ! i = push_bit (relay_pin_no ! i) 1"
  "i < 4 \<Longrightarrow> relay_led_pins ! i = push_bit (relay_led_pin_no ! i) 1"
  "length do_pin_no = 8" "length relay_pin_no = 4" "length relay_led_pin_no = 4"
  by (auto simp: less_8_cases less_4_cases do_pins_def relay_pins_def relay_led_pins_def do_pin_no_def
      relay_pin_no_def relay_led_pin_no_def)

lemma bank_pins_in:
  "i < 8 \<Longrightarrow> bit (do_pins ! i) n \<Longrightarrow> n \<in> set (bank_pin_no DO_PORT)"
  "i < 4 \<Longrightarrow> bit (relay_pins ! i) n \<Longrightarrow> n \<in> set (bank_pin_no RELAY_PORT)"
  "i < 4 \<Longrightarrow> bit (relay_led_pins ! i) n \<Longrightarrow> n \<in> set (bank_pin_no RELAY_LED_PORT)"
  by (auto simp: bank_pin_no_def pins_no bit_simps)

lemma board_wf_emit [simp]: "board_wf (emit w b) \<longleftrightarrow> confined w \<and> board_wf b"
  by (auto simp: board_wf_def emit_def)

lemma board_wf_states [simp]:
  "board_wf (b\<lparr>digital_output_states := v\<rparr>) = board_wf b" "board_wf (b\<lparr>relay_states := v\<rparr>) = board_wf b"
  by (simp_all add: board_wf_def)

lemma confined_writes [simp]:
  "c < 8 \<Longrightarrow> confined (BSRR DO_PORT (ucast (do_pins ! unat (c :: u8))))"
  "c < 8 \<Longrightarrow> confined (BSRR DO_PORT (push_bit 16 (ucast (do_pins ! unat (c :: u8)))))"
  "c < 4 \<Longrightarrow> confined (BSRR RELAY_PORT (ucast (relay_pins ! unat (c :: u8))))"
  "c < 4 \<Longrightarrow> confined (BSRR RELAY_PORT (push_bit 16 (ucast (relay_pins ! unat (c :: u8)))))"
  "c < 4 \<Longrightarrow> confined (BSRR RELAY_LED_PORT (ucast (relay_led_pins ! unat (c :: u8))))"
  "c < 4 \<Longrightarrow> confined (BSRR RELAY_LED_PORT (push_bit 16 (ucast (relay_led_pins ! unat (c :: u8)))))"
  "confined (BSRR DO_PORT (fst (bsrr_masks do_pins v)))" "confined (BSRR DO_PORT (push_bit 16 (snd (bsrr_masks do_pins v))))"
  "confined (BSRR RELAY_PORT (fst (bsrr_masks relay_pins v)))" "confined (BSRR RELAY_PORT (push_bit 16 (snd (bsrr_masks relay_pins v))))"
  using bank_pins_in
  by (auto simp only: confined_bank u8_less_8 [symmetric] u8_less_4 [symmetric] pin_bits intro!: confined_masks)

lemma board_wf_ops [simp]:
  "board_wf (digital_output_write c v b) = board_wf b"
  "board_wf (digital_outputs_write_all w b) = board_wf b"
  "board_wf (relay_led_update c v b) = board_wf b"
  "board_wf (relay_set c v b) = board_wf b"
  "board_wf (analog_output_write_raw c x b) = board_wf b"
  by (auto simp: digital_output_write_def digital_outputs_write_all_def relay_set_def relay_led_update_def
      analog_output_write_raw_def split_beta Let_def not_le simp del: confined.simps(1))

lemma board_wf_scan [simp]: "board_wf (digital_inputs_scan port b) = board_wf b"
  by (simp add: board_wf_def)

lemma board_wf_relays [simp]: "board_wf (relays_set_all m b) = board_wf b" "board_wf (relay_toggle c b) = board_wf b"
proof -
  have "board_wf (fold (\<lambda>i. relay_led_update (of_nat i) (v i)) is b) = board_wf b" for v "is" b
    by (induction "is" arbitrary: b) simp_all
  then show "board_wf (relays_set_all m b) = board_wf b"
    by (simp add: relays_set_all_def split_beta Let_def del: confined.simps(1))
  show "board_wf (relay_toggle c b) = board_wf b" by (simp add: relay_toggle_def)
qed

text \<open>The trace keeps the writes of the initialisation.\<close>

lemma hw_grows: "set (hw b) \<subseteq> set (hw (relays_set_all m b))" "set (hw b) \<subseteq> set (hw (analog_output_write_raw c x b))"
proof -
  have led: "set (hw b) \<subseteq> set (hw (relay_led_update c v b))" for c v b by (auto simp: relay_led_update_def emit_def)
  have "set (hw b) \<subseteq> set (hw (fold (\<lambda>i. relay_led_update (of_nat i) (v i)) is b))" for v "is" b
  proof (induction "is" arbitrary: b)
    case (Cons i "is")
    then show ?case using led [of b "of_nat i" "v i"] by fastforce
  qed simp
  then show "set (hw b) \<subseteq> set (hw (relays_set_all m b))"
    by (force simp: relays_set_all_def split_beta Let_def emit_def)
qed (auto simp: analog_output_write_raw_def emit_def)

lemma hw_init:
  "w \<in> set (hw b) \<Longrightarrow> w \<in> set (hw (analog_output_write_raw c x (analog_output_write_raw c' x' (analog_outputs_init (relays_init b)))))"
  unfolding analog_outputs_init_def relays_init_def by (intro subsetD [OF hw_grows(1)] subsetD [OF hw_grows(2)])

lemma board_wf_init [simp]:
  "board_wf (digital_outputs_init b) = board_wf b" "board_wf (relays_init b) = board_wf b"
  "board_wf (analog_outputs_init b) = board_wf b"
proof -
  have "confined (BSRR DO_PORT (push_bit 16 0x07E3))"
    by code_simp
  then show "board_wf (digital_outputs_init b) = board_wf b"
    by (simp add: digital_outputs_init_def del: confined.simps(1))
qed (simp_all add: relays_init_def analog_outputs_init_def)

text \<open>
  C14: A digital input is reported active exactly when its pin has read low in at least the last six
  scans: five scans fill the debounce counter, the sixth reports, one high reading clears it.
\<close>

theorem debounce_six_scans:
  assumes "di_debounce b = replicate 8 0" and "i < 8" and "ports \<noteq> []"
  shows "digital_input_read (scans ports b) (of_nat i) = 1 \<longleftrightarrow> 6 \<le> low_run i ports"
proof -
  have "\<not> of_nat i \<ge> (8 :: u8)" using assms(2) by (simp add: word_le_nat_alt)
  with scans_debounce [OF assms(1,2), of ports] assms(2,3) show ?thesis
    by (simp add: digital_input_read_def bit_value)
qed

lemma debounce_six_scans_witness:
  "digital_input_read (scans (replicate 6 0xFE) \<lparr>digital_input_states = 0, digital_output_states = 0,
     di_debounce = replicate 8 0, relay_states = 0, ai_raw_values = [], hw = []\<rparr>) 0 = 1"
  using debounce_six_scans [of "\<lparr>digital_input_states = 0, digital_output_states = 0,
     di_debounce = replicate 8 0, relay_states = 0, ai_raw_values = [], hw = []\<rparr>" 0 "replicate 6 0xFE"]
  by (simp add: numeral_eq_Suc)

text \<open>
  C16: The pins follow the stored states: if every output, relay and relay-LED pin shows the bit of
  its state variable, then it still does after any output, relay, scan or analog operation.
\<close>

theorem pins_follow_states:
  assumes "pins_ok b"
  shows "pins_ok (digital_output_write c v b) \<and> pins_ok (digital_outputs_write_all v b) \<and>
    pins_ok (relay_set c v b) \<and> pins_ok (relays_set_all v b) \<and> pins_ok (relay_toggle c b) \<and>
    pins_ok (analog_output_write_raw c x b) \<and> pins_ok (digital_inputs_scan port b)"
  using assms by simp

lemma pins_follow_states_witness:
  "pins_ok (relay_set 2 1 \<lparr>digital_input_states = 0, digital_output_states = 0,
     di_debounce = replicate 8 0, relay_states = 0, ai_raw_values = [], hw = []\<rparr>)"
  using pins_follow_states [of "\<lparr>digital_input_states = 0, digital_output_states = 0,
     di_debounce = replicate 8 0, relay_states = 0, ai_raw_values = [], hw = []\<rparr>" 2 1]
  by (simp add: pins_ok_def)

end
