(* ===== verification/Slave_Tables.thy ===== *)
theory Slave_Tables
  imports Crc Diag Board_IO
begin

text \<open>
  The data model of the Modbus slave, the first third of \<open>src/modbus.c\<close>: the register, coil,
  file and FIFO tables as the record \<open>slave\<close> (together with the states of the diagnostics, event
  and board components it drives), their access functions, the address checks, the
  application sync hooks and their built-in default, and the register access API at the end of the file.
  All table offsets of \<open>board_config.h\<close> are 0. The bit and register tables interpret
  \<open>cell_bank\<close>; the locale \<open>sync_hooks\<close> states what the handlers rely on when a user replaces the
  sync functions.
\<close>

section \<open>State\<close>

record slave =
  modbus_slave_id :: u8
  holding_regs :: "u16 list"
  input_regs :: "u16 list"
  coil_bits :: "u8 list"
  discrete_bits :: "u8 list"
  file_store :: "u16 list list"
  fifo_store :: "u16 list list"
  fifo_len :: "u8 list"
  s_diag :: diag
  s_events :: event
  s_board :: board

section \<open>Table access\<close>

definition modbus_bit_read :: "u8 list \<Rightarrow> u16 \<Rightarrow> u8" where
  "modbus_bit_read table addr =
     (if addr \<ge> MODBUS_MAX_COILS then 0
      else drop_bit (unat addr mod 8) (table ! (unat addr div 8)) AND 0x01)"

definition modbus_bit_write :: "u16 \<Rightarrow> u8 \<Rightarrow> u8 list \<Rightarrow> u8 list" where
  "modbus_bit_write addr val table =
     (if addr \<ge> MODBUS_MAX_COILS then table
      else if val \<noteq> 0 then
        table[unat addr div 8 := table ! (unat addr div 8) OR push_bit (unat addr mod 8) 1]
      else
        table[unat addr div 8 := table ! (unat addr div 8) AND NOT (push_bit (unat addr mod 8) 1)])"

definition modbus_regs_write :: "u16 \<Rightarrow> u16 \<Rightarrow> u16 list \<Rightarrow> u16 list" where
  "modbus_regs_write addr val regs = (if addr \<ge> MODBUS_MAX_REGISTERS then regs else regs[unat addr := val])"

definition modbus_address_range_valid :: "u16 \<Rightarrow> u16 \<Rightarrow> u16 \<Rightarrow> bool" where
  "modbus_address_range_valid start_addr quantity table_size \<longleftrightarrow>
     start_addr < table_size \<and> quantity \<le> table_size - start_addr"

definition modbus_exception_response :: "u8 \<Rightarrow> u8 \<Rightarrow> u8 list" where
  "modbus_exception_response function_code exception_code = [function_code OR 0x80, exception_code]"

definition modbus_broadcast_function_supported :: "u8 \<Rightarrow> bool" where
  "modbus_broadcast_function_supported fc \<longleftrightarrow>
     fc = MODBUS_FC_WRITE_SINGLE_COIL \<or> fc = MODBUS_FC_WRITE_SINGLE_REGISTER \<or>
     fc = MODBUS_FC_WRITE_MULTIPLE_COILS \<or> fc = MODBUS_FC_WRITE_MULTIPLE_REGISTERS \<or>
     fc = MODBUS_FC_WRITE_FILE_RECORD \<or> fc = MODBUS_FC_MASK_WRITE_REGISTER \<or> fc = MODBUS_FC_READ_WRITE_MULTIPLE_REGS"

definition modbus_fifo_push :: "u16 \<Rightarrow> u16 \<Rightarrow> slave \<Rightarrow> bool \<times> slave" where
  "modbus_fifo_push fifo_addr val s =
     (if fifo_addr \<ge> MODBUS_FIFO_COUNT then (False, s)
      else
        let f = unat fifo_addr; n = fifo_len s ! f in
        if n \<ge> MODBUS_FIFO_DEPTH then (False, s)
        else (True, s\<lparr>fifo_store := (fifo_store s)[f := (fifo_store s ! f)[unat n := val]],
                      fifo_len := (fifo_len s)[f := n + 1]\<rparr>))"

section \<open>Identification strings, file ranges\<close>

definition modbus_server_id :: "u8 list" where
  "modbus_server_id = str_bytes ''STM32-Automation-Board''"

definition modbus_report_server_id_process :: "nat \<Rightarrow> u8 list" where
  "modbus_report_server_id_process rx_pdu_len =
     (if rx_pdu_len \<noteq> 1 then modbus_exception_response MODBUS_FC_REPORT_SERVER_ID MODBUS_EXC_ILLEGAL_DATA_VALUE
      else
        let id_len = of_nat (length modbus_server_id) :: u8
        in [MODBUS_FC_REPORT_SERVER_ID, id_len + 1] @ map (\<lambda>i. modbus_server_id ! i) [0..<unat id_len] @ [0xFF])"

definition modbus_file_index_valid :: "u16 \<Rightarrow> bool" where
  "modbus_file_index_valid file_number \<longleftrightarrow> file_number \<ge> 1 \<and> file_number \<le> MODBUS_FILE_COUNT"

definition modbus_file_range_valid :: "u16 \<Rightarrow> u16 \<Rightarrow> bool" where
  "modbus_file_range_valid record_number record_length \<longleftrightarrow>
     \<not> record_length < 1 \<and> \<not> record_number \<ge> MODBUS_FILE_SIZE_REGS \<and> record_length \<le> MODBUS_FILE_SIZE_REGS - record_number"

text \<open>The string without its terminator, cut at 64 characters; \<open>None\<close> is the null pointer.\<close>

definition modbus_devid_object_str :: "u8 \<Rightarrow> u8 list option" where
  "modbus_devid_object_str object_id =
     (let cut = (\<lambda>s. takeWhile (\<lambda>c. c \<noteq> 0) (take 64 (s @ [0]))) in
      if object_id = MODBUS_DEVID_OBJ_VENDOR_NAME then Some (cut (str_bytes ''xAI''))
      else if object_id = MODBUS_DEVID_OBJ_PRODUCT_CODE then Some (cut (str_bytes ''STM32 Automation Board''))
      else if object_id = MODBUS_DEVID_OBJ_MAJOR_MINOR_REV then Some (cut (str_bytes ''1.0.0''))
      else None)"

section \<open>Initialisation\<close>

definition modbus_rtu_init :: "u8 \<Rightarrow> slave \<Rightarrow> slave" where
  "modbus_rtu_init slave_id s =
     s\<lparr>modbus_slave_id := slave_id,
       s_diag := modbus_diag_reset (s_diag s),
       s_events := modbus_event_reset (s_events s),
       holding_regs := fold (\<lambda>i r. r[i := 0]) [0..<MODBUS_MAX_REGISTERS] (holding_regs s),
       input_regs := fold (\<lambda>i r. r[i := 0]) [0..<MODBUS_MAX_REGISTERS] (input_regs s),
       coil_bits := fold (\<lambda>i r. r[i := 0]) [0..<16] (coil_bits s),
       discrete_bits := fold (\<lambda>i r. r[i := 0]) [0..<16] (discrete_bits s),
       file_store := fold (\<lambda>f fs. fold (\<lambda>r fs. fs[f := (fs ! f)[r := 0]]) [0..<MODBUS_FILE_SIZE_REGS] fs)
                       [0..<MODBUS_FILE_COUNT] (file_store s),
       fifo_len := fold (\<lambda>f l. l[f := 0]) [0..<MODBUS_FIFO_COUNT] (fifo_len s)\<rparr>"

section \<open>Application sync\<close>

record modbus_sync_hooks =
  on_registers_written :: "(slave \<Rightarrow> slave) option"
  on_inputs_refresh :: "(slave \<Rightarrow> slave) option"

definition modbus_register_sync_hooks :: "modbus_sync_hooks option \<Rightarrow> modbus_sync_hooks" where
  "modbus_register_sync_hooks hooks =
     (case hooks of Some h \<Rightarrow> h | None \<Rightarrow> \<lparr>on_registers_written = None, on_inputs_refresh = None\<rparr>)"

text \<open>The refresh loop shared by the sync functions and several read handlers.\<close>

definition refresh_discrete :: "slave \<Rightarrow> slave" where
  "refresh_discrete s =
     (let di = digital_inputs_read_all (s_board s)
      in s\<lparr>discrete_bits :=
           fold (\<lambda>i. modbus_bit_write (of_nat i) (drop_bit i di AND 0x01)) [0..<8] (discrete_bits s)\<rparr>)"

definition mirror_analog :: "slave \<Rightarrow> slave" where
  "mirror_analog s =
     s\<lparr>input_regs := fold (\<lambda>i r. r[i := holding_regs s ! (100 + i)]) [0..<4] (input_regs s)\<rparr>"

definition modbus_app_sync_registers :: "slave \<Rightarrow> slave" where
  "modbus_app_sync_registers s =
     (let s = s\<lparr>s_board := fold (\<lambda>i. digital_output_write (of_nat i) (modbus_bit_read (coil_bits s) (of_nat i)))
                [0..<8] (s_board s)\<rparr>;
          s = s\<lparr>s_board := fold (\<lambda>i. relay_set (of_nat i) (modbus_bit_read (coil_bits s) (8 + of_nat i)))
                [0..<4] (s_board s)\<rparr>;
          s = refresh_discrete s;
          s = mirror_analog s
      in s\<lparr>s_board := fold (\<lambda>i. analog_output_write_raw (of_nat i) (holding_regs s ! i)) [0..<2] (s_board s)\<rparr>)"

definition modbus_app_sync_inputs :: "slave \<Rightarrow> slave" where
  "modbus_app_sync_inputs s = mirror_analog (refresh_discrete s)"

definition modbus_sync_registers :: "modbus_sync_hooks \<Rightarrow> slave \<Rightarrow> slave" where
  "modbus_sync_registers hk s =
     (case on_registers_written hk of Some f \<Rightarrow> f s | None \<Rightarrow> modbus_app_sync_registers s)"

definition modbus_sync_inputs :: "modbus_sync_hooks \<Rightarrow> slave \<Rightarrow> slave" where
  "modbus_sync_inputs hk s =
     (case on_inputs_refresh hk of Some f \<Rightarrow> f s | None \<Rightarrow> modbus_app_sync_inputs s)"

section \<open>Register access API\<close>

definition modbus_read_coil :: "slave \<Rightarrow> u16 \<Rightarrow> u16" where
  "modbus_read_coil s addr = ucast (modbus_bit_read (coil_bits s) addr)"

definition modbus_write_coil :: "u16 \<Rightarrow> u16 \<Rightarrow> slave \<Rightarrow> slave" where
  "modbus_write_coil addr val s =
     s\<lparr>coil_bits := modbus_bit_write addr (if val \<noteq> 0 then 1 else 0) (coil_bits s)\<rparr>"

definition modbus_read_discrete_input :: "slave \<Rightarrow> u16 \<Rightarrow> u16" where
  "modbus_read_discrete_input s addr = ucast (modbus_bit_read (discrete_bits s) addr)"

definition modbus_read_holding_register :: "slave \<Rightarrow> u16 \<Rightarrow> u16" where
  "modbus_read_holding_register s addr = (if addr \<ge> MODBUS_MAX_REGISTERS then 0 else holding_regs s ! unat addr)"

definition modbus_write_holding_register :: "u16 \<Rightarrow> u16 \<Rightarrow> slave \<Rightarrow> slave" where
  "modbus_write_holding_register addr val s =
     s\<lparr>holding_regs := modbus_regs_write addr val (holding_regs s)\<rparr>"

definition modbus_read_input_register :: "slave \<Rightarrow> u16 \<Rightarrow> u16" where
  "modbus_read_input_register s addr = (if addr \<ge> MODBUS_MAX_REGISTERS then 0 else input_regs s ! unat addr)"

section \<open>The tables as cell banks\<close>

lemma u16_less_128: "unat (a :: u16) < 128 \<longleftrightarrow> a < 128" and u16_less_256: "unat a < 256 \<longleftrightarrow> a < 256"
  by (simp_all add: word_less_nat_alt)

lemma bit_read_bit:
  "a < 128 \<Longrightarrow> modbus_bit_read t a = of_bool (bit (t ! (unat a div 8)) (unat a mod 8))"
  by (simp add: modbus_bit_read_def bit_value not_le [symmetric])

lemma bit_read_out: "128 \<le> a \<Longrightarrow> modbus_bit_read t a = 0"
  by (simp add: modbus_bit_read_def)

lemma bit_read_01 [simp]: "of_bool (modbus_bit_read t a \<noteq> 0) = modbus_bit_read t a"
  by (simp add: modbus_bit_read_def bit_value)

lemma length_bit_write [simp]: "length (modbus_bit_write a v t) = length t"
  by (simp add: modbus_bit_write_def)

lemma length_regs_write [simp]: "length (modbus_regs_write a v r) = length r"
  by (simp add: modbus_regs_write_def)

lemma bit_index: "a \<noteq> b \<Longrightarrow> unat (a :: u16) div 8 = unat b div 8 \<Longrightarrow> unat a mod 8 \<noteq> unat b mod 8"
  by (metis div_mult_mod_eq unat_inject)

lemma bit_write_read:
  assumes "length t = 16" and "a < 128" and "b < 128"
  shows "modbus_bit_read (modbus_bit_write a v t) b = (if b = a then of_bool (v \<noteq> 0) else modbus_bit_read t b)"
proof -
  have a: "unat a div 8 < 16" using assms(2) by (simp add: word_less_nat_alt)
  show ?thesis
    using a assms(1,2) bit_index [of a b]
    by (auto simp: bit_read_bit [OF assms(3)] modbus_bit_write_def not_le nth_list_update
        bit_or_iff bit_and_iff bit_not_iff bit_u8_pow simp del: of_bool_eq_iff)
qed

interpretation bit_bank: cell_bank modbus_bit_read modbus_bit_write
  "\<lambda>v. of_bool (v \<noteq> 0)" "\<lambda>t. length t = 16" "\<lambda>a. a < 128"
  by unfold_locales (simp_all add: bit_write_read, simp_all add: modbus_bit_write_def not_less)

interpretation reg_bank: cell_bank "\<lambda>r a. r ! unat (a :: u16)" modbus_regs_write
  "\<lambda>v. v" "\<lambda>r. length r = 256" "\<lambda>a. a < 256"
  by unfold_locales (auto simp: modbus_regs_write_def not_less nth_list_update u16_less_256 not_le)

text \<open>The contents of a table after a block write, as used by the write handlers.\<close>

lemma range_valid_iff:
  "modbus_address_range_valid a q sz \<longleftrightarrow> a < sz \<and> unat a + unat q \<le> unat sz"
proof -
  have "a < sz \<Longrightarrow> unat (sz - a) = unat sz - unat a"
    by (simp add: unat_sub_if' word_less_nat_alt)
  then show ?thesis
    by (auto simp: modbus_address_range_valid_def word_le_nat_alt word_less_nat_alt)
qed

lemma block_in_range:
  assumes "unat (a :: u16) + n \<le> m" and "m \<le> 256" and "i < n"
  shows "unat (a + of_nat i) = unat a + i" and "unat (a + of_nat i) < m"
proof -
  show "unat (a + of_nat i) = unat a + i"
    by (rule addr_plus) (use assms in simp)
  then show "unat (a + of_nat i) < m" using assms by simp
qed

lemma regs_block_write:
  assumes "length r = 256" and "unat (a :: u16) + n \<le> 256" and "j < 256"
  shows "fold (\<lambda>i. modbus_regs_write (a + of_nat i) (f i)) [0..<n] r ! j =
    (if unat a \<le> j \<and> j < unat a + n then f (j - unat a) else r ! j)"
proof (cases "unat a \<le> j \<and> j < unat a + n")
  case True
  define k where "k = j - unat a"
  with True have k: "k < n" "unat (a + of_nat k) = j"
    using block_in_range [OF assms(2), of k] by auto
  have "reg_bank.put_all (\<lambda>i. a + of_nat i) f n r ! unat (a + of_nat k) = f k"
    using assms block_in_range(2) [OF assms(2)]
    by (intro reg_bank.put_all_at k(1) addr_inj) (auto simp: u16_less_256)
  with True k show ?thesis by (simp add: reg_bank.put_all_def k_def)
next
  case False
  have "unat (of_nat j :: u16) = j" using assms(3) by simp
  moreover have "a + of_nat i \<noteq> of_nat j" if "i < n" for i
    using block_in_range(1) [OF assms(2) _ that] that False \<open>unat (of_nat j :: u16) = j\<close> by auto
  ultimately have "reg_bank.put_all (\<lambda>i. a + of_nat i) f n r ! unat (of_nat j :: u16) = r ! unat (of_nat j :: u16)"
    using assms by (intro reg_bank.put_all_other) (auto simp: word_less_nat_alt)
  with False \<open>unat (of_nat j :: u16) = j\<close> show ?thesis by (auto simp: reg_bank.put_all_def)
qed

lemma bits_block_write:
  assumes "length t = 16" and "unat (a :: u16) + n \<le> 128" and "b < 128"
  shows "modbus_bit_read (fold (\<lambda>i. modbus_bit_write (a + of_nat i) (f i)) [0..<n] t) b =
    (if unat a \<le> unat b \<and> unat b < unat a + n then of_bool (f (unat b - unat a) \<noteq> 0) else modbus_bit_read t b)"
proof (cases "unat a \<le> unat b \<and> unat b < unat a + n")
  case True
  define k where "k = unat b - unat a"
  with True have k: "k < n" "unat (a + of_nat k) = unat b"
    using block_in_range [OF assms(2), of k] by auto
  have "modbus_bit_read (bit_bank.put_all (\<lambda>i. a + of_nat i) f n t) (a + of_nat k) = of_bool (f k \<noteq> 0)"
    using assms block_in_range(2) [OF assms(2)]
    by (intro bit_bank.put_all_at k(1) addr_inj) (auto simp: u16_less_128)
  with True k show ?thesis by (simp add: bit_bank.put_all_def k_def)
next
  case False
  have "a + of_nat i \<noteq> b" if "i < n" for i
    using block_in_range(1) [OF assms(2) _ that] that False by auto
  then have "modbus_bit_read (bit_bank.put_all (\<lambda>i. a + of_nat i) f n t) b = modbus_bit_read t b"
    using assms by (intro bit_bank.put_all_other) auto
  with False show ?thesis by (auto simp: bit_bank.put_all_def simp del: of_bool_eq_iff)
qed

lemma length_fold_writes [simp]:
  "length (fold (\<lambda>i. modbus_regs_write (at i) (f i)) is r) = length r"
  "length (fold (\<lambda>i. modbus_bit_write (at i) (g i)) is t) = length t"
  "length (fold (\<lambda>i xs. xs[ix i := h i]) is xs) = length xs"
proof -
  show "length (fold (\<lambda>i. modbus_regs_write (at i) (f i)) is r) = length r"
    by (induction "is" arbitrary: r) auto
  show "length (fold (\<lambda>i. modbus_bit_write (at i) (g i)) is t) = length t"
    by (induction "is" arbitrary: t) auto
  show "length (fold (\<lambda>i xs. xs[ix i := h i]) is xs) = length xs"
    by (induction "is" arbitrary: xs) auto
qed

section \<open>Well-formed states\<close>

definition slave_wf :: "slave \<Rightarrow> bool" where
  "slave_wf s \<longleftrightarrow>
     length (holding_regs s) = 256 \<and> length (input_regs s) = 256 \<and>
     length (coil_bits s) = 16 \<and> length (discrete_bits s) = 16 \<and>
     length (file_store s) = 4 \<and> (\<forall>f < 4. length (file_store s ! f) = 128) \<and>
     length (fifo_store s) = 2 \<and> (\<forall>f < 2. length (fifo_store s ! f) = 31) \<and>
     length (fifo_len s) = 2 \<and> (\<forall>f < 2. unat (fifo_len s ! f) \<le> 31) \<and>
     event_wf (s_events s) \<and> board_wf (s_board s)"

lemma slave_wfD:
  assumes "slave_wf s"
  shows "length (holding_regs s) = 256" "length (input_regs s) = 256"
    "length (coil_bits s) = 16" "length (discrete_bits s) = 16"
    "length (file_store s) = 4" "f < 4 \<Longrightarrow> length (file_store s ! f) = 128"
    "length (fifo_store s) = 2" "f < 2 \<Longrightarrow> length (fifo_store s ! f) = 31"
    "length (fifo_len s) = 2" "f < 2 \<Longrightarrow> unat (fifo_len s ! f) \<le> 31"
    "event_wf (s_events s)" "board_wf (s_board s)"
  using assms by (simp_all add: slave_wf_def)

lemma fold_keeps: "P b \<Longrightarrow> (\<And>i b. P b \<Longrightarrow> P (f i b)) \<Longrightarrow> P (fold f is b)"
  by (induction "is" arbitrary: b) auto

text \<open>The default sync changes only the board, the discrete inputs and the input registers.\<close>

lemma app_sync_frame [simp]:
  "coil_bits (modbus_app_sync_registers s) = coil_bits s"
  "holding_regs (modbus_app_sync_registers s) = holding_regs s"
  "file_store (modbus_app_sync_registers s) = file_store s"
  "fifo_store (modbus_app_sync_registers s) = fifo_store s"
  "fifo_len (modbus_app_sync_registers s) = fifo_len s"
  "s_diag (modbus_app_sync_registers s) = s_diag s"
  "s_events (modbus_app_sync_registers s) = s_events s"
  "modbus_slave_id (modbus_app_sync_registers s) = modbus_slave_id s"
  by (simp_all add: modbus_app_sync_registers_def refresh_discrete_def mirror_analog_def Let_def)

lemma refresh_frame [simp]:
  "coil_bits (refresh_discrete s) = coil_bits s"
  "holding_regs (refresh_discrete s) = holding_regs s"
  "input_regs (refresh_discrete s) = input_regs s"
  "file_store (refresh_discrete s) = file_store s"
  "fifo_store (refresh_discrete s) = fifo_store s"
  "fifo_len (refresh_discrete s) = fifo_len s"
  "s_diag (refresh_discrete s) = s_diag s"
  "s_events (refresh_discrete s) = s_events s"
  "s_board (refresh_discrete s) = s_board s"
  "modbus_slave_id (refresh_discrete s) = modbus_slave_id s"
  "length (discrete_bits (refresh_discrete s)) = length (discrete_bits s)"
  by (simp_all add: refresh_discrete_def Let_def)

lemma mirror_frame [simp]:
  "coil_bits (mirror_analog s) = coil_bits s"
  "holding_regs (mirror_analog s) = holding_regs s"
  "discrete_bits (mirror_analog s) = discrete_bits s"
  "file_store (mirror_analog s) = file_store s"
  "fifo_store (mirror_analog s) = fifo_store s"
  "fifo_len (mirror_analog s) = fifo_len s"
  "s_diag (mirror_analog s) = s_diag s"
  "s_events (mirror_analog s) = s_events s"
  "s_board (mirror_analog s) = s_board s"
  "modbus_slave_id (mirror_analog s) = modbus_slave_id s"
  "length (input_regs (mirror_analog s)) = length (input_regs s)"
  by (simp_all add: mirror_analog_def)

lemma slave_wf_refresh [simp]: "slave_wf s \<Longrightarrow> slave_wf (refresh_discrete s)"
  by (simp add: slave_wf_def)

lemma slave_wf_mirror [simp]: "slave_wf s \<Longrightarrow> slave_wf (mirror_analog s)"
  by (simp add: slave_wf_def)

lemma slave_wf_board [simp]: "slave_wf s \<Longrightarrow> board_wf b \<Longrightarrow> slave_wf (s\<lparr>s_board := b\<rparr>)"
  by (simp add: slave_wf_def)

lemma slave_wf_app_sync [simp]:
  assumes "slave_wf s"
  shows "slave_wf (modbus_app_sync_registers s)"
proof -
  have wf: "slave_wf (s\<lparr>s_board := fold f is (s_board s)\<rparr>)"
    if "slave_wf s" "\<And>i b. board_wf b \<Longrightarrow> board_wf (f i b)" for s :: slave and f and "is" :: "nat list"
    using that fold_keeps [of board_wf "s_board s" f "is"]
    by (intro slave_wf_board) (auto dest: slave_wfD(12))
  show ?thesis
    unfolding modbus_app_sync_registers_def Let_def
    by (intro wf slave_wf_mirror slave_wf_refresh assms) simp_all
qed

text \<open>What the synchronised outputs show.\<close>

lemma of_nat_u8_inj: "n \<le> 256 \<Longrightarrow> inj_on (of_nat :: nat \<Rightarrow> u8) {..<n}"
  by (rule inj_onI) (metis lessThan_iff order_less_le_trans unat_u8_of_nat)

lemma do_loop:
  assumes "i < 8"
  shows "digital_output_read (fold (\<lambda>i. digital_output_write (of_nat i) (f i)) [0..<8] b) (of_nat i) =
    of_bool (f i \<noteq> 0)"
  using do_bank.put_all_at [where s = b and k = i and n = 8 and at = of_nat and f = f] assms of_nat_u8_inj [of 8]
  by (simp add: do_bank.put_all_def word_less_nat_alt)

lemma relay_loop:
  assumes "i < 4"
  shows "relay_get (fold (\<lambda>i. relay_set (of_nat i) (f i)) [0..<4] b) (of_nat i) = of_bool (f i \<noteq> 0)"
  using relay_bank.put_all_at [where s = b and k = i and n = 4 and at = of_nat and f = f] assms of_nat_u8_inj [of 4]
  by (simp add: relay_bank.put_all_def word_less_nat_alt)

lemma fold_frame: "(\<And>i b. g (f i b) = g b) \<Longrightarrow> g (fold f is b) = g b"
  by (induction "is" arbitrary: b) auto

lemma relay_set_frame [simp]:
  "digital_output_states (relay_set c v b) = digital_output_states b"
  "digital_input_states (relay_set c v b) = digital_input_states b"
  by (simp_all add: relay_set_def emit_def)

lemma output_write_frame [simp]:
  "relay_states (digital_output_write c v b) = relay_states b"
  "digital_input_states (digital_output_write c v b) = digital_input_states b"
  by (simp_all add: digital_output_write_def emit_def)

lemma analog_write_frame [simp]:
  "digital_output_states (analog_output_write_raw c x b) = digital_output_states b"
  "relay_states (analog_output_write_raw c x b) = relay_states b"
  "digital_input_states (analog_output_write_raw c x b) = digital_input_states b"
  by (simp_all add: analog_output_write_raw_def emit_def)

text \<open>The board after the three output loops of the default sync.\<close>

definition sync_board :: "slave \<Rightarrow> board" where
  "sync_board s =
     fold (\<lambda>i. analog_output_write_raw (of_nat i) (holding_regs s ! i)) [0..<2]
       (fold (\<lambda>i. relay_set (of_nat i) (modbus_bit_read (coil_bits s) (8 + of_nat i))) [0..<4]
         (fold (\<lambda>i. digital_output_write (of_nat i) (modbus_bit_read (coil_bits s) (of_nat i))) [0..<8]
           (s_board s)))"

lemma sync_board_inputs [simp]: "digital_input_states (sync_board s) = digital_input_states (s_board s)"
  by (simp add: sync_board_def fold_frame [where g = digital_input_states])

lemma s_board_app_sync: "s_board (modbus_app_sync_registers s) = sync_board s"
  by (simp add: modbus_app_sync_registers_def sync_board_def mirror_analog_def Let_def)

lemma discrete_app_sync:
  "discrete_bits (modbus_app_sync_registers s) = discrete_bits (refresh_discrete s)"
  by (simp add: modbus_app_sync_registers_def refresh_discrete_def digital_inputs_read_all_def
      fold_frame [where g = digital_input_states] Let_def)

lemma input_app_sync:
  "input_regs (modbus_app_sync_registers s) = input_regs (mirror_analog s)"
  by (simp add: modbus_app_sync_registers_def refresh_discrete_def mirror_analog_def Let_def)

lemma refresh_discrete_bits:
  assumes "slave_wf s" and "a < 128"
  shows "modbus_bit_read (discrete_bits (refresh_discrete s)) a =
    (if unat a < 8 then of_bool (bit (digital_input_states (s_board s)) (unat a))
     else modbus_bit_read (discrete_bits s) a)"
  using bits_block_write [of "discrete_bits s" 0 8 a "\<lambda>i. drop_bit i (digital_input_states (s_board s)) AND 1"] assms
  by (simp add: refresh_discrete_def digital_inputs_read_all_def Let_def slave_wfD bit_value)

lemma mirror_analog_regs:
  assumes "slave_wf s" and "j < 256"
  shows "input_regs (mirror_analog s) ! j = (if j < 4 then holding_regs s ! (100 + j) else input_regs s ! j)"
proof -
  have "m \<le> 4 \<Longrightarrow> fold (\<lambda>i r. r[i := holding_regs s ! (100 + i)]) [0..<m] (input_regs s) ! j =
      (if j < m then holding_regs s ! (100 + j) else input_regs s ! j)" for m
    using assms by (induction m) (auto simp: nth_list_update slave_wfD less_Suc_eq)
  from this [of 4] show ?thesis by (simp add: mirror_analog_def)
qed

lemma sync_outputs:
  shows "i < 8 \<Longrightarrow> digital_output_read (sync_board s) (of_nat i) = modbus_bit_read (coil_bits s) (of_nat i)"
    and "i < 4 \<Longrightarrow> relay_get (sync_board s) (of_nat i) = modbus_bit_read (coil_bits s) (8 + of_nat i)"
    and "i < 2 \<Longrightarrow> dac_out (of_nat i) (hw (sync_board s)) = Some (holding_regs s ! i)"
    and "pins_ok (s_board s) \<Longrightarrow> pins_ok (sync_board s)"
proof -
  have do: "digital_output_states (fold (\<lambda>i. relay_set (at i) (f i)) is b) = digital_output_states b"
    for at f and "is" :: "nat list" and b :: board
    by (rule fold_frame) simp
  have an: "digital_output_states (fold (\<lambda>i. analog_output_write_raw (at i) (f i)) is b) = digital_output_states b"
    "relay_states (fold (\<lambda>i. analog_output_write_raw (at i) (f i)) is b) = relay_states b"
    for at f and "is" :: "nat list" and b :: board
    by (rule fold_frame, simp)+
  show "i < 8 \<Longrightarrow> digital_output_read (sync_board s) (of_nat i) = modbus_bit_read (coil_bits s) (of_nat i)"
    using do_loop [of i "\<lambda>i. modbus_bit_read (coil_bits s) (of_nat i)" "s_board s"]
    by (simp add: sync_board_def digital_output_read_def an do word_le_nat_alt)
  show "i < 4 \<Longrightarrow> relay_get (sync_board s) (of_nat i) = modbus_bit_read (coil_bits s) (8 + of_nat i)"
    using relay_loop [of i "\<lambda>i. modbus_bit_read (coil_bits s) (8 + of_nat i)"]
    by (simp add: sync_board_def relay_get_def an word_le_nat_alt)
  have two: "[0..<2] = [0, 1 :: nat]" "\<not> (2 :: u8) \<le> 1"
    by (simp_all add: upt_rec word_le_nat_alt)
  show "i < 2 \<Longrightarrow> dac_out (of_nat i) (hw (sync_board s)) = Some (holding_regs s ! i)"
    by (auto simp: sync_board_def analog_output_write_raw_def emit_def less_2_cases_iff two)
  show "pins_ok (s_board s) \<Longrightarrow> pins_ok (sync_board s)"
    unfolding sync_board_def by (intro fold_keeps [where P = pins_ok] pins_ok_analog pins_ok_relay_set pins_ok_output_write)
qed

section \<open>The sync hook interface\<close>

text \<open>
  The handlers call \<open>modbus_sync_registers\<close> after every register or coil write. An application
  may replace it by a callback; what the slave needs of a callback is that it leaves the tables
  well formed (\<open>sync_hooks\<close>) and, for the stronger results on the contents of the tables, that
  it does not itself rewrite the writable tables or the bookkeeping (\<open>sync_frame\<close>).
\<close>

locale sync_hooks =
  fixes hk :: modbus_sync_hooks
  assumes written_wf: "slave_wf s \<Longrightarrow> slave_wf (modbus_sync_registers hk s)"
    and refresh_wf: "slave_wf s \<Longrightarrow> slave_wf (modbus_sync_inputs hk s)"

definition same_tables :: "slave \<Rightarrow> slave \<Rightarrow> bool" where
  "same_tables s t \<longleftrightarrow>
     coil_bits s = coil_bits t \<and> holding_regs s = holding_regs t \<and> file_store s = file_store t \<and>
     fifo_store s = fifo_store t \<and> fifo_len s = fifo_len t \<and> modbus_slave_id s = modbus_slave_id t \<and>
     s_diag s = s_diag t \<and> s_events s = s_events t"

locale sync_frame = sync_hooks +
  assumes written_frame: "same_tables (modbus_sync_registers hk s) s"
begin

lemma written_simps:
  "coil_bits (modbus_sync_registers hk s) = coil_bits s"
  "holding_regs (modbus_sync_registers hk s) = holding_regs s"
  "file_store (modbus_sync_registers hk s) = file_store s"
  "fifo_store (modbus_sync_registers hk s) = fifo_store s"
  "fifo_len (modbus_sync_registers hk s) = fifo_len s"
  "s_diag (modbus_sync_registers hk s) = s_diag s"
  "s_events (modbus_sync_registers hk s) = s_events s"
  "modbus_slave_id (modbus_sync_registers hk s) = modbus_slave_id s"
  using written_frame [of s] by (simp_all add: same_tables_def)

end

definition default_hooks :: modbus_sync_hooks where
  "default_hooks = modbus_register_sync_hooks None"

lemma default_sync [simp]:
  "modbus_sync_registers default_hooks s = modbus_app_sync_registers s"
  "modbus_sync_inputs default_hooks s = modbus_app_sync_inputs s"
  by (simp_all add: default_hooks_def modbus_register_sync_hooks_def modbus_sync_registers_def
      modbus_sync_inputs_def)

interpretation dflt: sync_frame default_hooks
  by unfold_locales (simp_all add: modbus_app_sync_inputs_def same_tables_def)

section \<open>Initialisation\<close>

lemma fold_zero: "n = length xs \<Longrightarrow> fold (\<lambda>i r. r[i := z]) [0..<n] xs = replicate n z"
proof -
  have "m \<le> length xs \<Longrightarrow> fold (\<lambda>i r. r[i := z]) [0..<m] xs = replicate m z @ drop m xs" for m
  proof (induction m)
    case 0
    then show ?case by simp
  next
    case (Suc m)
    then show ?case
      by (simp add: list_update_append Cons_nth_drop_Suc [symmetric] replicate_append_same)
  qed
  then show "n = length xs \<Longrightarrow> fold (\<lambda>i r. r[i := z]) [0..<n] xs = replicate n z"
    by simp
qed

text \<open>The shape of the tables at power-up, before \<open>modbus_rtu_init\<close>.\<close>

definition power_up :: "slave \<Rightarrow> bool" where
  "power_up s \<longleftrightarrow>
     length (holding_regs s) = 256 \<and> length (input_regs s) = 256 \<and>
     length (coil_bits s) = 16 \<and> length (discrete_bits s) = 16 \<and>
     length (file_store s) = 4 \<and> (\<forall>f < 4. length (file_store s ! f) = 128) \<and>
     length (fifo_store s) = 2 \<and> (\<forall>f < 2. length (fifo_store s ! f) = 31) \<and>
     length (fifo_len s) = 2 \<and> length (s_log (s_events s)) = 64 \<and> board_wf (s_board s)"

lemma file_clear:
  assumes "length fs = 4" and "\<forall>f < 4. length (fs ! f) = 128"
  shows "fold (\<lambda>f fs. fold (\<lambda>r fs. fs[f := (fs ! f)[r := 0 :: u16]]) [0..<128] fs) [0..<4] fs =
    replicate 4 (replicate 128 0)"
proof -
  have inner: "fold (\<lambda>r fs. fs[f := (fs ! f)[r := 0 :: u16]]) [0..<m] fs =
      fs[f := fold (\<lambda>r x. x[r := 0]) [0..<m] (fs ! f)]" if "f < length fs" for f m fs
    using that by (induction m) auto
  have "m \<le> 4 \<Longrightarrow> fold (\<lambda>f fs. fold (\<lambda>r fs. fs[f := (fs ! f)[r := 0 :: u16]]) [0..<128] fs) [0..<m] fs =
      fold (\<lambda>f fs. fs[f := replicate 128 0]) [0..<m] fs \<and>
      length (fold (\<lambda>f fs. fs[f := replicate 128 (0::u16)]) [0..<m] fs) = 4 \<and>
      (\<forall>f < 4. length (fold (\<lambda>f fs. fs[f := replicate 128 (0::u16)]) [0..<m] fs ! f) = 128)" for m
    by (induction m) (use assms in \<open>auto simp: inner fold_zero nth_list_update simp del: upt_rec_numeral\<close>)
  from this [of 4] assms show ?thesis by (simp add: fold_zero del: upt_rec_numeral)
qed

lemma rtu_init_state:
  assumes "power_up s"
  shows "slave_wf (modbus_rtu_init a s)"
    and "holding_regs (modbus_rtu_init a s) = replicate 256 0"
    and "coil_bits (modbus_rtu_init a s) = replicate 16 0"
    and "file_store (modbus_rtu_init a s) = replicate 4 (replicate 128 0)"
    and "fifo_len (modbus_rtu_init a s) = replicate 2 0"
proof -
  note * = assms [unfolded power_up_def]
  show h: "holding_regs (modbus_rtu_init a s) = replicate 256 0"
    and c: "coil_bits (modbus_rtu_init a s) = replicate 16 0"
    and f: "file_store (modbus_rtu_init a s) = replicate 4 (replicate 128 0)"
    and l: "fifo_len (modbus_rtu_init a s) = replicate 2 0"
    using * by (simp_all add: modbus_rtu_init_def fold_zero file_clear del: upt_rec_numeral)
  have "length (input_regs (modbus_rtu_init a s)) = 256" "length (discrete_bits (modbus_rtu_init a s)) = 16"
    "fifo_store (modbus_rtu_init a s) = fifo_store s" "s_board (modbus_rtu_init a s) = s_board s"
    "event_wf (s_events (modbus_rtu_init a s))"
    using * by (simp_all add: modbus_rtu_init_def del: upt_rec_numeral)
  with * h c f l show "slave_wf (modbus_rtu_init a s)"
    by (simp add: slave_wf_def)
qed

text \<open>The static initialisers of the firmware, and the state after start-up with slave id 1.\<close>

definition boot_diag :: diag where
  "boot_diag = \<lparr>s_bus_message_count = 0, s_comm_error_count = 0, s_exception_error_count = 0,
     s_slave_message_count = 0, s_slave_no_response_count = 0, s_char_overrun_count = 0,
     s_diag_register = 0, s_listen_only = False\<rparr>"

definition boot_event :: event where
  "boot_event = \<lparr>s_event_counter = 0, s_log = replicate 64 0, s_log_count = 0\<rparr>"

definition boot_board :: board where
  "boot_board = \<lparr>digital_input_states = 0, digital_output_states = 0, di_debounce = replicate 8 0,
     relay_states = 0, ai_raw_values = replicate 4 0, hw = []\<rparr>"

definition boot_slave :: slave where
  "boot_slave = \<lparr>modbus_slave_id = 1, holding_regs = replicate 256 0, input_regs = replicate 256 0,
     coil_bits = replicate 16 0, discrete_bits = replicate 16 0,
     file_store = replicate 4 (replicate 128 0), fifo_store = replicate 2 (replicate 31 0),
     fifo_len = replicate 2 0, s_diag = boot_diag, s_events = boot_event, s_board = boot_board\<rparr>"

definition slave1 :: slave where
  "slave1 = modbus_rtu_init 1 boot_slave"

lemma boot_power_up: "power_up boot_slave"
  by (simp add: power_up_def boot_slave_def boot_event_def boot_board_def board_wf_def)

lemma slave1_wf [simp]: "slave_wf slave1"
  unfolding slave1_def by (rule rtu_init_state(1) [OF boot_power_up])

lemma slave1_simps [simp]:
  "holding_regs slave1 = replicate 256 0" "coil_bits slave1 = replicate 16 0"
  "modbus_slave_id slave1 = 1" "s_listen_only (s_diag slave1) = False" "fifo_len slave1 = replicate 2 0"
  using rtu_init_state(2,3,5) [OF boot_power_up, of 1]
  by (simp_all add: slave1_def modbus_rtu_init_def modbus_diag_reset_def)

text \<open>
  C13: After the default application sync the board shows the coil and register tables: digital
  output \<open>i\<close> carries coil \<open>i\<close>, relay \<open>i\<close> carries coil \<open>8 + i\<close>, both analog outputs were last set to
  holding registers 0 and 1; discrete input \<open>i\<close> reports the debounced input \<open>i\<close>, input register \<open>i\<close>
  mirrors holding register \<open>100 + i\<close>; and the coils and holding registers themselves are unchanged.
\<close>

theorem sync_wiring:
  assumes "slave_wf s"
  shows "(\<forall>i < 8. digital_output_read (s_board (modbus_app_sync_registers s)) (of_nat i) = modbus_bit_read (coil_bits s) (of_nat i)) \<and>
    (\<forall>i < 4. relay_get (s_board (modbus_app_sync_registers s)) (of_nat i) = modbus_bit_read (coil_bits s) (8 + of_nat i)) \<and>
    (\<forall>i < 2. dac_out (of_nat i) (hw (s_board (modbus_app_sync_registers s))) = Some (holding_regs s ! i)) \<and>
    (\<forall>i < 8. modbus_bit_read (discrete_bits (modbus_app_sync_registers s)) (of_nat i) = digital_input_read (s_board s) (of_nat i)) \<and>
    (\<forall>i < 4. input_regs (modbus_app_sync_registers s) ! i = holding_regs s ! (100 + i)) \<and>
    coil_bits (modbus_app_sync_registers s) = coil_bits s \<and> holding_regs (modbus_app_sync_registers s) = holding_regs s"
proof (intro conjI allI impI)
  show "modbus_bit_read (discrete_bits (modbus_app_sync_registers s)) (of_nat i) = digital_input_read (s_board s) (of_nat i)"
    if "i < 8" for i
    using that assms by (simp add: discrete_app_sync refresh_discrete_bits digital_input_read_def
        word_less_nat_alt word_le_nat_alt bit_value)
  show "input_regs (modbus_app_sync_registers s) ! i = holding_regs s ! (100 + i)" if "i < 4" for i
    using that assms by (simp add: input_app_sync mirror_analog_regs)
qed (simp_all add: s_board_app_sync sync_outputs)

lemma sync_wiring_witness:
  "holding_regs (modbus_app_sync_registers slave1) = replicate 256 0"
  using sync_wiring [OF slave1_wf] by simp

end
