(* ===== verification/Slave_Pdu.thy ===== *)
theory Slave_Pdu
  imports Slave_Tables
begin

text \<open>
  The PDU processor \<open>modbus_pdu_process\<close> of \<open>src/modbus.c\<close>: one definition per case of its
  switch, each with the case's checks in the code's order, and the dispatcher.

  A handler returns the bytes it put into \<open>tx_pdu\<close> from index 0, the value of \<open>pdu_len\<close>, and the
  new state; \<open>None\<close> is an access outside the request or a table. The response is the first
  \<open>pdu_len\<close> of these bytes. The request is the received byte list, \<open>rx_pdu_len\<close> its length.
\<close>

section \<open>Handlers\<close>

datatype modbus_status = MODBUS_OK | MODBUS_ERROR | MODBUS_EXCEPTION | MODBUS_CRC_ERROR | MODBUS_TIMEOUT

type_synonym pdu_result = "u8 list \<times> nat \<times> slave"

definition exc :: "u8 \<Rightarrow> u8 \<Rightarrow> slave \<Rightarrow> pdu_result option" where
  "exc fc code s = Some (modbus_exception_response fc code, 2, s)"

text \<open>One response byte of FC 0x01 and 0x02. The \<open>break\<close> at \<open>b + i * 8 >= quantity\<close> stops the loop
  for every larger \<open>b\<close> too, so skipping the remaining bits is the same.\<close>

definition read_bits_byte :: "u8 list \<Rightarrow> u16 \<Rightarrow> u16 \<Rightarrow> nat \<Rightarrow> u8" where
  "read_bits_byte table start_addr quantity i =
     fold (\<lambda>b val. if b + i * 8 \<ge> unat quantity then val
                   else val OR push_bit b (modbus_bit_read table (start_addr + of_nat (i * 8) + of_nat b)))
       [0..<8] 0"

definition pdu_read_bits :: "u8 \<Rightarrow> u16 \<Rightarrow> u16 \<Rightarrow> u8 list \<Rightarrow> slave \<Rightarrow> pdu_result option" where
  "pdu_read_bits fc start_addr quantity rx_pdu s =
     (if length rx_pdu \<noteq> 5 then exc fc MODBUS_EXC_ILLEGAL_DATA_VALUE s
      else if quantity < 1 \<or> quantity > MODBUS_MAX_READ_COILS then exc fc MODBUS_EXC_ILLEGAL_DATA_VALUE s
      else if \<not> modbus_address_range_valid start_addr quantity MODBUS_MAX_COILS then exc fc MODBUS_EXC_ILLEGAL_DATA_ADDRESS s
      else
        let s = (if fc = MODBUS_FC_READ_DISCRETE_INPUTS then refresh_discrete s else s);
            byte_count = ucast ((quantity + 7) div 8) :: u8;
            table = (if fc = MODBUS_FC_READ_COILS then coil_bits s else discrete_bits s)
        in Some ([fc, byte_count] @ map (read_bits_byte table start_addr quantity) [0..<unat byte_count],
                 2 + unat byte_count, s))"

definition pdu_read_regs :: "u8 \<Rightarrow> u16 \<Rightarrow> u16 \<Rightarrow> u8 list \<Rightarrow> slave \<Rightarrow> pdu_result option" where
  "pdu_read_regs fc start_addr quantity rx_pdu s =
     (if length rx_pdu \<noteq> 5 then exc fc MODBUS_EXC_ILLEGAL_DATA_VALUE s
      else if quantity < 1 \<or> quantity > MODBUS_MAX_READ_REGISTERS then exc fc MODBUS_EXC_ILLEGAL_DATA_VALUE s
      else if \<not> modbus_address_range_valid start_addr quantity MODBUS_MAX_REGISTERS then exc fc MODBUS_EXC_ILLEGAL_DATA_ADDRESS s
      else do {
        let s = (if fc = MODBUS_FC_READ_INPUT_REGISTERS then mirror_analog s else s);
        let byte_count = (ucast (quantity * 2) :: u8);
        vals \<leftarrow> rd_span (if fc = MODBUS_FC_READ_HOLDING_REGISTERS then holding_regs s else input_regs s) (unat start_addr) (unat quantity);
        Some ([fc, byte_count] @ be_bytes vals, 2 + unat byte_count, s)
      })"

text \<open>The echo of the first five request bytes that ends the write handlers.\<close>

definition echo5 :: "u8 \<Rightarrow> u8 list \<Rightarrow> slave \<Rightarrow> pdu_result option" where
  "echo5 fc rx_pdu s = do { e \<leftarrow> rd_span rx_pdu 1 4; Some (fc # e, 5, s) }"

definition pdu_write_coil :: "modbus_sync_hooks \<Rightarrow> u8 \<Rightarrow> u16 \<Rightarrow> u16 \<Rightarrow> u8 list \<Rightarrow> slave \<Rightarrow> pdu_result option" where
  "pdu_write_coil hk fc start_addr quantity rx_pdu s =
     (if length rx_pdu \<noteq> 5 then exc fc MODBUS_EXC_ILLEGAL_DATA_VALUE s
      else if quantity \<noteq> 0xFF00 \<and> quantity \<noteq> 0x0000 then exc fc MODBUS_EXC_ILLEGAL_DATA_VALUE s
      else if \<not> modbus_address_range_valid start_addr 1 MODBUS_MAX_COILS then exc fc MODBUS_EXC_ILLEGAL_DATA_ADDRESS s
      else
        let coil_val = (if quantity = 0xFF00 then 1 else 0);
            s = s\<lparr>coil_bits := modbus_bit_write start_addr coil_val (coil_bits s)\<rparr>
        in echo5 fc rx_pdu (modbus_sync_registers hk s))"

definition pdu_write_reg :: "modbus_sync_hooks \<Rightarrow> u8 \<Rightarrow> u16 \<Rightarrow> u16 \<Rightarrow> u8 list \<Rightarrow> slave \<Rightarrow> pdu_result option" where
  "pdu_write_reg hk fc start_addr quantity rx_pdu s =
     (if length rx_pdu \<noteq> 5 then exc fc MODBUS_EXC_ILLEGAL_DATA_VALUE s
      else if \<not> modbus_address_range_valid start_addr 1 MODBUS_MAX_REGISTERS then exc fc MODBUS_EXC_ILLEGAL_DATA_ADDRESS s
      else
        let s = s\<lparr>holding_regs := modbus_regs_write start_addr quantity (holding_regs s)\<rparr>
        in echo5 fc rx_pdu (modbus_sync_registers hk s))"

definition pdu_write_coils :: "modbus_sync_hooks \<Rightarrow> u8 \<Rightarrow> u16 \<Rightarrow> u16 \<Rightarrow> u8 list \<Rightarrow> slave \<Rightarrow> pdu_result option" where
  "pdu_write_coils hk fc start_addr quantity rx_pdu s =
     (if length rx_pdu < 6 then exc fc MODBUS_EXC_ILLEGAL_DATA_VALUE s
      else if quantity < 1 \<or> quantity > MODBUS_MAX_WRITE_COILS then exc fc MODBUS_EXC_ILLEGAL_DATA_VALUE s
      else if \<not> modbus_address_range_valid start_addr quantity MODBUS_MAX_COILS then exc fc MODBUS_EXC_ILLEGAL_DATA_ADDRESS s
      else do {
        byte_count \<leftarrow> rd rx_pdu 5;
        let expected_bytes = (ucast ((quantity + 7) div 8) :: u8);
        if byte_count \<noteq> expected_bytes \<or> length rx_pdu \<noteq> 6 + unat byte_count then exc fc MODBUS_EXC_ILLEGAL_DATA_VALUE s
        else do {
          coils \<leftarrow> for_n (unat quantity)
            (\<lambda>i t. do { v \<leftarrow> rd rx_pdu (6 + i div 8);
                        Some (modbus_bit_write (start_addr + of_nat i) (drop_bit (i mod 8) v AND 0x01) t) })
            (coil_bits s);
          echo5 fc rx_pdu (modbus_sync_registers hk (s\<lparr>coil_bits := coils\<rparr>))
        }
      })"

text \<open>The loop that stores \<open>n\<close> big-endian request words from offset \<open>off\<close> into the holding registers.\<close>

definition store_regs :: "u8 list \<Rightarrow> nat \<Rightarrow> u16 \<Rightarrow> nat \<Rightarrow> u16 list \<Rightarrow> u16 list option" where
  "store_regs rx_pdu off start_addr n regs =
     for_n n (\<lambda>i r. do { v \<leftarrow> rd16 rx_pdu (off + i * 2); Some (modbus_regs_write (start_addr + of_nat i) v r) }) regs"

definition pdu_write_regs :: "modbus_sync_hooks \<Rightarrow> u8 \<Rightarrow> u16 \<Rightarrow> u16 \<Rightarrow> u8 list \<Rightarrow> slave \<Rightarrow> pdu_result option" where
  "pdu_write_regs hk fc start_addr quantity rx_pdu s =
     (if length rx_pdu < 6 then exc fc MODBUS_EXC_ILLEGAL_DATA_VALUE s
      else if quantity < 1 \<or> quantity > MODBUS_MAX_WRITE_REGISTERS then exc fc MODBUS_EXC_ILLEGAL_DATA_VALUE s
      else if \<not> modbus_address_range_valid start_addr quantity MODBUS_MAX_REGISTERS then exc fc MODBUS_EXC_ILLEGAL_DATA_ADDRESS s
      else do {
        byte_count \<leftarrow> rd rx_pdu 5;
        if unat byte_count \<noteq> unat quantity * 2 \<or> length rx_pdu \<noteq> 6 + unat byte_count then exc fc MODBUS_EXC_ILLEGAL_DATA_VALUE s
        else do {
          regs \<leftarrow> store_regs rx_pdu 6 start_addr (unat quantity) (holding_regs s);
          echo5 fc rx_pdu (modbus_sync_registers hk (s\<lparr>holding_regs := regs\<rparr>))
        }
      })"

definition pdu_exception_status :: "u8 \<Rightarrow> u8 list \<Rightarrow> slave \<Rightarrow> pdu_result option" where
  "pdu_exception_status fc rx_pdu s =
     (if length rx_pdu \<noteq> 1 then exc fc MODBUS_EXC_ILLEGAL_DATA_VALUE s
      else
        let s = refresh_discrete s;
            status = fold (\<lambda>i st. if modbus_bit_read (discrete_bits s) (of_nat i) \<noteq> 0 then st OR push_bit i 1 else st)
                       [0..<8] 0
        in Some ([fc, status], 2, s))"

text \<open>
  FC 0x14. \<open>n\<close> sub-requests are left, \<open>k\<close> is the index of the next; \<open>resp\<close> holds the bytes from
  \<open>tx_pdu[2]\<close>, so \<open>out\<close> is \<open>2 + length resp\<close>. \<open>Inl\<close> carries the exception code.
\<close>

fun file_read_loop :: "u8 list \<Rightarrow> u16 list list \<Rightarrow> nat \<Rightarrow> nat \<Rightarrow> u8 list \<Rightarrow> (u8 + u8 list) option" where
  "file_read_loop rx_pdu files 0 k resp = Some (Inr resp)"
| "file_read_loop rx_pdu files (Suc n) k resp = do {
     ref_type \<leftarrow> rd rx_pdu (2 + k * 7);
     file_number \<leftarrow> rd16 rx_pdu (2 + k * 7 + 1);
     record_number \<leftarrow> rd16 rx_pdu (2 + k * 7 + 3);
     record_length \<leftarrow> rd16 rx_pdu (2 + k * 7 + 5);
     if ref_type \<noteq> MODBUS_FILE_REF_TYPE \<or> record_length < 1 then Some (Inl MODBUS_EXC_ILLEGAL_DATA_VALUE)
     else if record_number > 0x270F \<or> \<not> modbus_file_index_valid file_number \<or>
             \<not> modbus_file_range_valid record_number record_length then Some (Inl MODBUS_EXC_ILLEGAL_DATA_ADDRESS)
     else if 2 + length resp + unat (2 + record_length * 2 :: u16) > 253 then Some (Inl MODBUS_EXC_ILLEGAL_DATA_VALUE)
     else do {
       file \<leftarrow> rd files (unat (ucast (file_number - 1) :: u8));
       vals \<leftarrow> rd_span file (unat record_number) (unat record_length);
       file_read_loop rx_pdu files n (Suc k)
         (resp @ [ucast (1 + record_length * 2), MODBUS_FILE_REF_TYPE] @ be_bytes vals)
     }
   }"

definition pdu_read_file :: "u8 \<Rightarrow> u8 list \<Rightarrow> slave \<Rightarrow> pdu_result option" where
  "pdu_read_file fc rx_pdu s =
     (if length rx_pdu < 2 then exc fc MODBUS_EXC_ILLEGAL_DATA_VALUE s
      else do {
        req_byte_count \<leftarrow> rd rx_pdu 1;
        if req_byte_count < 0x07 \<or> req_byte_count > 0xF5 \<or> req_byte_count mod 7 \<noteq> 0 \<or>
           length rx_pdu \<noteq> 2 + unat req_byte_count then exc fc MODBUS_EXC_ILLEGAL_DATA_VALUE s
        else do {
          r \<leftarrow> file_read_loop rx_pdu (file_store s) (unat (req_byte_count div 7)) 0 [];
          (case r of
             Inl code \<Rightarrow> exc fc code s
           | Inr resp \<Rightarrow> Some ([fc, of_nat (length resp)] @ resp, 2 + length resp, s))
        }
      })"

text \<open>
  FC 0x15. One sub-request at \<open>pos\<close>: \<open>Inl\<close> is the exception code, \<open>Inr\<close> the next position and
  the updated files. \<open>e\<close> is \<open>2 + req_byte_count\<close>, the end of the request.
\<close>

definition file_write_sub :: "u8 list \<Rightarrow> nat \<Rightarrow> nat \<Rightarrow> u16 list list \<Rightarrow> (u8 + nat \<times> u16 list list) option" where
  "file_write_sub rx_pdu e pos files =
     (if e - pos < 7 then Some (Inl MODBUS_EXC_ILLEGAL_DATA_VALUE)
      else do {
        ref_type \<leftarrow> rd rx_pdu pos;
        file_number \<leftarrow> rd16 rx_pdu (pos + 1);
        record_number \<leftarrow> rd16 rx_pdu (pos + 3);
        record_length \<leftarrow> rd16 rx_pdu (pos + 5);
        let data_bytes = unat (record_length * 2);
        if ref_type \<noteq> MODBUS_FILE_REF_TYPE \<or> record_length < 1 then Some (Inl MODBUS_EXC_ILLEGAL_DATA_VALUE)
        else if record_number > 0x270F \<or> \<not> modbus_file_index_valid file_number \<or>
                \<not> modbus_file_range_valid record_number record_length then Some (Inl MODBUS_EXC_ILLEGAL_DATA_ADDRESS)
        else if (pos + 7 + data_bytes) mod 65536 > e then Some (Inl MODBUS_EXC_ILLEGAL_DATA_VALUE)
        else do {
          let f = unat (ucast (file_number - 1) :: u8);
          file \<leftarrow> rd files f;
          file \<leftarrow> for_n (unat record_length)
            (\<lambda>r fl. do { v \<leftarrow> rd16 rx_pdu (pos + 7 + r * 2); wr fl (unat record_number + r) v }) file;
          Some (Inr ((pos + 7 + data_bytes) mod 65536, files[f := file]))
        }
      })"

lemma file_range_bound:
  "modbus_file_range_valid a q \<longleftrightarrow> 1 \<le> unat q \<and> unat a + unat q \<le> 128"
proof -
  have "\<not> 128 \<le> a \<Longrightarrow> unat (128 - a) = 128 - unat a"
    by (simp add: unat_sub_if' word_le_nat_alt)
  then show ?thesis
    by (auto simp: modbus_file_range_valid_def word_le_nat_alt word_less_nat_alt)
qed

lemma double_u16: "unat (q :: u16) \<le> 32767 \<Longrightarrow> unat (q * 2) = unat q * 2"
  by (simp add: unat_word_ariths)

lemma file_write_sub_progress:
  assumes "file_write_sub rx e pos files = Some (Inr (pos', files'))" and "e \<le> 257"
  shows "pos + 7 < pos' \<and> pos' \<le> e"
proof -
  from assms(1) obtain a q :: u16 where q: "unat a + unat q \<le> 128" "Suc 0 \<le> unat q" "\<not> (pos + 7 + unat (q * 2)) mod 65536 > e"
    and pos': "pos' = (pos + 7 + unat (q * 2)) mod 65536" and e: "\<not> e - pos < 7"
    by (auto simp: file_write_sub_def Let_def file_range_bound split: if_splits bind_splits)
  have "pos + 7 + unat (q * 2) < 65536"
    using q(1) e assms(2) by (simp add: double_u16)
  with q pos' show ?thesis by (simp add: double_u16)
qed

function file_write_loop :: "u8 list \<Rightarrow> nat \<Rightarrow> nat \<Rightarrow> u16 list list \<Rightarrow> (u8 option \<times> u16 list list) option" where
  "file_write_loop rx_pdu e pos files =
     (if pos < e \<and> e \<le> 257 then
        (case file_write_sub rx_pdu e pos files of
           None \<Rightarrow> None
         | Some (Inl code) \<Rightarrow> Some (Some code, files)
         | Some (Inr (pos', files')) \<Rightarrow> file_write_loop rx_pdu e pos' files')
      else Some (None, files))"
  by auto
termination
  by (relation "measure (\<lambda>(rx, e, pos, files). e - pos)") (auto dest: file_write_sub_progress)

declare file_write_loop.simps [simp del]

definition pdu_write_file :: "u8 \<Rightarrow> u8 list \<Rightarrow> slave \<Rightarrow> pdu_result option" where
  "pdu_write_file fc rx_pdu s =
     (if length rx_pdu < 2 then exc fc MODBUS_EXC_ILLEGAL_DATA_VALUE s
      else do {
        req_byte_count \<leftarrow> rd rx_pdu 1;
        if req_byte_count < 0x09 \<or> req_byte_count > 0xFB \<or> length rx_pdu \<noteq> 2 + unat req_byte_count
        then exc fc MODBUS_EXC_ILLEGAL_DATA_VALUE s
        else do {
          (err, files) \<leftarrow> file_write_loop rx_pdu (2 + unat req_byte_count) 2 (file_store s);
          let s = s\<lparr>file_store := files\<rparr>;
          (case err of Some code \<Rightarrow> exc fc code s | None \<Rightarrow> Some (rx_pdu, length rx_pdu, s))
        }
      })"

definition pdu_mask_write :: "modbus_sync_hooks \<Rightarrow> u8 \<Rightarrow> u16 \<Rightarrow> u8 list \<Rightarrow> slave \<Rightarrow> pdu_result option" where
  "pdu_mask_write hk fc start_addr rx_pdu s =
     (if length rx_pdu \<noteq> 7 then exc fc MODBUS_EXC_ILLEGAL_DATA_VALUE s
      else do {
        and_mask \<leftarrow> rd16 rx_pdu 3;
        or_mask \<leftarrow> rd16 rx_pdu 5;
        if \<not> modbus_address_range_valid start_addr 1 MODBUS_MAX_REGISTERS then exc fc MODBUS_EXC_ILLEGAL_DATA_ADDRESS s
        else do {
          cur \<leftarrow> rd (holding_regs s) (unat start_addr);
          let result = (cur AND and_mask) OR (or_mask AND NOT and_mask);
          let s = modbus_sync_registers hk (s\<lparr>holding_regs := modbus_regs_write start_addr result (holding_regs s)\<rparr>);
          e \<leftarrow> rd_span rx_pdu 0 7;
          Some (e, 7, s)
        }
      })"

definition pdu_read_fifo :: "u8 \<Rightarrow> u8 list \<Rightarrow> slave \<Rightarrow> pdu_result option" where
  "pdu_read_fifo fc rx_pdu s =
     (if length rx_pdu \<noteq> 3 then exc fc MODBUS_EXC_ILLEGAL_DATA_VALUE s
      else do {
        fifo_addr \<leftarrow> rd16 rx_pdu 1;
        if fifo_addr \<ge> MODBUS_FIFO_COUNT then exc fc MODBUS_EXC_ILLEGAL_DATA_ADDRESS s
        else do {
          count \<leftarrow> rd (fifo_len s) (unat fifo_addr);
          queue \<leftarrow> rd (fifo_store s) (unat fifo_addr);
          vals \<leftarrow> rd_span queue 0 (unat count);
          Some ([fc, 0x00, 2 + 2 * count, 0x00, count] @ be_bytes vals, 5 + 2 * unat count, s)
        }
      })"

definition pdu_read_write_regs :: "modbus_sync_hooks \<Rightarrow> u8 \<Rightarrow> u8 list \<Rightarrow> slave \<Rightarrow> pdu_result option" where
  "pdu_read_write_regs hk fc rx_pdu s =
     (if length rx_pdu < 10 then exc fc MODBUS_EXC_ILLEGAL_DATA_VALUE s
      else do {
        read_start \<leftarrow> rd16 rx_pdu 1;
        read_qty \<leftarrow> rd16 rx_pdu 3;
        write_start \<leftarrow> rd16 rx_pdu 5;
        write_qty \<leftarrow> rd16 rx_pdu 7;
        write_bc \<leftarrow> rd rx_pdu 9;
        if read_qty < 1 \<or> read_qty > 0x007D \<or> write_qty < 1 \<or> write_qty > 0x0079 \<or>
           write_bc \<noteq> ucast (write_qty * 2) \<or> length rx_pdu \<noteq> 10 + unat write_bc then exc fc MODBUS_EXC_ILLEGAL_DATA_VALUE s
        else if \<not> modbus_address_range_valid read_start read_qty MODBUS_MAX_REGISTERS \<or>
                \<not> modbus_address_range_valid write_start write_qty MODBUS_MAX_REGISTERS then exc fc MODBUS_EXC_ILLEGAL_DATA_ADDRESS s
        else do {
          regs \<leftarrow> store_regs rx_pdu 10 write_start (unat write_qty) (holding_regs s);
          let s = modbus_sync_registers hk (s\<lparr>holding_regs := regs\<rparr>);
          vals \<leftarrow> rd_span (holding_regs s) (unat read_start) (unat read_qty);
          Some ([fc, ucast (read_qty * 2)] @ be_bytes vals, 2 + unat read_qty * 2, s)
        }
      })"

text \<open>FC 0x2B. \<open>resp\<close> holds all bytes written so far; \<open>None\<close> within the option is exception 04.\<close>

fun devid_loop :: "u8 list \<Rightarrow> u8 list \<Rightarrow> u8 list option" where
  "devid_loop [] resp = Some resp"
| "devid_loop (oid # oids) resp =
     (case modbus_devid_object_str oid of
        None \<Rightarrow> None
      | Some s \<Rightarrow> if length resp + 2 + length s > 253 then None
                  else devid_loop oids (resp @ [oid, of_nat (length s)] @ s))"

definition pdu_device_id :: "u8 \<Rightarrow> u8 list \<Rightarrow> slave \<Rightarrow> pdu_result option" where
  "pdu_device_id fc rx_pdu s =
     (if length rx_pdu < 4 then exc fc MODBUS_EXC_ILLEGAL_DATA_VALUE s
      else do {
        mei_type \<leftarrow> rd rx_pdu 1;
        read_dev_id \<leftarrow> rd rx_pdu 2;
        object_id \<leftarrow> rd rx_pdu 3;
        if mei_type \<noteq> MODBUS_MEI_READ_DEVICE_ID then exc fc MODBUS_EXC_ILLEGAL_FUNCTION s
        else if read_dev_id \<noteq> MODBUS_DEVID_BASIC \<and> read_dev_id \<noteq> MODBUS_DEVID_REGULAR \<and> read_dev_id \<noteq> MODBUS_DEVID_EXTENDED \<and>
           read_dev_id \<noteq> MODBUS_DEVID_SPECIFIC
        then exc fc MODBUS_EXC_ILLEGAL_DATA_VALUE s
        else if read_dev_id = MODBUS_DEVID_SPECIFIC \<and> object_id > 2 then exc fc MODBUS_EXC_ILLEGAL_DATA_ADDRESS s
        else
          let (first_obj, last_obj) =
                (if read_dev_id = MODBUS_DEVID_SPECIFIC then (object_id, object_id)
                 else (if object_id \<le> 2 then object_id else 0, 2))
          in (case devid_loop (map of_nat [unat first_obj..<Suc (unat last_obj)])
                    [fc, MODBUS_MEI_READ_DEVICE_ID, read_dev_id, 0x81, 0x00, 0x00, last_obj - first_obj + 1] of
                None \<Rightarrow> exc fc MODBUS_EXC_SLAVE_DEVICE_FAILURE s
              | Some resp \<Rightarrow> Some (resp, length resp, s))
      })"

section \<open>The dispatcher\<close>

definition pdu_dispatch :: "modbus_sync_hooks \<Rightarrow> u8 \<Rightarrow> u16 \<Rightarrow> u16 \<Rightarrow> u8 list \<Rightarrow> slave \<Rightarrow> pdu_result option" where
  "pdu_dispatch hk fc start_addr quantity rx_pdu s =
     (if fc = MODBUS_FC_READ_COILS \<or> fc = MODBUS_FC_READ_DISCRETE_INPUTS then pdu_read_bits fc start_addr quantity rx_pdu s
      else if fc = MODBUS_FC_READ_HOLDING_REGISTERS \<or> fc = MODBUS_FC_READ_INPUT_REGISTERS then pdu_read_regs fc start_addr quantity rx_pdu s
      else if fc = MODBUS_FC_WRITE_SINGLE_COIL then pdu_write_coil hk fc start_addr quantity rx_pdu s
      else if fc = MODBUS_FC_WRITE_SINGLE_REGISTER then pdu_write_reg hk fc start_addr quantity rx_pdu s
      else if fc = MODBUS_FC_WRITE_MULTIPLE_COILS then pdu_write_coils hk fc start_addr quantity rx_pdu s
      else if fc = MODBUS_FC_WRITE_MULTIPLE_REGISTERS then pdu_write_regs hk fc start_addr quantity rx_pdu s
      else if fc = MODBUS_FC_READ_EXCEPTION_STATUS then pdu_exception_status fc rx_pdu s
      else if fc = MODBUS_FC_READ_FILE_RECORD then pdu_read_file fc rx_pdu s
      else if fc = MODBUS_FC_WRITE_FILE_RECORD then pdu_write_file fc rx_pdu s
      else if fc = MODBUS_FC_MASK_WRITE_REGISTER then pdu_mask_write hk fc start_addr rx_pdu s
      else if fc = MODBUS_FC_READ_FIFO_QUEUE then pdu_read_fifo fc rx_pdu s
      else if fc = MODBUS_FC_READ_WRITE_MULTIPLE_REGS then pdu_read_write_regs hk fc rx_pdu s
      else if fc = MODBUS_FC_ENCAPSULATED_INTERFACE then pdu_device_id fc rx_pdu s
      else exc fc MODBUS_EXC_ILLEGAL_FUNCTION s)"

text \<open>
  The status, the bytes of \<open>tx_pdu\<close>, \<open>*tx_pdu_len\<close> and the state. The null-pointer tests of the
  code have no counterpart.
\<close>

definition modbus_pdu_process ::
    "modbus_sync_hooks \<Rightarrow> u8 list \<Rightarrow> bool \<Rightarrow> slave \<Rightarrow> (modbus_status \<times> u8 list \<times> nat \<times> slave) option" where
  "modbus_pdu_process hk rx_pdu is_broadcast s =
     (if length rx_pdu < 1 then Some (MODBUS_ERROR, [], 0, s)
      else do {
        func_code \<leftarrow> rd rx_pdu 0;
        (start_addr, quantity) \<leftarrow>
          (if length rx_pdu \<ge> 5 then do { a \<leftarrow> rd16 rx_pdu 1; q \<leftarrow> rd16 rx_pdu 3; Some (a, q) }
           else Some (0, 0));
        if is_broadcast \<and> \<not> modbus_broadcast_function_supported func_code then Some (MODBUS_OK, [], 0, s)
        else do {
          (tx_pdu, pdu_len, s) \<leftarrow> pdu_dispatch hk func_code start_addr quantity rx_pdu s;
          Some (MODBUS_OK, tx_pdu, if is_broadcast then 0 else pdu_len, s)
        }
      })"

end
