(* ===== verification/Slave_Pdu_Props.thy ===== *)
theory Slave_Pdu_Props
  imports Slave_Pdu
begin

text \<open>
  Correctness of the PDU processor of \<open>Slave_Pdu\<close>: every handler terminates without an access out
  of bounds, keeps the state well formed and returns a response that fits the Modbus PDU
  (\<open>good\<close>); and the functional behaviour of the handlers. The lemmas about handlers that call the
  sync hook live in the locales \<open>sync_hooks\<close> and \<open>sync_frame\<close>.
\<close>

section \<open>Totality, well-formedness, response bounds\<close>

definition good :: "pdu_result option \<Rightarrow> bool" where
  "good r \<longleftrightarrow> (case r of None \<Rightarrow> False
     | Some (tx, len, s) \<Rightarrow> slave_wf s \<and> 2 \<le> len \<and> len \<le> length tx \<and> len \<le> 253)"

lemma goodI [intro]:
  "slave_wf s \<Longrightarrow> 2 \<le> len \<Longrightarrow> len \<le> length tx \<Longrightarrow> len \<le> 253 \<Longrightarrow> good (Some (tx, len, s))"
  by (simp add: good_def)

lemma good_exc [simp]: "slave_wf s \<Longrightarrow> good (exc fc code s)"
  by (simp add: good_def exc_def modbus_exception_response_def)

lemma good_if [simp]: "(c \<Longrightarrow> good a) \<Longrightarrow> (\<not> c \<Longrightarrow> good b) \<Longrightarrow> good (if c then a else b)"
  by simp

lemma byte_count_bits:
  assumes "unat (q :: u16) \<le> 2000"
  shows "unat (ucast ((q + 7) div 8) :: u8) = (unat q + 7) div 8"
proof -
  have "unat ((q + 7) div 8) = (unat q + 7) div 8"
    using assms by (simp add: unat_div_distrib unat_word_ariths)
  moreover have "(unat q + 7) div 8 < 256" using assms by simp
  ultimately show ?thesis
    by (simp add: unsigned_ucast_eq take_bit_nat_eq_self_iff)
qed

lemma byte_count_regs: "unat (q :: u16) \<le> 127 \<Longrightarrow> unat (ucast (q * 2) :: u8) = unat q * 2"
  by (simp add: unsigned_ucast_eq unat_word_ariths take_bit_nat_eq_self_iff)

lemma range_128: "modbus_address_range_valid a q 128 \<longleftrightarrow> unat a < 128 \<and> unat a + unat q \<le> 128"
  and range_256: "modbus_address_range_valid a q 256 \<longleftrightarrow> unat a < 256 \<and> unat a + unat q \<le> 256"
  by (simp_all add: range_valid_iff word_less_nat_alt)

lemmas word_cmp_nat = word_less_nat_alt word_le_nat_alt

lemma good_read_bits: "slave_wf s \<Longrightarrow> good (pdu_read_bits fc a q rx s)"
  unfolding pdu_read_bits_def
  by (auto simp: Let_def word_cmp_nat range_128 byte_count_bits not_less)

lemma good_read_regs:
  assumes "slave_wf s"
  shows "good (pdu_read_regs fc a q rx s)"
proof -
  have "good (do { vals \<leftarrow> rd_span regs (unat a) (unat q);
      Some ([fc, bc] @ be_bytes vals, 2 + unat bc, t) })"
    if "bc = ucast (q * 2)" "\<not> q > 125" "modbus_address_range_valid a q 256" "length regs = 256" "slave_wf t"
    for bc regs t
    using that by (auto simp: range_256 rd_span_Some byte_count_regs word_cmp_nat)
  with assms show ?thesis
    unfolding pdu_read_regs_def by (auto simp: Let_def slave_wfD)
qed

lemma good_echo5: "slave_wf s \<Longrightarrow> 5 \<le> length rx \<Longrightarrow> good (echo5 fc rx s)"
  by (auto simp: echo5_def rd_span_Some)

lemma slave_wf_coils [simp]: "slave_wf s \<Longrightarrow> length t = 16 \<Longrightarrow> slave_wf (s\<lparr>coil_bits := t\<rparr>)"
  and slave_wf_holding [simp]: "slave_wf s \<Longrightarrow> length r = 256 \<Longrightarrow> slave_wf (s\<lparr>holding_regs := r\<rparr>)"
  and slave_wf_files [simp]: "slave_wf s \<Longrightarrow> length fs = 4 \<Longrightarrow> (\<forall>f < 4. length (fs ! f) = 128) \<Longrightarrow>
    slave_wf (s\<lparr>file_store := fs\<rparr>)"
  by (simp_all add: slave_wf_def)

text \<open>The block loops run without fault when the request holds the announced data.\<close>

abbreviation coil_of :: "u8 list \<Rightarrow> nat \<Rightarrow> u8" where
  "coil_of rx i \<equiv> drop_bit (i mod 8) (rx ! (6 + i div 8)) AND 1"

abbreviation word_at :: "u8 list \<Rightarrow> nat \<Rightarrow> nat \<Rightarrow> u16" where
  "word_at rx off i \<equiv> be16 (rx ! (off + i * 2)) (rx ! (off + i * 2 + 1))"

lemma coils_loop:
  assumes "length rx = 6 + (n + 7) div 8"
  shows "for_n n (\<lambda>i t. do { v \<leftarrow> rd rx (6 + i div 8);
      Some (modbus_bit_write (a + of_nat i) (drop_bit (i mod 8) v AND 0x01) t) }) t =
    Some (fold (\<lambda>i. modbus_bit_write (a + of_nat i) (coil_of rx i)) [0..<n] t)"
proof (rule for_n_cong_Some)
  fix i t assume "i < n"
  then have "6 + i div 8 < length rx" using assms by auto
  then show "do { v \<leftarrow> rd rx (6 + i div 8);
      Some (modbus_bit_write (a + of_nat i) (drop_bit (i mod 8) v AND 0x01) t) } =
    Some (modbus_bit_write (a + of_nat i) (coil_of rx i) t)"
    by (simp add: rd_Some)
qed

lemma store_regs_eq:
  assumes "off + 2 * n \<le> length rx"
  shows "store_regs rx off a n r =
    Some (fold (\<lambda>i. modbus_regs_write (a + of_nat i) (word_at rx off i)) [0..<n] r)"
  unfolding store_regs_def using assms by (intro for_n_cong_Some) (simp add: rd16_Some)

lemma good_exception_status: "slave_wf s \<Longrightarrow> good (pdu_exception_status fc rx s)"
  unfolding pdu_exception_status_def by (auto simp: Let_def)

lemma good_read_fifo:
  assumes "slave_wf s"
  shows "good (pdu_read_fifo fc rx s)"
proof (cases "length rx = 3")
  case True
  then obtain a h l where rx: "rx = [a, h, l]"
    by (auto simp: numeral_eq_Suc length_Suc_conv)
  define f where "f = be16 h l"
  show ?thesis
  proof (cases "2 \<le> f")
    case False
    then have f: "unat f < 2" by (simp add: word_cmp_nat)
    have "rd (fifo_len s) (unat f) = Some (fifo_len s ! unat f)"
      "rd (fifo_store s) (unat f) = Some (fifo_store s ! unat f)"
      "rd_span (fifo_store s ! unat f) 0 (unat (fifo_len s ! unat f)) =
        Some (take (unat (fifo_len s ! unat f)) (fifo_store s ! unat f))"
      using f slave_wfD(7,9) [OF assms] slave_wfD(8,10) [OF assms f] by (simp_all add: rd_Some rd_span_Some)
    with assms f False slave_wfD(8,10) [OF assms f] show ?thesis
      by (auto simp: pdu_read_fifo_def rx f_def [symmetric])
  qed (simp add: pdu_read_fifo_def rx f_def [symmetric] assms)
qed (simp add: pdu_read_fifo_def assms)

section \<open>File records\<close>

lemma file_index: "modbus_file_index_valid f \<Longrightarrow> unat (ucast (f - 1) :: u8) = unat f - 1 \<and> unat f - 1 < 4"
proof -
  assume "modbus_file_index_valid f"
  then have f: "1 \<le> unat f" "unat f \<le> 4" by (simp_all add: modbus_file_index_valid_def word_cmp_nat)
  then have "unat (f - 1) = unat f - 1" by (simp add: unat_sub_if')
  moreover have "unat f - 1 < 256" "unat f - 1 < 4" using f by arith+
  ultimately show ?thesis by (simp add: unsigned_ucast_eq take_bit_nat_eq_self_iff)
qed

lemma double_plus: "unat (q :: u16) \<le> 128 \<Longrightarrow> unat (2 + q * 2) = 2 + unat q * 2"
  by (simp add: unat_word_ariths)

text \<open>The tables of virtual files the record has.\<close>

definition files_wf :: "u16 list list \<Rightarrow> bool" where
  "files_wf fs \<longleftrightarrow> length fs = 4 \<and> (\<forall>f < 4. length (fs ! f) = 128)"

lemma file_read_total:
  assumes "files_wf fs" and "2 + (k + n) * 7 \<le> length rx" and "length resp + 2 \<le> 253"
  shows "\<exists>r. file_read_loop rx fs n k resp = Some r \<and>
    (case r of Inl code \<Rightarrow> code \<in> {0x02, 0x03} | Inr resp' \<Rightarrow> length resp' + 2 \<le> 253)"
  using assms(2,3)
proof (induction n arbitrary: k resp)
  case 0
  then show ?case by simp
next
  case (Suc n)
  define len where "len = be16 (rx ! (2 + k * 7 + 5)) (rx ! (2 + k * 7 + 5 + 1))"
  define num where "num = be16 (rx ! (2 + k * 7 + 3)) (rx ! (2 + k * 7 + 3 + 1))"
  define fno where "fno = be16 (rx ! (2 + k * 7 + 1)) (rx ! (2 + k * 7 + 1 + 1))"
  have step: "rd rx (2 + k * 7) = Some (rx ! (2 + k * 7))" "rd16 rx (2 + k * 7 + 1) = Some fno"
    "rd16 rx (2 + k * 7 + 3) = Some num" "rd16 rx (2 + k * 7 + 5) = Some len"
    unfolding len_def num_def fno_def
    using Suc.prems(1) by (intro rd_Some rd16_Some; simp)+
  show ?case
  proof (cases "modbus_file_index_valid fno \<and> modbus_file_range_valid num len \<and>
      2 + length resp + unat (2 + len * 2) \<le> 253")
    case True
    then have b: "unat len \<le> 128" "unat num + unat len \<le> 128" "unat fno - 1 < 4"
      and i: "unat (ucast (fno - 1) :: u8) = unat fno - 1"
      using file_index [of fno] by (auto simp: file_range_bound)
    have span: "rd_span (fs ! (unat fno - 1)) (unat num) (unat len) =
        Some (take (unat len) (drop (unat num) (fs ! (unat fno - 1))))"
      and lenv: "length (take (unat len) (drop (unat num) (fs ! (unat fno - 1)))) = unat len"
      using assms(1) b by (simp_all add: files_wf_def rd_span_Some)
    have fileS: "rd fs (unat fno - 1) = Some (fs ! (unat fno - 1))"
      using assms(1) b by (simp add: files_wf_def rd_Some)
    have "\<exists>r. file_read_loop rx fs n (Suc k) (resp @ [ucast (1 + len * 2), 0x06] @
        be_bytes (take (unat len) (drop (unat num) (fs ! (unat fno - 1))))) = Some r \<and>
      (case r of Inl code \<Rightarrow> code \<in> {0x02, 0x03} | Inr resp' \<Rightarrow> length resp' + 2 \<le> 253)"
      using Suc.prems True b lenv by (intro Suc.IH) (simp_all add: double_plus)
    with True show ?thesis
      by (simp add: step [simplified] i [simplified] fileS [simplified] span [simplified])
  qed (use step [simplified] in auto)
qed

lemma good_read_file:
  assumes "slave_wf s"
  shows "good (pdu_read_file fc rx s)"
proof (cases "length rx < 2")
  case True
  with assms show ?thesis by (simp add: pdu_read_file_def)
next
  case False
  then have bc: "rd rx 1 = Some (rx ! 1)" by (simp add: rd_Some)
  show ?thesis
  proof (cases "rx ! 1 < 0x07 \<or> rx ! 1 > 0xF5 \<or> rx ! 1 mod 7 \<noteq> 0 \<or> length rx \<noteq> 2 + unat (rx ! 1)")
    case True
    with assms False bc show ?thesis by (auto simp: pdu_read_file_def)
  next
    case ok: False
    have "unat (rx ! 1 div 7) = unat (rx ! 1) div 7" by (simp add: unat_div_distrib)
    with ok have len: "2 + (0 + unat (rx ! 1 div 7)) * 7 \<le> length rx" by simp
    have "files_wf (file_store s)" using assms by (simp add: files_wf_def slave_wfD)
    from file_read_total [OF this len, of "[]"] obtain r
      where r: "file_read_loop rx (file_store s) (unat (rx ! 1 div 7)) 0 [] = Some r"
        "case r of Inl code \<Rightarrow> code \<in> {0x02, 0x03} | Inr resp' \<Rightarrow> length resp' + 2 \<le> 253"
      by auto
    have "pdu_read_file fc rx s = (case r of Inl code \<Rightarrow> exc fc code s
        | Inr resp \<Rightarrow> Some ([fc, of_nat (length resp)] @ resp, 2 + length resp, s))"
      using ok bc False r(1) by (simp add: pdu_read_file_def cong: sum.case_cong)
    with r(2) assms show ?thesis by (cases r) auto
  qed
qed

lemma for_n_writes:
  assumes "\<And>r. r < n \<Longrightarrow> g r \<noteq> None" and "a + n \<le> length fl"
  shows "for_n n (\<lambda>r fl. do { v \<leftarrow> g r; wr fl (a + r) v }) fl =
    Some (take a fl @ map (\<lambda>r. the (g r)) [0..<n] @ drop (a + n) fl)"
  using assms
proof (induction n)
  case 0
  then show ?case by simp
next
  case (Suc n)
  then obtain v where v: "g n = Some v" by blast
  have "drop (a + n) fl = fl ! (a + n) # drop (a + Suc n) fl"
    using Suc.prems(2) by (simp add: Cons_nth_drop_Suc)
  with Suc v show ?case
    by (simp add: wr_def list_update_append)
qed

text \<open>A sub-request of FC 0x15 that passes the checks replaces one stretch of one file.\<close>

definition file_put :: "u16 list list \<Rightarrow> nat \<Rightarrow> nat \<Rightarrow> u16 list \<Rightarrow> u16 list list" where
  "file_put fs f a vals = fs[f := take a (fs ! f) @ vals @ drop (a + length vals) (fs ! f)]"

lemma files_wf_put:
  assumes "files_wf fs" and "a + length vals \<le> 128"
  shows "files_wf (file_put fs f a vals)"
  using assms by (cases "f < 4") (auto simp: files_wf_def file_put_def nth_list_update)

lemma file_write_sub_total:
  assumes "files_wf fs" and "e \<le> length rx" and "e \<le> 257"
  shows "\<exists>r. file_write_sub rx e pos fs = Some r \<and>
    (case r of Inl code \<Rightarrow> code \<in> {0x02, 0x03} | Inr (pos', fs') \<Rightarrow> files_wf fs')"
proof (cases "e - pos < 7")
  case True
  then show ?thesis by (simp add: file_write_sub_def)
next
  case False
  define len where "len = be16 (rx ! (pos + 5)) (rx ! (pos + 5 + 1))"
  define num where "num = be16 (rx ! (pos + 3)) (rx ! (pos + 3 + 1))"
  define fno where "fno = be16 (rx ! (pos + 1)) (rx ! (pos + 1 + 1))"
  have step: "rd rx pos = Some (rx ! pos)" "rd16 rx (pos + 1) = Some fno"
    "rd16 rx (pos + 3) = Some num" "rd16 rx (pos + 5) = Some len"
    unfolding len_def num_def fno_def
    using False assms by (intro rd_Some rd16_Some; simp)+
  show ?thesis
  proof (cases "modbus_file_index_valid fno \<and> modbus_file_range_valid num len \<and>
      (pos + 7 + unat (len * 2)) mod 65536 \<le> e")
    case True
    then have b: "unat len \<le> 128" "unat num + unat len \<le> 128" "unat fno - 1 < 4"
      and i: "unat (ucast (fno - 1) :: u8) = unat fno - 1"
      using file_index [of fno] by (auto simp: file_range_bound)
    with True False assms(3) have fit: "pos + 7 + unat len * 2 \<le> e"
      by (simp add: double_u16)
    have rds: "rd16 rx (pos + 7 + r * 2) \<noteq> None" if "r < unat len" for r
      using that fit assms(2) by (simp add: rd16_Some)
    have fileS: "rd fs (unat fno - 1) = Some (fs ! (unat fno - 1))" "length (fs ! (unat fno - 1)) = 128"
      using assms(1) b by (simp_all add: files_wf_def rd_Some)
    note loop = for_n_writes [where g = "\<lambda>r. rd16 rx (pos + 7 + r * 2)" and n = "unat len" and a = "unat num"
        and fl = "fs ! (unat fno - 1)", OF rds]
    show ?thesis
      using True False loop fileS b
        files_wf_put [OF assms(1), of "unat num" "map (\<lambda>r. the (rd16 rx (pos + 7 + r * 2))) [0..<unat len]" "unat fno - 1"]
      by (simp add: file_write_sub_def step [simplified] i [simplified] file_put_def Let_def)
  qed (use step [simplified] False in \<open>auto simp: file_write_sub_def Let_def\<close>)
qed

lemma file_write_total:
  assumes "files_wf fs" and "e \<le> length rx" and "e \<le> 257"
  shows "\<exists>err fs'. file_write_loop rx e pos fs = Some (err, fs') \<and> files_wf fs'"
  using assms
proof (induction rx e pos fs rule: file_write_loop.induct)
  case (1 rx e pos fs)
  from file_write_sub_total [OF "1.prems", of pos] obtain r where
    r: "file_write_sub rx e pos fs = Some r"
    "case r of Inl code \<Rightarrow> code \<in> {0x02, 0x03} | Inr (pos', fs') \<Rightarrow> files_wf fs'" by auto
  show ?case
  proof (cases r)
    case (Inl code)
    with r "1.prems" show ?thesis by (subst file_write_loop.simps) simp
  next
    case (Inr p)
    obtain pos' fs' where p: "p = (pos', fs')" by fastforce
    show ?thesis
    proof (cases "pos < e \<and> e \<le> 257")
      case True
      then have "\<exists>err fs''. file_write_loop rx e pos' fs' = Some (err, fs'') \<and> files_wf fs''"
        using "1.IH" [OF True r(1) Inr p [symmetric]] r(2) "1.prems" by (simp add: Inr p)
      with True r(1) Inr p show ?thesis by (subst file_write_loop.simps) simp
    next
      case False
      with "1.prems" show ?thesis by (subst file_write_loop.simps) auto
    qed
  qed
qed

lemma good_write_file:
  assumes "slave_wf s"
  shows "good (pdu_write_file fc rx s)"
proof (cases "length rx < 2")
  case True
  with assms show ?thesis by (simp add: pdu_write_file_def)
next
  case False
  then have bc: "rd rx 1 = Some (rx ! 1)" by (simp add: rd_Some)
  show ?thesis
  proof (cases "rx ! 1 < 0x09 \<or> rx ! 1 > 0xFB \<or> length rx \<noteq> 2 + unat (rx ! 1)")
    case True
    with assms False bc show ?thesis by (auto simp: pdu_write_file_def)
  next
    case ok: False
    have "files_wf (file_store s)" using assms by (simp add: files_wf_def slave_wfD)
    moreover have "unat (rx ! 1) \<le> 251" using ok by (simp add: word_cmp_nat)
    ultimately obtain err fs where
      l: "file_write_loop rx (2 + unat (rx ! 1)) 2 (file_store s) = Some (err, fs)" "files_wf fs"
      using file_write_total [of "file_store s" "2 + unat (rx ! 1)" rx 2] ok by auto
    have "slave_wf (s\<lparr>file_store := fs\<rparr>)"
      using l(2) assms by (simp add: files_wf_def)
    with ok bc False l(1) \<open>unat (rx ! 1) \<le> 251\<close> show ?thesis
      by (cases err) (auto simp: pdu_write_file_def)
  qed
qed

section \<open>Device identification\<close>

lemma devid_loop_length:
  "devid_loop oids resp = Some r \<Longrightarrow> length resp \<le> 253 \<Longrightarrow> length r \<le> 253 \<and> length resp \<le> length r"
  by (induction oids arbitrary: resp) (force split: option.splits if_splits)+

lemma good_device_id:
  assumes "slave_wf s"
  shows "good (pdu_device_id fc rx s)"
proof (cases "length rx < 4")
  case True
  with assms show ?thesis by (simp add: pdu_device_id_def)
next
  case False
  then have r: "rd rx 1 = Some (rx ! 1)" "rd rx 2 = Some (rx ! 2)" "rd rx 3 = Some (rx ! 3)"
    by (simp_all add: rd_Some)
  have "good (case devid_loop oids [fc, 0x0E, c, 0x81, 0x00, 0x00, n] of
      None \<Rightarrow> exc fc 0x04 s | Some resp \<Rightarrow> Some (resp, length resp, s))" for oids c n
    using assms devid_loop_length [of oids "[fc, 0x0E, c, 0x81, 0x00, 0x00, n]"]
    by (auto split: option.splits)
  with False r [simplified] assms show ?thesis
    by (simp add: pdu_device_id_def split_beta)
qed

section \<open>The dispatcher without its reads\<close>

definition req_fields :: "u8 list \<Rightarrow> u16 \<times> u16" where
  "req_fields rx = (if 5 \<le> length rx then (be16 (rx ! 1) (rx ! 2), be16 (rx ! 3) (rx ! 4)) else (0, 0))"

lemma pdu_process_eq:
  assumes "rx \<noteq> []"
  shows "modbus_pdu_process hk rx bc s =
    (if bc \<and> \<not> modbus_broadcast_function_supported (hd rx) then Some (MODBUS_OK, [], 0, s)
     else map_option (\<lambda>(tx, len, s). (MODBUS_OK, tx, if bc then 0 else len, s))
       (pdu_dispatch hk (hd rx) (fst (req_fields rx)) (snd (req_fields rx)) rx s))"
proof -
  have "rd rx 0 = Some (hd rx)" using assms by (cases rx) auto
  moreover have "(if length rx \<ge> 5 then do { a \<leftarrow> rd16 rx 1; q \<leftarrow> rd16 rx 3; Some (a, q) }
      else Some (0, 0)) = Some (req_fields rx)"
    using rd16_Some [of 1 rx] rd16_Some [of 3 rx]
    by (auto simp: req_fields_def simp flip: numeral_2_eq_2)
  ultimately show ?thesis
    using assms by (cases "pdu_dispatch hk (hd rx) (fst (req_fields rx)) (snd (req_fields rx)) rx s")
      (auto simp: modbus_pdu_process_def split_beta Suc_le_eq)
qed

section \<open>Handlers that call the sync hook\<close>

context sync_hooks
begin

lemma good_write_coil: "slave_wf s \<Longrightarrow> good (pdu_write_coil hk fc a q rx s)"
  by (simp add: pdu_write_coil_def good_echo5 written_wf slave_wfD Let_def)

lemma good_write_reg: "slave_wf s \<Longrightarrow> good (pdu_write_reg hk fc a q rx s)"
  by (simp add: pdu_write_reg_def good_echo5 written_wf slave_wfD)

lemma good_write_coils:
  assumes "slave_wf s"
  shows "good (pdu_write_coils hk fc a q rx s)"
proof (cases "length rx < 6")
  case False
  then have bc: "rd rx 5 = Some (rx ! 5)" by (simp add: rd_Some)
  show ?thesis
  proof (cases "modbus_address_range_valid a q 128 \<and> \<not> q < 1 \<and> \<not> q > 1968 \<and>
      rx ! 5 = ucast ((q + 7) div 8) \<and> length rx = 6 + unat (rx ! 5)")
    case True
    then have "length rx = 6 + (unat q + 7) div 8"
      by (simp add: word_cmp_nat byte_count_bits)
    from coils_loop [OF this, of a "coil_bits s"] True False bc assms show ?thesis
      by (simp add: pdu_write_coils_def good_echo5 written_wf slave_wfD)
  qed (use False bc assms in \<open>auto simp: pdu_write_coils_def\<close>)
qed (simp add: pdu_write_coils_def assms)

lemma good_write_regs:
  assumes "slave_wf s"
  shows "good (pdu_write_regs hk fc a q rx s)"
proof (cases "length rx < 6")
  case False
  then have bc: "rd rx 5 = Some (rx ! 5)" by (simp add: rd_Some)
  show ?thesis
  proof (cases "modbus_address_range_valid a q 256 \<and> \<not> q < 1 \<and> \<not> q > 123 \<and>
      unat (rx ! 5) = unat q * 2 \<and> length rx = 6 + unat (rx ! 5)")
    case True
    then have "6 + 2 * unat q \<le> length rx" by simp
    from store_regs_eq [OF this, of a "holding_regs s"] True False bc assms show ?thesis
      by (simp add: pdu_write_regs_def good_echo5 written_wf slave_wfD)
  qed (use False bc assms in \<open>auto simp: pdu_write_regs_def\<close>)
qed (simp add: pdu_write_regs_def assms)

lemma good_mask_write:
  assumes "slave_wf s"
  shows "good (pdu_mask_write hk fc a rx s)"
proof (cases "length rx = 7")
  case True
  then have "rd16 rx 3 \<noteq> None" "rd16 rx 5 \<noteq> None" "rd_span rx 0 7 = Some rx"
    by (simp_all add: rd16_Some rd_span_Some)
  moreover have "modbus_address_range_valid a 1 256 \<Longrightarrow> rd (holding_regs s) (unat a) \<noteq> None"
    using assms by (simp add: range_256 rd_Some slave_wfD)
  ultimately show ?thesis
    using assms True by (auto simp: pdu_mask_write_def slave_wfD intro!: goodI written_wf)
qed (simp add: pdu_mask_write_def assms)

lemma good_read_write_regs:
  assumes "slave_wf s"
  shows "good (pdu_read_write_regs hk fc rx s)"
proof (cases "length rx < 10")
  case False
  then obtain ra rq wa wq bc where r: "rd16 rx 1 = Some ra" "rd16 rx 3 = Some rq" "rd16 rx 5 = Some wa"
      "rd16 rx 7 = Some wq" "rd rx 9 = Some bc"
    by (simp add: rd16_Some rd_Some)
  show ?thesis
  proof (cases "modbus_address_range_valid ra rq 256 \<and> modbus_address_range_valid wa wq 256 \<and>
      \<not> rq > 0x007D \<and> \<not> wq > 0x0079 \<and> bc = ucast (wq * 2) \<and> length rx = 10 + unat bc")
    case True
    then have st: "10 + 2 * unat wq \<le> length rx" by (simp add: word_cmp_nat byte_count_regs)
    define t where "t = modbus_sync_registers hk (s\<lparr>holding_regs :=
        fold (\<lambda>i. modbus_regs_write (wa + of_nat i) (word_at rx 10 i)) [0..<unat wq] (holding_regs s)\<rparr>)"
    have t: "slave_wf t" using assms by (simp add: t_def written_wf slave_wfD)
    then have "rd_span (holding_regs t) (unat ra) (unat rq) =
        Some (take (unat rq) (drop (unat ra) (holding_regs t)))"
      using True by (simp add: rd_span_Some slave_wfD range_256)
    with True t False assms r [simplified] store_regs_eq [OF st, of wa "holding_regs s"] show ?thesis
      by (auto simp: pdu_read_write_regs_def t_def [symmetric, simplified] range_256 slave_wfD word_cmp_nat Let_def)
  qed (use False r [simplified] assms in \<open>auto simp: pdu_read_write_regs_def\<close>)
qed (simp add: pdu_read_write_regs_def assms)

lemma good_dispatch: "slave_wf s \<Longrightarrow> good (pdu_dispatch hk fc a q rx s)"
  by (simp add: pdu_dispatch_def good_read_bits good_read_regs good_write_coil good_write_reg
      good_write_coils good_write_regs good_exception_status good_read_file good_write_file
      good_mask_write good_read_fifo good_read_write_regs good_device_id)

text \<open>The whole processor: it always answers, in bounds, and leaves a well-formed state.\<close>

lemma pdu_process_good:
  assumes "slave_wf s" and "rx \<noteq> []"
  shows "\<exists>tx len s'. modbus_pdu_process hk rx bc s = Some (MODBUS_OK, tx, len, s') \<and> slave_wf s' \<and>
    len \<le> length tx \<and> len \<le> 253 \<and> (bc \<longrightarrow> len = 0) \<and> (\<not> bc \<longrightarrow> 2 \<le> len)"
proof -
  from good_dispatch [OF assms(1), of "hd rx" "fst (req_fields rx)" "snd (req_fields rx)" rx]
  obtain tx len s' where
    d: "pdu_dispatch hk (hd rx) (fst (req_fields rx)) (snd (req_fields rx)) rx s = Some (tx, len, s')"
    "slave_wf s'" "2 \<le> len" "len \<le> length tx" "len \<le> 253"
    by (auto simp: good_def split: option.splits)
  with assms show ?thesis
    by (auto simp: pdu_process_eq)
qed

end

end
