(* ===== verification/Slave_Pdu_Spec.thy ===== *)
theory Slave_Pdu_Spec
  imports Slave_Pdu_Props
begin

text \<open>
  What a Modbus client observes of the PDU processor: the contents of read responses, the effect
  of the write functions on the tables, the round trips through files and FIFO queues, and the
  error behaviour. Requests are written as the byte lists a client sends.
\<close>

section \<open>Reading bits\<close>

lemma bit_push_01: "bit (push_bit b (of_bool v) :: u8) j \<longleftrightarrow> j = b \<and> b < 8 \<and> v"
  by (cases v) (auto simp: bit_simps)

lemma bit_read_of_bool: "modbus_bit_read t a = of_bool (modbus_bit_read t a = 1)"
  by (simp add: modbus_bit_read_def bit_value of_bool_def)

lemma read_bits_byte_bit:
  assumes "j < 8"
  shows "bit (read_bits_byte t a q i) j \<longleftrightarrow>
    i * 8 + j < unat q \<and> modbus_bit_read t (a + of_nat (i * 8 + j)) = 1"
proof -
  define F :: "nat \<Rightarrow> u8 \<Rightarrow> u8" where
    "F = (\<lambda>b val. if b + i * 8 \<ge> unat q then val
          else val OR push_bit b (modbus_bit_read t (a + of_nat (i * 8) + of_nat b)))"
  have F: "bit (F m val) j \<longleftrightarrow> bit val j \<or>
      j = m \<and> i * 8 + m < unat q \<and> modbus_bit_read t (a + of_nat (i * 8 + m)) = 1" if "m < 8" for m val
  proof -
    have e: "a + of_nat (i * 8) + of_nat m = a + of_nat (i * 8 + m)" by (simp only: of_nat_add add.assoc)
    have p: "bit (push_bit m (modbus_bit_read t b)) j \<longleftrightarrow> j = m \<and> modbus_bit_read t b = 1" for b
      by (subst bit_read_of_bool) (use that in \<open>simp only: bit_push_01, simp\<close>)
    show ?thesis
      unfolding F_def e by (auto simp only: bit_or_iff p split: if_splits)
  qed
  have "m \<le> 8 \<Longrightarrow> bit (fold F [0..<m] 0) j \<longleftrightarrow>
      j < m \<and> i * 8 + j < unat q \<and> modbus_bit_read t (a + of_nat (i * 8 + j)) = 1" for m
    by (induction m) (auto simp: F less_Suc_eq simp del: of_nat_add of_nat_mult)
  from this [of 8] assms show ?thesis
    unfolding read_bits_byte_def F_def [symmetric] by blast
qed

text \<open>A request of function code, address and quantity.\<close>

definition request :: "u8 \<Rightarrow> u16 \<Rightarrow> u16 \<Rightarrow> u8 list" where
  "request fc a q = fc # be_bytes [a, q]"

lemma request_simps [simp]:
  "request fc a q \<noteq> []" "length (request fc a q) = 5" "hd (request fc a q) = fc"
  "req_fields (request fc a q) = (a, q)"
  "rd_span (request fc a q) 1 4 = Some (be_bytes [a, q])"
  by (simp_all add: request_def req_fields_def rd_span_Some)

lemma req_fields_cons [simp]: "req_fields (fc # hi8 a # lo8 a # hi8 q # lo8 q # r) = (a, q)"
  by (simp add: req_fields_def)

lemma qty_bounds: "unat a + unat q \<le> n \<Longrightarrow> 1 \<le> unat q \<Longrightarrow> unat (a :: u16) < n"
  by simp

text \<open>The response to FC 0x01: the requested coils, eight per byte, the last byte padded with zeros.\<close>

lemma read_coils_response:
  assumes "1 \<le> unat q" and "unat a + unat q \<le> 128"
  shows "\<exists>bits. modbus_pdu_process hk (request 0x01 a q) False s =
      Some (MODBUS_OK, [0x01, of_nat ((unat q + 7) div 8)] @ bits, 2 + (unat q + 7) div 8, s) \<and>
    length bits = (unat q + 7) div 8 \<and>
    (\<forall>k < 8 * length bits. bit (bits ! (k div 8)) (k mod 8) \<longleftrightarrow>
       k < unat q \<and> modbus_read_coil s (a + of_nat k) = 1)"
proof -
  define n where "n = (unat q + 7) div 8"
  define bits where "bits = map (read_bits_byte (coil_bits s) a q) [0..<n]"
  have n: "unat (ucast ((q + 7) div 8) :: u8) = n" using assms by (simp add: byte_count_bits n_def)
  have n256: "unat (of_nat n :: u8) = n" using assms by (intro unat_u8_of_nat) (simp add: n_def)
  from n have n': "(ucast ((q + 7) div 8) :: u8) = of_nat n" by (metis of_nat_unat ucast_id)
  have "modbus_pdu_process hk (request 0x01 a q) False s =
      Some (MODBUS_OK, [0x01, of_nat n] @ bits, 2 + n, s)"
    using assms by (auto simp: pdu_process_eq pdu_dispatch_def pdu_read_bits_def range_128 word_cmp_nat
        bits_def n n' n256 Let_def simp del: One_nat_def)
  moreover have "bit (bits ! (k div 8)) (k mod 8) \<longleftrightarrow> k < unat q \<and> modbus_read_coil s (a + of_nat k) = 1"
    if "k < 8 * length bits" for k
  proof -
    have "k div 8 < n" using that by (simp add: bits_def)
    moreover have "modbus_read_coil s b = 1 \<longleftrightarrow> modbus_bit_read (coil_bits s) b = 1" for b
      unfolding modbus_read_coil_def by (subst (1 2) bit_read_of_bool) (auto simp: of_bool_def)
    ultimately show ?thesis
      by (simp add: bits_def read_bits_byte_bit)
  qed
  ultimately show ?thesis by (intro exI [of _ bits]) (simp add: bits_def n_def)
qed

section \<open>Reading and writing registers\<close>

lemma byte_count_of_nat: "unat (q :: u16) \<le> 127 \<Longrightarrow> (ucast (q * 2) :: u8) = of_nat (2 * unat q)"
  by (metis byte_count_regs mult.commute of_nat_unat ucast_id)

lemma read_holding_response:
  assumes "slave_wf s" and "1 \<le> unat q" and "unat q \<le> 125" and "unat a + unat q \<le> 256"
  shows "modbus_pdu_process hk (request 0x03 a q) False s =
    Some (MODBUS_OK, [0x03, of_nat (2 * unat q)] @ be_bytes (take (unat q) (drop (unat a) (holding_regs s))),
      2 + 2 * unat q, s)"
  using assms
  by (auto simp: pdu_process_eq pdu_dispatch_def pdu_read_regs_def range_256 word_cmp_nat
      rd_span_Some slave_wfD byte_count_of_nat simp del: One_nat_def of_nat_mult)

lemma read_input_response:
  assumes "slave_wf s" and "1 \<le> unat q" and "unat q \<le> 125" and "unat a + unat q \<le> 256"
  shows "modbus_pdu_process hk (request 0x04 a q) False s =
    Some (MODBUS_OK, [0x04, of_nat (2 * unat q)] @
        be_bytes (take (unat q) (drop (unat a) (input_regs (mirror_analog s)))),
      2 + 2 * unat q, mirror_analog s)"
  using assms
  by (auto simp: pdu_process_eq pdu_dispatch_def pdu_read_regs_def range_256 word_cmp_nat
      rd_span_Some slave_wfD byte_count_of_nat Let_def simp del: One_nat_def of_nat_mult)

text \<open>A table with a stretch replaced.\<close>

definition patch :: "'a list \<Rightarrow> nat \<Rightarrow> 'a list \<Rightarrow> 'a list" where
  "patch xs a vs = take a xs @ vs @ drop (a + length vs) xs"

lemma length_patch [simp]: "a + length vs \<le> length xs \<Longrightarrow> length (patch xs a vs) = length xs"
  by (simp add: patch_def)

lemma patch_read: "a + length vs \<le> length xs \<Longrightarrow> take (length vs) (drop a (patch xs a vs)) = vs"
  by (simp add: patch_def)

lemma patch_nth:
  "a + length vs \<le> length xs \<Longrightarrow> j < length xs \<Longrightarrow>
    patch xs a vs ! j = (if a \<le> j \<and> j < a + length vs then vs ! (j - a) else xs ! j)"
  by (auto simp: patch_def nth_append)

lemma regs_patch:
  assumes "length r = 256" and "unat (a :: u16) + length vs \<le> 256"
    and "\<And>i. i < length vs \<Longrightarrow> f i = vs ! i"
  shows "fold (\<lambda>i. modbus_regs_write (a + of_nat i) (f i)) [0..<length vs] r = patch r (unat a) vs"
  using assms by (intro nth_equalityI) (auto simp: regs_block_write patch_nth)

lemma word_at_be_bytes:
  assumes "i < length vs" and "off = length pre"
  shows "word_at (pre @ be_bytes vs) off i = vs ! i"
  using nth_be_bytes [OF assms(1)] assms
  by (simp add: nth_append mult.commute)

definition write_regs_request :: "u16 \<Rightarrow> u16 list \<Rightarrow> u8 list" where
  "write_regs_request a vs = 0x10 # be_bytes [a, of_nat (length vs)] @ [of_nat (2 * length vs)] @ be_bytes vs"

lemma write_regs_effect:
  assumes wf: "slave_wf s" and n: "1 \<le> length vs" "length vs \<le> 123" and a: "unat a + length vs \<le> 256"
  shows "modbus_pdu_process hk (write_regs_request a vs) False s =
    Some (MODBUS_OK, 0x10 # be_bytes [a, of_nat (length vs)], 5,
      modbus_sync_registers hk (s\<lparr>holding_regs := patch (holding_regs s) (unat a) vs\<rparr>))"
proof -
  define q :: u16 where "q = of_nat (length vs)"
  define rx where "rx = write_regs_request a vs"
  have q: "unat q = length vs" using n by (simp add: q_def)
  have rx: "rx = [0x10, hi8 a, lo8 a, hi8 q, lo8 q, of_nat (2 * length vs)] @ be_bytes vs"
    by (simp add: rx_def write_regs_request_def q_def)
  have bc: "unat (of_nat (2 * length vs) :: u8) = 2 * length vs"
    using n by (intro unat_u8_of_nat) simp
  have len: "6 + 2 * length vs \<le> length rx" by (simp add: rx)
  have "word_at rx 6 i = vs ! i" if "i < length vs" for i
    unfolding rx by (rule word_at_be_bytes [OF that]) simp
  from regs_patch [OF slave_wfD(1) [OF wf] a this]
  have st: "store_regs rx 6 a (unat q) (holding_regs s) = Some (patch (holding_regs s) (unat a) vs)"
    using store_regs_eq [OF len] by (simp add: q)
  have "vs \<noteq> []" using n by auto
  moreover have "hd rx = 0x10" "req_fields rx = (a, q)" "rd rx 5 = Some (of_nat (2 * length vs))"
    "length rx = 6 + 2 * length vs" "rd_span rx 1 4 = Some (be_bytes [a, q])" "rx \<noteq> []"
    by (simp_all add: rx rd_span_Some)
  ultimately show ?thesis
    using n a q bc st unfolding rx_def [symmetric] q_def [symmetric]
    by (simp add: pdu_process_eq pdu_dispatch_def pdu_write_regs_def range_256 word_cmp_nat echo5_def
        del: One_nat_def of_nat_mult)
qed

lemma write_reg_effect:
  assumes "unat a < 256"
  shows "modbus_pdu_process hk (request 0x06 a v) False s =
    Some (MODBUS_OK, request 0x06 a v, 5,
      modbus_sync_registers hk (s\<lparr>holding_regs := (holding_regs s)[unat a := v]\<rparr>))"
  using assms
  by (simp add: pdu_process_eq pdu_dispatch_def pdu_write_reg_def range_256 echo5_def modbus_regs_write_def
      word_cmp_nat) (simp add: request_def)

text \<open>FC 0x0F: bit \<open>k\<close> of the packed data becomes coil \<open>a + k\<close>; the padding bits are ignored.\<close>

definition write_coils_request :: "u16 \<Rightarrow> u16 \<Rightarrow> u8 list \<Rightarrow> u8 list" where
  "write_coils_request a q data = 0x0F # be_bytes [a, q] @ [of_nat (length data)] @ data"

lemma write_coils_effect:
  assumes wf: "slave_wf s" and q: "1 \<le> unat q" "unat a + unat q \<le> 128"
    and data: "length data = (unat q + 7) div 8"
  shows "\<exists>coils. modbus_pdu_process hk (write_coils_request a q data) False s =
      Some (MODBUS_OK, request 0x0F a q, 5, modbus_sync_registers hk (s\<lparr>coil_bits := coils\<rparr>)) \<and>
    length coils = 16 \<and>
    (\<forall>b < 128. modbus_bit_read coils b =
       (if unat a \<le> unat b \<and> unat b < unat a + unat q
        then of_bool (bit (data ! ((unat b - unat a) div 8)) ((unat b - unat a) mod 8))
        else modbus_bit_read (coil_bits s) b))"
proof -
  define rx where "rx = write_coils_request a q data"
  define coils where "coils = fold (\<lambda>i. modbus_bit_write (a + of_nat i) (coil_of rx i)) [0..<unat q] (coil_bits s)"
  have rx: "rx = [0x0F, hi8 a, lo8 a, hi8 q, lo8 q, of_nat (length data)] @ data"
    by (simp add: rx_def write_coils_request_def)
  have len: "length rx = 6 + (unat q + 7) div 8" by (simp add: rx data)
  have l17: "length data < 256" using q data by simp
  have "unat (ucast ((q + 7) div 8) :: u8) = length data" using byte_count_bits [of q] q data by simp
  then have bc: "(ucast ((q + 7) div 8) :: u8) = of_nat (length data)" by (metis of_nat_unat ucast_id)
  have "hd rx = 0x0F" "req_fields rx = (a, q)" "rd rx 5 = Some (of_nat (length data))"
    "rd_span rx 1 4 = Some (be_bytes [a, q])" "rx \<noteq> []"
    by (simp_all add: rx rd_span_Some)
  then have "modbus_pdu_process hk rx False s =
      Some (MODBUS_OK, request 0x0F a q, 5, modbus_sync_registers hk (s\<lparr>coil_bits := coils\<rparr>))"
    using q len l17 data coils_loop [OF len, of a "coil_bits s"]
    by (simp add: pdu_process_eq pdu_dispatch_def pdu_write_coils_def range_128 word_cmp_nat echo5_def
        bc coils_def request_def Let_def del: One_nat_def)
  moreover have "modbus_bit_read coils b =
       (if unat a \<le> unat b \<and> unat b < unat a + unat q
        then of_bool (bit (data ! ((unat b - unat a) div 8)) ((unat b - unat a) mod 8))
        else modbus_bit_read (coil_bits s) b)" if "b < 128" for b
    using bits_block_write [OF slave_wfD(3) [OF wf] q(2) that, of "coil_of rx"]
    by (simp add: coils_def bit_value rx nth_append)
  moreover have "length coils = 16" using wf by (simp add: coils_def slave_wfD)
  ultimately show ?thesis unfolding rx_def by blast
qed

text \<open>FC 0x16: where the AND mask has a one the bit is kept, elsewhere it is taken from the OR mask.\<close>

definition mask_write_request :: "u16 \<Rightarrow> u16 \<Rightarrow> u16 \<Rightarrow> u8 list" where
  "mask_write_request a and_m or_m = 0x16 # be_bytes [a, and_m, or_m]"

lemma mask_write_effect:
  assumes "slave_wf s" and "unat a < 256"
  shows "\<exists>v. modbus_pdu_process hk (mask_write_request a am om) False s =
      Some (MODBUS_OK, mask_write_request a am om, 7,
        modbus_sync_registers hk (s\<lparr>holding_regs := (holding_regs s)[unat a := v]\<rparr>)) \<and>
    (\<forall>i < 16. bit v i \<longleftrightarrow> (if bit am i then bit (holding_regs s ! unat a) i else bit om i))"
proof -
  define v where "v = ((holding_regs s ! unat a) AND am) OR (om AND NOT am)"
  define rx where "rx = mask_write_request a am om"
  have rx: "rx = [0x16, hi8 a, lo8 a, hi8 am, lo8 am, hi8 om, lo8 om]"
    by (simp add: rx_def mask_write_request_def)
  have "rd16 rx 3 = Some am" "rd16 rx 5 = Some om" "rd_span rx 0 7 = Some rx" "length rx = 7"
    "hd rx = 0x16" "req_fields rx = (a, be16 (hi8 am) (lo8 am))" "rx \<noteq> []"
    by (simp_all add: rx rd_span_Some)
  moreover have "rd (holding_regs s) (unat a) = Some (holding_regs s ! unat a)"
    using assms by (simp add: rd_Some slave_wfD)
  ultimately have "modbus_pdu_process hk rx False s = Some (MODBUS_OK, rx, 7,
      modbus_sync_registers hk (s\<lparr>holding_regs := (holding_regs s)[unat a := v]\<rparr>))"
    using assms by (simp add: pdu_process_eq pdu_dispatch_def pdu_mask_write_def range_256 v_def
        modbus_regs_write_def word_cmp_nat)
  moreover have "\<forall>i < 16. bit v i \<longleftrightarrow> (if bit am i then bit (holding_regs s ! unat a) i else bit om i)"
    by (auto simp: v_def bit_simps)
  ultimately show ?thesis unfolding rx_def by blast
qed

text \<open>FC 0x17 writes first: the values read back are those of the updated table.\<close>

definition rw_regs_request :: "u16 \<Rightarrow> u16 \<Rightarrow> u16 \<Rightarrow> u16 list \<Rightarrow> u8 list" where
  "rw_regs_request ra rq wa vs =
     0x17 # be_bytes [ra, rq, wa, of_nat (length vs)] @ [of_nat (2 * length vs)] @ be_bytes vs"

lemma rw_regs_effect_aux:
  assumes wf: "slave_wf s"
    and r: "1 \<le> unat rq" "unat rq \<le> 125" "unat ra + unat rq \<le> 256"
    and w: "1 \<le> length vs" "length vs \<le> 121" "unat wa + length vs \<le> 256"
    and t: "t = modbus_sync_registers hk (s\<lparr>holding_regs := patch (holding_regs s) (unat wa) vs\<rparr>)"
    and len_t: "length (holding_regs t) = 256"
  shows "modbus_pdu_process hk (rw_regs_request ra rq wa vs) False s =
    Some (MODBUS_OK, [0x17, of_nat (2 * unat rq)] @ be_bytes (take (unat rq) (drop (unat ra) (holding_regs t))),
      2 + unat rq * 2, t)"
proof -
  define q :: u16 where "q = of_nat (length vs)"
  define rx where "rx = rw_regs_request ra rq wa vs"
  have q: "unat q = length vs" using w by (simp add: q_def)
  have rx: "rx = [0x17, hi8 ra, lo8 ra, hi8 rq, lo8 rq, hi8 wa, lo8 wa, hi8 q, lo8 q, of_nat (2 * length vs)]
      @ be_bytes vs"
    by (simp add: rx_def rw_regs_request_def q_def)
  have bc: "unat (of_nat (2 * length vs) :: u8) = 2 * length vs"
    "(ucast (q * 2) :: u8) = of_nat (2 * length vs)"
    using w byte_count_of_nat [of q] by (simp_all add: q del: of_nat_mult)
  have len: "10 + 2 * length vs \<le> length rx" by (simp add: rx)
  have "word_at rx 10 i = vs ! i" if "i < length vs" for i
    unfolding rx by (rule word_at_be_bytes [OF that]) simp
  from regs_patch [OF slave_wfD(1) [OF wf] w(3) this]
  have st: "store_regs rx 10 wa (unat q) (holding_regs s) = Some (patch (holding_regs s) (unat wa) vs)"
    using store_regs_eq [OF len] by (simp add: q)
  have "rd_span (holding_regs t) (unat ra) (unat rq) = Some (take (unat rq) (drop (unat ra) (holding_regs t)))"
    using r len_t by (simp add: rd_span_Some)
  moreover have "vs \<noteq> []" using w by auto
  moreover have "hd rx = 0x17" "req_fields rx = (ra, rq)" "rd rx 9 = Some (of_nat (2 * length vs))"
    "rd16 rx 1 = Some ra" "rd16 rx 3 = Some rq" "rd16 rx 5 = Some wa" "rd16 rx 7 = Some q"
    "length rx = 10 + 2 * length vs" "rx \<noteq> []"
    by (simp_all add: rx)
  ultimately show ?thesis
    using r w q bc st t unfolding rx_def [symmetric]
    by (simp add: pdu_process_eq pdu_dispatch_def pdu_read_write_regs_def range_256 word_cmp_nat
        byte_count_of_nat Let_def del: One_nat_def of_nat_mult)
qed

section \<open>Files\<close>

definition write_file_request :: "u16 \<Rightarrow> u16 \<Rightarrow> u16 list \<Rightarrow> u8 list" where
  "write_file_request f r vs =
     [0x15, of_nat (7 + 2 * length vs), 0x06] @ be_bytes [f, r, of_nat (length vs)] @ be_bytes vs"

definition read_file_request :: "u16 \<Rightarrow> u16 \<Rightarrow> u16 \<Rightarrow> u8 list" where
  "read_file_request f r n = [0x14, 7, 0x06] @ be_bytes [f, r, n]"

lemma file_index_nat: "1 \<le> unat f \<Longrightarrow> unat f \<le> 4 \<Longrightarrow>
    modbus_file_index_valid f \<and> unat (ucast (f - 1) :: u8) = unat f - 1 \<and> unat f - 1 < 4"
  using file_index [of f] by (simp add: modbus_file_index_valid_def word_cmp_nat)

lemma write_file_effect:
  assumes wf: "slave_wf s" and f: "1 \<le> unat f" "unat f \<le> 4"
    and n: "1 \<le> length vs" "length vs \<le> 122" "unat r + length vs \<le> 128"
  shows "modbus_pdu_process hk (write_file_request f r vs) False s =
    Some (MODBUS_OK, write_file_request f r vs, 9 + 2 * length vs,
      s\<lparr>file_store := (file_store s)[unat f - 1 := patch (file_store s ! (unat f - 1)) (unat r) vs]\<rparr>)"
proof -
  define q :: u16 where "q = of_nat (length vs)"
  define bc :: u8 where "bc = of_nat (7 + 2 * length vs)"
  define rx where "rx = write_file_request f r vs"
  define e where "e = 9 + 2 * length vs"
  define fl where "fl = file_store s ! (unat f - 1)"
  have q: "unat q = length vs" using n by (simp add: q_def)
  have "vs \<noteq> []" using n by auto
  have bcn: "unat bc = 7 + 2 * length vs" unfolding bc_def using n by (intro unat_u8_of_nat) simp
  have rx: "rx = [0x15, bc, 0x06, hi8 f, lo8 f, hi8 r, lo8 r, hi8 q, lo8 q] @ be_bytes vs"
    by (simp add: rx_def write_file_request_def q_def bc_def)
  have g: "rd16 rx (2 + 7 + i * 2) = Some (vs ! i)" if "i < length vs" for i
    using word_at_be_bytes [OF that, of 9 "[0x15, bc, 0x06, hi8 f, lo8 f, hi8 r, lo8 r, hi8 q, lo8 q]"] that
    by (simp add: rd16_Some rx del: append.simps)
  have fl: "length fl = 128" "rd (file_store s) (unat f - 1) = Some fl"
    using f wf by (simp_all add: fl_def rd_Some slave_wfD)
  have vals: "map (\<lambda>i. the (rd16 rx (2 + 7 + i * 2))) [0..<length vs] = vs"
    by (rule nth_equalityI) (simp_all add: g [simplified])
  have loop: "for_n (unat q) (\<lambda>i fl. do { v \<leftarrow> rd16 rx (2 + 7 + i * 2); wr fl (unat r + i) v }) fl =
      Some (patch fl (unat r) vs)"
    using for_n_writes [where g = "\<lambda>i. rd16 rx (2 + 7 + i * 2)" and n = "length vs" and a = "unat r" and fl = fl]
      g n fl vals by (simp add: q patch_def)
  have "file_write_sub rx e 2 (file_store s) =
      Some (Inr (e, (file_store s)[unat f - 1 := patch fl (unat r) vs]))"
    using f n q file_index_nat [OF f] fl loop \<open>vs \<noteq> []\<close>
    by (simp add: file_write_sub_def e_def rx file_range_bound double_u16 word_cmp_nat Let_def)
  moreover have "2 < e \<and> e \<le> 257" using n by (simp add: e_def)
  moreover have "file_write_loop rx e e fs = Some (None, fs)" for fs
    by (subst file_write_loop.simps) simp
  ultimately have "file_write_loop rx e 2 (file_store s) =
      Some (None, (file_store s)[unat f - 1 := patch fl (unat r) vs])"
    by (subst file_write_loop.simps) simp
  moreover have "rd rx 1 = Some bc" "length rx = e" "hd rx = 0x15" "rx \<noteq> []" "2 + unat bc = e"
    by (simp_all add: rx e_def bcn)
  ultimately show ?thesis
    using n bcn \<open>vs \<noteq> []\<close> unfolding rx_def [symmetric]
    by (simp add: pdu_process_eq pdu_dispatch_def pdu_write_file_def word_cmp_nat fl_def e_def)
qed

lemma read_file_response:
  assumes wf: "slave_wf s" and f: "1 \<le> unat f" "unat f \<le> 4"
    and n: "1 \<le> unat n" "unat n \<le> 124" "unat r + unat n \<le> 128"
  shows "modbus_pdu_process hk (read_file_request f r n) False s =
    Some (MODBUS_OK, [0x14, of_nat (2 + 2 * unat n), of_nat (1 + 2 * unat n), 0x06] @
        be_bytes (take (unat n) (drop (unat r) (file_store s ! (unat f - 1)))), 4 + 2 * unat n, s)"
proof -
  define rx where "rx = read_file_request f r n"
  define fl where "fl = file_store s ! (unat f - 1)"
  have rx: "rx = [0x14, 7, 0x06, hi8 f, lo8 f, hi8 r, lo8 r, hi8 n, lo8 n]"
    by (simp add: rx_def read_file_request_def)
  have fl: "length fl = 128" "rd (file_store s) (unat f - 1) = Some fl"
    using f wf by (simp_all add: fl_def rd_Some slave_wfD)
  have span: "rd_span fl (unat r) (unat n) = Some (take (unat n) (drop (unat r) fl))"
    using n fl by (simp add: rd_span_Some)
  have "unat (1 + n * 2) = 1 + 2 * unat n" using n by (simp add: unat_word_ariths)
  then have "unat (ucast (1 + n * 2) :: u8) = 1 + 2 * unat n"
    using n by (simp add: unsigned_ucast_eq take_bit_nat_eq_self_iff)
  then have bc: "(ucast (1 + n * 2) :: u8) = of_nat (1 + 2 * unat n)" by (metis of_nat_unat ucast_id)
  have "file_read_loop rx (file_store s) 1 0 [] =
      Some (Inr ([of_nat (1 + 2 * unat n), 0x06] @ be_bytes (take (unat n) (drop (unat r) fl))))"
    using f n file_index_nat [OF f] fl span
    by (simp add: rx file_range_bound double_plus word_cmp_nat bc del: of_nat_add of_nat_mult)
  moreover have "rd rx 1 = Some 7" "length rx = 9" "hd rx = 0x14" "rx \<noteq> []"
    "unat (7 div 7 :: u8) = 1"
    by (simp_all add: rx)
  moreover have "length (take (unat n) (drop (unat r) fl)) = unat n" using n fl by simp
  ultimately show ?thesis
    unfolding rx_def [symmetric] fl_def [symmetric]
    by (simp add: pdu_process_eq pdu_dispatch_def pdu_read_file_def)
qed

section \<open>FIFO queues\<close>

definition fifo_contents :: "slave \<Rightarrow> nat \<Rightarrow> u16 list" where
  "fifo_contents s f = take (unat (fifo_len s ! f)) (fifo_store s ! f)"

lemma fifo_push_effect:
  assumes wf: "slave_wf s" and f: "unat f < 2"
  shows "fst (modbus_fifo_push f v s) \<longleftrightarrow> length (fifo_contents s (unat f)) < 31"
    and "fifo_contents (snd (modbus_fifo_push f v s)) (unat f) =
      (if length (fifo_contents s (unat f)) < 31 then fifo_contents s (unat f) @ [v] else fifo_contents s (unat f))"
    and "slave_wf (snd (modbus_fifo_push f v s))"
proof -
  define n where "n = fifo_len s ! unat f"
  have len: "unat n \<le> 31" "length (fifo_store s ! unat f) = 31"
    using slave_wfD(8,10) [OF wf f] by (simp_all add: n_def)
  have c: "length (fifo_contents s (unat f)) = unat n"
    using len by (simp add: fifo_contents_def n_def)
  have f': "\<not> 2 \<le> f" using f by (simp add: word_cmp_nat)
  show "fst (modbus_fifo_push f v s) \<longleftrightarrow> length (fifo_contents s (unat f)) < 31"
    using f' by (simp add: modbus_fifo_push_def c Let_def word_cmp_nat n_def)
  have n1: "unat (n + 1) = unat n + 1" using len by (simp add: unat_word_ariths)
  show "fifo_contents (snd (modbus_fifo_push f v s)) (unat f) =
      (if length (fifo_contents s (unat f)) < 31 then fifo_contents s (unat f) @ [v] else fifo_contents s (unat f))"
  proof (cases "unat n < 31")
    case True
    have "fifo_contents (snd (modbus_fifo_push f v s)) (unat f) =
        take (unat n + 1) ((fifo_store s ! unat f)[unat n := v])"
      using f f' True slave_wfD(7,9) [OF wf] n1
      by (simp add: modbus_fifo_push_def Let_def word_cmp_nat n_def [symmetric] fifo_contents_def)
    also have "\<dots> = take (unat n) (fifo_store s ! unat f) @ [v]"
      using True len by (simp add: take_Suc_conv_app_nth)
    finally show ?thesis using True by (simp add: c) (simp add: fifo_contents_def n_def)
  qed (use f' in \<open>simp add: c modbus_fifo_push_def Let_def word_cmp_nat n_def\<close>)
  show "slave_wf (snd (modbus_fifo_push f v s))"
    using wf f f' n1 len
    by (auto simp: slave_wf_def modbus_fifo_push_def Let_def word_cmp_nat n_def nth_list_update)
qed

lemma fifo_fill:
  assumes wf: "slave_wf s" and f: "unat f < 2"
  shows "slave_wf (fold (\<lambda>v t. snd (modbus_fifo_push f v t)) vs s) \<and>
    fifo_contents (fold (\<lambda>v t. snd (modbus_fifo_push f v t)) vs s) (unat f) =
      fifo_contents s (unat f) @ take (31 - length (fifo_contents s (unat f))) vs"
  using wf
proof (induction vs arbitrary: s)
  case Nil
  then show ?case by simp
next
  case (Cons v vs)
  have "length (fifo_contents s (unat f)) \<le> 31"
    using slave_wfD(10) [OF Cons.prems f] by (simp add: fifo_contents_def)
  with Cons.IH [OF fifo_push_effect(3) [OF Cons.prems f, of v]] fifo_push_effect(2) [OF Cons.prems f, of v]
  show ?case
    by (cases "length (fifo_contents s (unat f)) < 31")
      (auto simp: take_Cons' Suc_diff_Suc [symmetric])
qed

lemma read_fifo_response:
  assumes wf: "slave_wf s" and f: "unat f < 2"
  shows "modbus_pdu_process hk (0x18 # be_bytes [f]) False s =
    Some (MODBUS_OK, [0x18, 0x00, of_nat (2 + 2 * length (fifo_contents s (unat f))), 0x00,
        of_nat (length (fifo_contents s (unat f)))] @ be_bytes (fifo_contents s (unat f)),
      5 + 2 * length (fifo_contents s (unat f)), s)"
proof -
  define n where "n = fifo_len s ! unat f"
  have len: "unat n \<le> 31" "length (fifo_store s ! unat f) = 31"
    using slave_wfD(8,10) [OF wf f] by (simp_all add: n_def)
  have c: "length (fifo_contents s (unat f)) = unat n"
    using len by (simp add: fifo_contents_def n_def)
  have "rd (fifo_len s) (unat f) = Some n" "rd (fifo_store s) (unat f) = Some (fifo_store s ! unat f)"
    "rd_span (fifo_store s ! unat f) 0 (unat n) = Some (fifo_contents s (unat f))"
    using f len slave_wfD(7,9) [OF wf] by (simp_all add: rd_Some rd_span_Some n_def fifo_contents_def)
  moreover have "\<not> 2 \<le> f" using f by (simp add: word_cmp_nat)
  ultimately show ?thesis
    by (simp add: pdu_process_eq pdu_dispatch_def pdu_read_fifo_def c)
qed

section \<open>Errors\<close>

text \<open>A response whose first byte carries the exception bit.\<close>

definition is_exception :: "u8 list \<Rightarrow> bool" where
  "is_exception tx \<longleftrightarrow> tx \<noteq> [] \<and> bit (hd tx) 7"

lemma is_exception_Nil [simp]: "\<not> is_exception []"
  by (simp add: is_exception_def)

lemma is_exception_Cons [simp]: "is_exception (x # xs) \<longleftrightarrow> bit x 7"
  by (simp add: is_exception_def)

lemma exc_is_exception:
  "exc fc code s = Some (tx, len, s') \<Longrightarrow> is_exception tx \<and> s' = s \<and> len = 2"
  by (auto simp: exc_def modbus_exception_response_def bit_simps)

text \<open>A handler answers with an exception and an unchanged state, or with its function code first.\<close>

definition clean :: "u8 \<Rightarrow> slave \<Rightarrow> pdu_result option \<Rightarrow> bool" where
  "clean fc s r \<longleftrightarrow> (\<forall>tx len s'. r = Some (tx, len, s') \<longrightarrow> s' = s \<or> tx \<noteq> [] \<and> hd tx = fc)"

lemma clean_exc [simp]: "clean fc s (exc fc' code s)"
  by (auto simp: clean_def dest: exc_is_exception)

lemma clean_None [simp]: "clean fc s None"
  by (simp add: clean_def)

lemma clean_fc [simp]: "clean fc s (Some (fc # tx, len, s'))"
  by (simp add: clean_def)

lemma clean_same [simp]: "clean fc s (Some (tx, len, s))"
  by (simp add: clean_def)

lemma clean_if: "clean fc s a \<Longrightarrow> clean fc s b \<Longrightarrow> clean fc s (if c then a else b)"
  by simp

lemma clean_bind: "(\<And>x. m = Some x \<Longrightarrow> clean fc s (f x)) \<Longrightarrow> clean fc s (m \<bind> f)"
  by (cases m) auto

lemma clean_echo5 [simp]: "clean fc s (echo5 fc rx t)"
  unfolding echo5_def by (rule clean_bind) simp

lemmas clean_rules = clean_if clean_bind clean_exc clean_echo5

lemma clean_handlers:
  "clean fc s (pdu_read_bits fc a q rx s)"
  "clean fc s (pdu_read_regs fc a q rx s)"
  "clean fc s (pdu_write_coil hk fc a q rx s)"
  "clean fc s (pdu_write_reg hk fc a q rx s)"
  "clean fc s (pdu_write_coils hk fc a q rx s)"
  "clean fc s (pdu_write_regs hk fc a q rx s)"
  "clean fc s (pdu_exception_status fc rx s)"
  "clean fc s (pdu_read_file fc rx s)"
  "clean fc s (pdu_read_fifo fc rx s)"
  "clean fc s (pdu_read_write_regs hk fc rx s)"
  "clean fc s (pdu_device_id fc rx s)"
  unfolding pdu_read_bits_def pdu_read_regs_def pdu_write_coil_def pdu_write_reg_def pdu_write_coils_def
    pdu_write_regs_def pdu_exception_status_def pdu_read_file_def pdu_read_fifo_def pdu_read_write_regs_def
    pdu_device_id_def Let_def append.simps
  by (intro clean_rules | simp add: split_beta split: sum.split option.split)+

lemma clean_mask_write: "hd rx = fc \<Longrightarrow> clean fc s (pdu_mask_write hk fc a rx s)"
  unfolding pdu_mask_write_def Let_def
  by (intro clean_rules) (auto simp: clean_def rd_span_eq_Some_iff)

lemma clean_dispatch: "hd rx = fc \<Longrightarrow> fc \<noteq> 0x15 \<Longrightarrow> clean fc s (pdu_dispatch hk fc a q rx s)"
  by (simp add: pdu_dispatch_def clean_handlers clean_mask_write)

lemma dispatch_bit7: "bit fc 7 \<Longrightarrow> pdu_dispatch hk fc a q rx s = exc fc 0x01 s"
  by (auto simp: pdu_dispatch_def)

text \<open>
  Every exception response leaves the state as it was, except that FC 0x15 keeps the sub-requests
  it has already carried out.
\<close>

lemma exception_unchanged:
  assumes p: "modbus_pdu_process hk rx bc s = Some (MODBUS_OK, tx, len, s')" and "is_exception tx"
    and rx: "rx \<noteq> []" and "hd rx \<noteq> 0x15"
  shows "s' = s"
proof (cases "bit (hd rx) 7")
  case True
  with p rx show ?thesis by (auto simp: pdu_process_eq dispatch_bit7 exc_def split: if_splits)
next
  case False
  from clean_dispatch [OF refl assms(4), of s hk "fst (req_fields rx)" "snd (req_fields rx)"] False assms
  show ?thesis by (auto simp: pdu_process_eq clean_def is_exception_def split: if_splits)
qed

text \<open>An exception response is the function code with the top bit set, and the code, for every function.\<close>

definition shaped :: "u8 \<Rightarrow> pdu_result option \<Rightarrow> bool" where
  "shaped fc r \<longleftrightarrow> (\<forall>tx len s'. r = Some (tx, len, s') \<longrightarrow>
     tx \<noteq> [] \<and> hd tx = fc \<or> (\<exists>code. tx = [fc OR 0x80, code] \<and> len = 2))"

lemma shaped_base [simp]: "shaped fc (exc fc code s)" "shaped fc None" "shaped fc (Some (fc # tx, len, s))" "shaped fc (echo5 fc rx s)"
  by (auto simp: shaped_def exc_def modbus_exception_response_def echo5_def split: bind_splits)

lemma shaped_if: "shaped fc a \<Longrightarrow> shaped fc b \<Longrightarrow> shaped fc (if c then a else b)"
  by simp

lemma shaped_bind: "(\<And>x. m = Some x \<Longrightarrow> shaped fc (f x)) \<Longrightarrow> shaped fc (m \<bind> f)"
  by (cases m) auto

lemma devid_loop_head: "devid_loop oids (x # r) = Some t \<Longrightarrow> \<exists>ys. t = x # ys"
proof (induction oids arbitrary: r)
  case (Cons oid oids)
  then show ?case using Cons.IH by (fastforce split: option.splits if_splits)
qed auto

lemma shaped_devid [simp]:
  "shaped fc (case devid_loop oids (fc # r) of None \<Rightarrow> exc fc code s | Some resp \<Rightarrow> Some (resp, length resp, s))"
proof (cases "devid_loop oids (fc # r)")
  case (Some t)
  with devid_loop_head [OF Some] show ?thesis by auto
qed simp

lemmas shaped_rules = shaped_if shaped_bind shaped_base shaped_devid

lemma shaped_handlers:
  "shaped fc (pdu_read_bits fc a q rx s)"
  "shaped fc (pdu_read_regs fc a q rx s)"
  "shaped fc (pdu_write_coil hk fc a q rx s)"
  "shaped fc (pdu_write_reg hk fc a q rx s)"
  "shaped fc (pdu_write_coils hk fc a q rx s)"
  "shaped fc (pdu_write_regs hk fc a q rx s)"
  "shaped fc (pdu_exception_status fc rx s)"
  "shaped fc (pdu_read_file fc rx s)"
  "shaped fc (pdu_read_fifo fc rx s)"
  "shaped fc (pdu_read_write_regs hk fc rx s)"
  unfolding pdu_read_bits_def pdu_read_regs_def pdu_write_coil_def pdu_write_reg_def pdu_write_coils_def
    pdu_write_regs_def pdu_exception_status_def pdu_read_file_def pdu_read_fifo_def pdu_read_write_regs_def
    Let_def append.simps
  by (intro shaped_rules | simp add: split_beta split: sum.split option.split)+

lemma shaped_device_id: "shaped fc (pdu_device_id fc rx s)"
  unfolding pdu_device_id_def Let_def split_beta by (intro shaped_rules)

text \<open>The two functions that copy the request into the response.\<close>

lemma shaped_copies:
  "hd rx = fc \<Longrightarrow> shaped fc (pdu_mask_write hk fc a rx s)" "hd rx = fc \<Longrightarrow> rx \<noteq> [] \<Longrightarrow> shaped fc (pdu_write_file fc rx s)"
  unfolding pdu_mask_write_def pdu_write_file_def Let_def
  by (intro shaped_rules; auto simp: rd_span_eq_Some_iff shaped_def [of _ "Some _"])
    (intro shaped_rules; cases rx; auto simp: split_beta split: option.split)

lemma shaped_dispatch: "hd rx = fc \<Longrightarrow> rx \<noteq> [] \<Longrightarrow> shaped fc (pdu_dispatch hk fc a q rx s)"
  by (simp add: pdu_dispatch_def shaped_handlers shaped_device_id shaped_copies)

lemma pdu_exception_shape:
  assumes "modbus_pdu_process hk rx False s = Some (MODBUS_OK, tx, len, s')" and "is_exception tx"
    and "rx \<noteq> []" and "\<not> bit (hd rx) 7"
  shows "\<exists>code. tx = [hd rx OR 0x80, code] \<and> len = 2"
  using shaped_dispatch [OF refl assms(3), of hk "fst (req_fields rx)" "snd (req_fields rx)" s] assms
  by (auto simp: pdu_process_eq shaped_def is_exception_def split: if_splits)

section \<open>The properties of the PDU processor\<close>

text \<open>
  C1: On every non-empty request PDU and every well-formed state the slave terminates without
  reading or writing outside a buffer or table, returns OK, keeps the state well formed, never
  reports a response longer than the bytes it wrote or than the 253 bytes of a Modbus PDU, answers
  a unicast request with at least two bytes and a broadcast with none.
\<close>

theorem pdu_process_safe:
  assumes "slave_wf s" and "rx \<noteq> []"
  shows "\<exists>tx len s'. modbus_pdu_process default_hooks rx bc s = Some (MODBUS_OK, tx, len, s') \<and> slave_wf s' \<and>
    len \<le> length tx \<and> len \<le> 253 \<and> (bc \<longrightarrow> len = 0) \<and> (\<not> bc \<longrightarrow> 2 \<le> len)"
  using assms by (rule dflt.pdu_process_good)

lemma pdu_process_safe_witness:
  "\<exists>tx len s'. modbus_pdu_process default_hooks [0x03, 0, 0] False slave1 = Some (MODBUS_OK, tx, len, s') \<and> len \<le> 253"
  using pdu_process_safe [OF slave1_wf, of "[0x03, 0, 0]" False] by auto

text \<open>
  C28: Read Coils (FC 0x01) returns \<open>(q + 7) div 8\<close> bytes after the byte count; bit \<open>k\<close> of them is
  coil \<open>a + k\<close> for \<open>k < q\<close> and zero in the padding; the state does not change.
\<close>

theorem read_coils_correct:
  assumes "1 \<le> unat q" and "unat a + unat q \<le> 128"
  shows "\<exists>bits. modbus_pdu_process default_hooks (request 0x01 a q) False s =
      Some (MODBUS_OK, [0x01, of_nat ((unat q + 7) div 8)] @ bits, 2 + (unat q + 7) div 8, s) \<and>
    length bits = (unat q + 7) div 8 \<and>
    (\<forall>k < 8 * length bits. bit (bits ! (k div 8)) (k mod 8) \<longleftrightarrow>
       k < unat q \<and> modbus_read_coil s (a + of_nat k) = 1)"
  using assms by (rule read_coils_response)

lemma read_coils_correct_witness:
  "\<exists>bits. modbus_pdu_process default_hooks (request 0x01 3 10) False slave1 =
     Some (MODBUS_OK, [0x01, 2] @ bits, 4, slave1) \<and> length bits = 2"
  using read_coils_correct [of 10 3 slave1] by auto

text \<open>
  C29: Write Multiple Registers then Read Holding Registers: an accepted FC 0x10 is answered by the
  echo of address and quantity, replaces exactly the addressed stretch of the holding registers,
  and a following FC 0x03 of that stretch returns the values written.
\<close>

theorem write_read_registers:
  assumes "slave_wf s" and "1 \<le> length vs" "length vs \<le> 123" and "unat a + length vs \<le> 256"
  shows "\<exists>t. modbus_pdu_process default_hooks (write_regs_request a vs) False s =
      Some (MODBUS_OK, request 0x10 a (of_nat (length vs)), 5, t) \<and>
    holding_regs t = patch (holding_regs s) (unat a) vs \<and> coil_bits t = coil_bits s \<and> file_store t = file_store s \<and>
    modbus_pdu_process default_hooks (request 0x03 a (of_nat (length vs))) False t =
      Some (MODBUS_OK, [0x03, of_nat (2 * length vs)] @ be_bytes vs, 2 + 2 * length vs, t)"
proof -
  define t where "t = modbus_app_sync_registers (s\<lparr>holding_regs := patch (holding_regs s) (unat a) vs\<rparr>)"
  have "length vs < 65536" using assms(3) by simp
  then have q: "unat (of_nat (length vs) :: u16) = length vs" by simp
  have t: "slave_wf t" unfolding t_def
    by (rule slave_wf_app_sync) (use assms slave_wfD(1) in auto)
  have h: "holding_regs t = patch (holding_regs s) (unat a) vs" by (simp add: t_def)
  moreover have "take (length vs) (drop (unat a) (holding_regs t)) = vs"
    unfolding h by (rule patch_read) (use assms in \<open>simp add: slave_wfD\<close>)
  moreover have "modbus_pdu_process default_hooks (write_regs_request a vs) False s =
      Some (MODBUS_OK, request 0x10 a (of_nat (length vs)), 5, t)"
    using write_regs_effect [OF assms, of default_hooks] by (simp add: t_def request_def)
  ultimately show ?thesis
    using read_holding_response [OF t, of "of_nat (length vs)" a default_hooks] assms
    by (intro exI [of _ t]) (simp add: q t_def del: of_nat_mult)
qed

lemma write_read_registers_witness:
  "\<exists>t. modbus_pdu_process default_hooks (write_regs_request 0 [7, 9]) False slave1 =
      Some (MODBUS_OK, request 0x10 0 2, 5, t) \<and>
    modbus_pdu_process default_hooks (request 0x03 0 2) False t =
      Some (MODBUS_OK, [0x03, 4] @ be_bytes [7, 9], 6, t)"
  using write_read_registers [OF slave1_wf, of "[7, 9]" 0] by auto

text \<open>
  Write Multiple Coils (FC 0x0F) sets coil \<open>a + k\<close> to bit \<open>k\<close> of the packed data for \<open>k < q\<close>,
  ignores the padding bits, leaves every other coil and all holding registers alone, and echoes
  address and quantity.
\<close>

theorem write_coils_correct:
  assumes "slave_wf s" and "1 \<le> unat q" "unat a + unat q \<le> 128" and "length data = (unat q + 7) div 8"
  shows "\<exists>t. modbus_pdu_process default_hooks (write_coils_request a q data) False s =
      Some (MODBUS_OK, request 0x0F a q, 5, t) \<and> holding_regs t = holding_regs s \<and>
    (\<forall>b < 128. modbus_bit_read (coil_bits t) b =
       (if unat a \<le> unat b \<and> unat b < unat a + unat q
        then of_bool (bit (data ! ((unat b - unat a) div 8)) ((unat b - unat a) mod 8))
        else modbus_bit_read (coil_bits s) b))"
proof -
  obtain coils where "modbus_pdu_process default_hooks (write_coils_request a q data) False s =
      Some (MODBUS_OK, request 0x0F a q, 5, modbus_sync_registers default_hooks (s\<lparr>coil_bits := coils\<rparr>))"
    and "\<forall>b < 128. modbus_bit_read coils b =
       (if unat a \<le> unat b \<and> unat b < unat a + unat q
        then of_bool (bit (data ! ((unat b - unat a) div 8)) ((unat b - unat a) mod 8))
        else modbus_bit_read (coil_bits s) b)"
    using write_coils_effect [OF assms, of default_hooks] by blast
  then show ?thesis
    by (intro exI [of _ "modbus_app_sync_registers (s\<lparr>coil_bits := coils\<rparr>)"]) simp
qed

lemma write_coils_correct_witness:
  "\<exists>t. modbus_pdu_process default_hooks (write_coils_request 8 4 [0x0B]) False slave1 =
    Some (MODBUS_OK, request 0x0F 8 4, 5, t) \<and> modbus_bit_read (coil_bits t) 11 = 1"
  using write_coils_correct [OF slave1_wf, of 4 8 "[0x0B]"] by fastforce

text \<open>
  Mask Write Register (FC 0x16) keeps the register's bit where the AND mask is one and takes
  the OR mask's bit elsewhere, changes no other register, and echoes the request.
\<close>

theorem mask_write_correct:
  assumes "slave_wf s" and "unat a < 256"
  shows "\<exists>t v. modbus_pdu_process default_hooks (mask_write_request a am om) False s =
      Some (MODBUS_OK, mask_write_request a am om, 7, t) \<and>
    holding_regs t = (holding_regs s)[unat a := v] \<and>
    (\<forall>i < 16. bit v i \<longleftrightarrow> (if bit am i then bit (holding_regs s ! unat a) i else bit om i))"
proof -
  obtain v where "modbus_pdu_process default_hooks (mask_write_request a am om) False s =
      Some (MODBUS_OK, mask_write_request a am om, 7,
        modbus_sync_registers default_hooks (s\<lparr>holding_regs := (holding_regs s)[unat a := v]\<rparr>))"
    and v: "\<forall>i < 16. bit v i \<longleftrightarrow> (if bit am i then bit (holding_regs s ! unat a) i else bit om i)"
    using mask_write_effect [OF assms, of default_hooks] by blast
  then show ?thesis
    by (intro exI [of _ "modbus_app_sync_registers (s\<lparr>holding_regs := (holding_regs s)[unat a := v]\<rparr>)"]
        exI [of _ v]) simp
qed

lemma mask_write_correct_witness:
  "\<exists>t v. modbus_pdu_process default_hooks (mask_write_request 4 0xF2 0x25) False slave1 =
      Some (MODBUS_OK, mask_write_request 4 0xF2 0x25, 7, t) \<and> holding_regs t = (replicate 256 0)[4 := v]"
  using mask_write_correct [OF slave1_wf, where a = 4 and am = "0xF2" and om = "0x25"] by fastforce

text \<open>
  Read/Write Multiple Registers (FC 0x17) performs its write before its read: the response
  carries the addressed stretch of the updated table.
\<close>

theorem read_write_registers_order:
  assumes "slave_wf s"
    and "1 \<le> unat rq" "unat rq \<le> 125" "unat ra + unat rq \<le> 256"
    and "1 \<le> length vs" "length vs \<le> 121" "unat wa + length vs \<le> 256"
  shows "\<exists>t. modbus_pdu_process default_hooks (rw_regs_request ra rq wa vs) False s =
      Some (MODBUS_OK, [0x17, of_nat (2 * unat rq)] @
          be_bytes (take (unat rq) (drop (unat ra) (patch (holding_regs s) (unat wa) vs))), 2 + unat rq * 2, t) \<and>
    holding_regs t = patch (holding_regs s) (unat wa) vs"
proof -
  define t where "t = modbus_sync_registers default_hooks (s\<lparr>holding_regs := patch (holding_regs s) (unat wa) vs\<rparr>)"
  have h: "holding_regs t = patch (holding_regs s) (unat wa) vs"
    unfolding t_def dflt.written_simps by simp
  moreover have "length (holding_regs t) = 256"
    using assms(1,7) by (simp add: h slave_wfD)
  ultimately show ?thesis
    using rw_regs_effect_aux [OF assms t_def] by auto
qed

lemma read_write_registers_order_witness:
  "\<exists>t. modbus_pdu_process default_hooks (rw_regs_request 10 2 11 [5]) False slave1 =
      Some (MODBUS_OK, [0x17, 4] @ be_bytes (take 2 (drop 10 (patch (replicate 256 0) 11 [5]))), 6, t)"
  using read_write_registers_order [OF slave1_wf, where rq = 2 and ra = 10 and vs = "[5]" and wa = 11] by auto

text \<open>
  C31: File records round trip: data written by FC 0x15 to records \<open>r..\<close> of file \<open>f\<close> is what a
  following FC 0x14 of those records returns, for every stretch that fits the file and the frame;
  the write is answered by its echo and touches no register or coil.
\<close>

theorem file_record_roundtrip:
  assumes "slave_wf s" and "1 \<le> unat f" "unat f \<le> 4"
    and "1 \<le> length vs" "length vs \<le> 122" "unat r + length vs \<le> 128"
  shows "\<exists>t. modbus_pdu_process default_hooks (write_file_request f r vs) False s =
      Some (MODBUS_OK, write_file_request f r vs, 9 + 2 * length vs, t) \<and>
    holding_regs t = holding_regs s \<and> coil_bits t = coil_bits s \<and>
    modbus_pdu_process default_hooks (read_file_request f r (of_nat (length vs))) False t =
      Some (MODBUS_OK, [0x14, of_nat (2 + 2 * length vs), of_nat (1 + 2 * length vs), 0x06] @ be_bytes vs,
        4 + 2 * length vs, t)"
proof -
  define fl where "fl = file_store s ! (unat f - 1)"
  define t where "t = s\<lparr>file_store := (file_store s)[unat f - 1 := patch fl (unat r) vs]\<rparr>"
  have i: "unat f - 1 < 4" using assms(2,3) by arith
  then have fl: "length fl = 128" using assms(1) by (simp add: fl_def slave_wfD)
  have "slave_wf t" unfolding t_def
    using assms(1,6) fl slave_wfD(5,6) [OF assms(1)] i
    by (intro slave_wf_files) (auto simp: nth_list_update split: if_splits)
  moreover have "length vs < 65536" using assms by simp
  then have q: "unat (of_nat (length vs) :: u16) = length vs" by simp
  moreover have "take (length vs) (drop (unat r) (file_store t ! (unat f - 1))) = vs"
    using i assms(6) fl slave_wfD(5) [OF assms(1)] by (simp add: t_def patch_read)
  ultimately show ?thesis
    using write_file_effect [OF assms, of default_hooks] assms
      read_file_response [of t f "of_nat (length vs)" r default_hooks]
    by (intro exI [of _ t]) (simp add: t_def fl_def del: of_nat_mult of_nat_add)
qed

lemma file_record_roundtrip_witness:
  "\<exists>t. modbus_pdu_process default_hooks (write_file_request 2 126 [0xBEEF, 7]) False slave1 =
      Some (MODBUS_OK, write_file_request 2 126 [0xBEEF, 7], 13, t) \<and>
    modbus_pdu_process default_hooks (read_file_request 2 126 2) False t =
      Some (MODBUS_OK, [0x14, 6, 5, 0x06] @ be_bytes [0xBEEF, 7], 8, t)"
  using file_record_roundtrip [OF slave1_wf, of 2 "[0xBEEF, 7]" 126] by auto

text \<open>
  C32: The FIFO queues keep the first 31 pushed values in order: after any sequence of pushes to an
  empty queue, Read FIFO Queue (FC 0x18) reports the first 31 of them, oldest first, with their
  count, and does not consume them.
\<close>

theorem fifo_order:
  assumes "slave_wf s" and "unat f < 2" and "fifo_len s ! unat f = 0"
    and "t = fold (\<lambda>v t. snd (modbus_fifo_push f v t)) vs s"
  shows "modbus_pdu_process default_hooks (0x18 # be_bytes [f]) False t =
    Some (MODBUS_OK, [0x18, 0x00, of_nat (2 + 2 * length (take 31 vs)), 0x00, of_nat (length (take 31 vs))] @
      be_bytes (take 31 vs), 5 + 2 * length (take 31 vs), t)"
proof -
  have e: "fifo_contents s (unat f) = []" using assms(3) by (simp add: fifo_contents_def)
  have "slave_wf t" and c: "fifo_contents t (unat f) = take 31 vs"
    using fifo_fill [OF assms(1,2), of vs] by (simp_all add: e assms(4))
  from read_fifo_response [OF this(1) assms(2), of default_hooks] show ?thesis
    unfolding c .
qed

lemma fifo_order_witness:
  "\<exists>t. modbus_pdu_process default_hooks (0x18 # be_bytes [1]) False t =
     Some (MODBUS_OK, [0x18, 0x00, 6, 0x00, 2] @ be_bytes [5, 6], 9, t)"
  using fifo_order [OF slave1_wf, of 1 _ "[5, 6]", OF _ _ refl] by auto

text \<open>
  C33: An exception response leaves the whole slave state as it was, for every function but Write
  File Record.
\<close>

theorem exception_keeps_state:
  assumes "modbus_pdu_process hk rx bc s = Some (MODBUS_OK, tx, len, s')" and "is_exception tx"
    and "rx \<noteq> []" and "hd rx \<noteq> 0x15"
  shows "s' = s"
  using assms by (rule exception_unchanged)

lemma exception_keeps_state_witness:
  "\<exists>s'. modbus_pdu_process default_hooks [0x63] False slave1 = Some (MODBUS_OK, [0xE3, 0x01], 2, s') \<and> s' = slave1"
proof -
  have "modbus_pdu_process default_hooks [0x63] False slave1 = Some (MODBUS_OK, [0xE3, 0x01], 2, slave1)"
    by (simp add: pdu_process_eq pdu_dispatch_def exc_def modbus_exception_response_def)
  from exception_keeps_state [OF this] this show ?thesis by (simp add: is_exception_def)
qed

definition half_bad_request :: "u8 list" where
  "half_bad_request = [0x15, 18, 0x06, 0, 1, 0, 0, 0, 1, 0xBE, 0xEF, 0x07, 0, 1, 0, 0, 0, 1, 0, 0]"

lemma slave1_files: "file_store slave1 = replicate 4 (replicate 128 0)"
  unfolding slave1_def by (rule rtu_init_state(4) [OF boot_power_up])

lemma half_bad_loop:
  assumes "length (fs ! 0) = 128" and "length fs = 4"
  shows "file_write_loop half_bad_request 20 2 fs = Some (Some 0x03, fs[0 := (fs ! 0)[0 := 0xBEEF]])"
proof -
  have v: "be16 0 1 = 1" "be16 0 0 = 0" "be16 0xBE 0xEF = 0xBEEF"
    by (simp_all add: be16_def)
  have "fs ! 0 \<noteq> []" using assms(1) by force
  have "file_write_sub half_bad_request 20 2 fs = Some (Inr (11, fs[0 := (fs ! 0)[0 := 0xBEEF]]))"
    using assms \<open>fs ! 0 \<noteq> []\<close> by (simp add: file_write_sub_def half_bad_request_def v modbus_file_index_valid_def
        modbus_file_range_valid_def rd_def wr_def)
  moreover have "file_write_sub half_bad_request 20 11 fs' = Some (Inl 0x03)" for fs'
    by (simp add: file_write_sub_def half_bad_request_def v)
  ultimately show ?thesis
    by (subst file_write_loop.simps, simp, subst file_write_loop.simps, simp)
qed

text \<open>
  Write File Record is not atomic: a request whose first sub-request is valid and whose second
  has a wrong reference type is answered with exception 03, yet the first sub-request's data stays
  written.
\<close>

theorem file_write_not_atomic:
  "\<exists>t. modbus_pdu_process default_hooks half_bad_request False slave1 = Some (MODBUS_OK, [0x95, 0x03], 2, t) \<and>
    file_store slave1 ! 0 ! 0 = 0 \<and> file_store t ! 0 ! 0 = 0xBEEF"
proof -
  have "length (file_store slave1 ! 0) = 128" "length (file_store slave1) = 4"
    by (simp_all add: slave1_files)
  from half_bad_loop [OF this] have
    "file_write_loop half_bad_request 20 2 (file_store slave1) =
      Some (Some 0x03, (file_store slave1)[0 := (file_store slave1 ! 0)[0 := 0xBEEF]])" .
  moreover have "hd half_bad_request = 0x15" "length half_bad_request = 20" "rd half_bad_request 1 = Some 18"
    "half_bad_request \<noteq> []"
    by (simp_all add: half_bad_request_def)
  ultimately have "modbus_pdu_process default_hooks half_bad_request False slave1 = Some (MODBUS_OK, [0x95, 0x03], 2,
      slave1\<lparr>file_store := (file_store slave1)[0 := (file_store slave1 ! 0)[0 := 0xBEEF]]\<rparr>)"
    by (simp add: pdu_process_eq pdu_dispatch_def pdu_write_file_def exc_def modbus_exception_response_def)
  then show ?thesis by (simp add: slave1_files)
qed

end
