(* ===== verification/Slave_Rtu.thy ===== *)
theory Slave_Rtu
  imports Slave_Pdu_Spec
begin

text \<open>
  The serial transport of the slave, \<open>modbus_rtu_process\<close> of \<open>src/modbus.c\<close>: frame check, address
  filter, the functions that exist on the serial line only, bookkeeping, and the response frame.
  \<open>None\<close> is an access out of bounds; the response frame is the byte list, empty when nothing is
  sent (\<open>*tx_len = 0\<close>).
\<close>

section \<open>The frame processor\<close>

text \<open>Reading the zero-initialised buffer \<open>tx_pdu\<close> of which the handler wrote a prefix.\<close>

definition tx_byte :: "u8 list \<Rightarrow> nat \<Rightarrow> u8" where
  "tx_byte tx i = (if i < length tx then tx ! i else 0)"

definition is_fetch :: "u8 \<Rightarrow> bool" where
  "is_fetch fc \<longleftrightarrow> fc = MODBUS_FC_GET_COMM_EVENT_COUNTER \<or> fc = MODBUS_FC_GET_COMM_EVENT_LOG"

definition resets_events :: "u8 list \<Rightarrow> bool option" where
  "resets_events rx_pdu = do {
     fc \<leftarrow> rd rx_pdu 0;
     if fc = MODBUS_FC_DIAGNOSTICS \<and> length rx_pdu \<ge> 3 then do {
       sub \<leftarrow> rd16 rx_pdu 1;
       Some (sub = MODBUS_DIAG_SUB_RESTART_COMM \<or> sub = MODBUS_DIAG_SUB_CLEAR_COUNTERS)
     } else Some False
   }"

text \<open>The dispatch to the serial-only functions and the shared PDU processor.\<close>

definition rtu_serve ::
    "modbus_sync_hooks \<Rightarrow> u8 list \<Rightarrow> bool \<Rightarrow> slave \<Rightarrow> (modbus_status \<times> u8 list \<times> nat \<times> slave) option" where
  "rtu_serve hk rx_pdu is_broadcast s = do {
     fc \<leftarrow> rd rx_pdu 0;
     let listen = modbus_diag_listen_only (s_diag s);
     if fc = MODBUS_FC_DIAGNOSTICS then do {
       (t, d, e) \<leftarrow> modbus_diag_process rx_pdu is_broadcast (s_diag s, s_events s);
       Some (MODBUS_OK, t, length t, s\<lparr>s_diag := d, s_events := e\<rparr>)
     }
     else if is_fetch fc then
       (if listen then Some (MODBUS_OK, [], 0, s)
        else do {
          let message_count = modbus_diag_counter_read (s_diag s) MODBUS_DIAG_SUB_SLAVE_MESSAGE_COUNT;
          t \<leftarrow> modbus_event_process message_count (s_events s) rx_pdu is_broadcast;
          Some (MODBUS_OK, t, length t, s)
        })
     else if fc = MODBUS_FC_REPORT_SERVER_ID then
       (if listen \<or> is_broadcast then Some (MODBUS_OK, [], 0, s)
        else let t = modbus_report_server_id_process (length rx_pdu) in Some (MODBUS_OK, t, length t, s))
     else if listen then Some (MODBUS_OK, [], 0, s)
     else modbus_pdu_process hk rx_pdu is_broadcast s
   }"

text \<open>The counters and the event log after a message addressed to this slave.\<close>

definition rtu_bookkeeping :: "u8 \<Rightarrow> bool \<Rightarrow> bool \<Rightarrow> u8 list \<Rightarrow> nat \<Rightarrow> slave \<Rightarrow> slave" where
  "rtu_bookkeeping fc resets is_broadcast tx_pdu tx_pdu_len s =
     (let responded = tx_pdu_len > 0;
          exception_raised = tx_byte tx_pdu 0 AND 0x80 \<noteq> 0;
          broadcast_executed = is_broadcast \<and> tx_byte tx_pdu 0 \<noteq> 0;
          s = s\<lparr>s_diag := modbus_diag_note_result responded (responded \<and> exception_raised) (s_diag s)\<rparr>;
          s = (if \<not> is_fetch fc \<and> responded then
                 s\<lparr>s_events := modbus_event_note_tx (if exception_raised then tx_byte tx_pdu 1 else 0) (s_events s)\<rparr>
               else s)
      in if \<not> is_fetch fc \<and> \<not> exception_raised \<and> \<not> resets \<and> \<not> modbus_diag_listen_only (s_diag s) \<and>
            (responded \<or> broadcast_executed)
         then s\<lparr>s_events := modbus_event_note_success (s_events s)\<rparr> else s)"

definition modbus_rtu_process ::
    "modbus_sync_hooks \<Rightarrow> u8 list \<Rightarrow> slave \<Rightarrow> (modbus_status \<times> u8 list \<times> slave) option" where
  "modbus_rtu_process hk rx_buf s =
     (if length rx_buf < 4 \<or> length rx_buf > MODBUS_RTU_FRAME_MAX then Some (MODBUS_ERROR, [], s)
      else do {
        c1 \<leftarrow> rd rx_buf (length rx_buf - 1);
        c2 \<leftarrow> rd rx_buf (length rx_buf - 2);
        body \<leftarrow> rd_span rx_buf 0 (length rx_buf - 2);
        if be16 c1 c2 \<noteq> modbus_crc16 body then
          (let (d, e) = modbus_diag_note_comm_error (s_diag s, s_events s)
           in Some (MODBUS_CRC_ERROR, [], s\<lparr>s_diag := d, s_events := e\<rparr>))
        else do {
          let s = s\<lparr>s_diag := modbus_diag_note_bus_message (s_diag s)\<rparr>;
          slave_addr \<leftarrow> rd rx_buf 0;
          if slave_addr \<noteq> modbus_slave_id s \<and> slave_addr \<noteq> 0 then Some (MODBUS_OK, [], s)
          else do {
            let s = s\<lparr>s_diag := modbus_diag_note_slave_message (s_diag s)\<rparr>;
            let is_broadcast = (slave_addr = 0);
            rx_pdu \<leftarrow> rd_span rx_buf 1 (length rx_buf - 3);
            fc \<leftarrow> rd rx_pdu 0;
            resets \<leftarrow> resets_events rx_pdu;
            (status, tx_pdu, tx_pdu_len, s) \<leftarrow> rtu_serve hk rx_pdu is_broadcast s;
            if status \<noteq> MODBUS_OK then Some (status, [], s)
            else
              let s = rtu_bookkeeping fc resets is_broadcast tx_pdu tx_pdu_len s in
              if tx_pdu_len = 0 then Some (MODBUS_OK, [], s)
              else if tx_pdu_len > 253 \<or> 1 + tx_pdu_len + 2 > MODBUS_RTU_FRAME_MAX then Some (MODBUS_ERROR, [], s)
              else
                let tx_buf = modbus_slave_id s # map (tx_byte tx_pdu) [0..<tx_pdu_len];
                    tx_crc = modbus_crc16 tx_buf
                in Some (MODBUS_OK, tx_buf @ [lo8 tx_crc, hi8 tx_crc], s)
          }
        }
      })"

section \<open>Well-formedness of the bookkeeping\<close>

lemma slave_wf_diag [simp]: "slave_wf (s\<lparr>s_diag := d\<rparr>) = slave_wf s"
  by (simp add: slave_wf_def)

lemma slave_wf_events [simp]: "slave_wf s \<Longrightarrow> event_wf e \<Longrightarrow> slave_wf (s\<lparr>s_events := e\<rparr>)"
  by (simp add: slave_wf_def)

lemma slave_wf_bookkeeping [simp]: "slave_wf s \<Longrightarrow> slave_wf (rtu_bookkeeping fc r bc tx n s)"
  by (simp add: rtu_bookkeeping_def Let_def slave_wfD)

lemma server_id_length: "length modbus_server_id = 22"
  by (simp add: modbus_server_id_def str_bytes_def)

lemma report_server_id_length [simp]: "length (modbus_report_server_id_process n) \<le> 253"
  by (simp add: modbus_report_server_id_process_def modbus_exception_response_def server_id_length Let_def)

lemma take_map_tx_byte: "n \<le> length tx \<Longrightarrow> map (tx_byte tx) [0..<n] = take n tx"
  by (intro nth_equalityI) (auto simp: tx_byte_def)

text \<open>A frame that passes the checks, taken apart: address, PDU, checksum.\<close>

definition rtu_frame :: "u8 \<Rightarrow> u8 list \<Rightarrow> u8 list" where
  "rtu_frame addr pdu = rtu_seal modbus_crc16 (addr # pdu)"

lemma rtu_frame_parts:
  assumes "pdu \<noteq> []"
  shows "length (rtu_frame a pdu) = 3 + length pdu"
    and "rd (rtu_frame a pdu) 0 = Some a"
    and "rd_span (rtu_frame a pdu) 0 (length (rtu_frame a pdu) - 2) = Some (a # pdu)"
    and "rd_span (rtu_frame a pdu) 1 (length (rtu_frame a pdu) - 3) = Some pdu"
    and "rd (rtu_frame a pdu) (length (rtu_frame a pdu) - 1) = Some (hi8 (modbus_crc16 (a # pdu)))"
    and "rd (rtu_frame a pdu) (length (rtu_frame a pdu) - 2) = Some (lo8 (modbus_crc16 (a # pdu)))"
  by (simp_all add: rtu_frame_def rtu_seal_def rd_def rd_span_Some nth_append)

lemma rtu_frame_cases:
  assumes "4 \<le> length rx" and "rtu_check modbus_crc16 rx"
  obtains a pdu where "rx = rtu_frame a pdu" "pdu \<noteq> []" "length rx = 3 + length pdu"
proof -
  obtain body where b: "rx = rtu_seal modbus_crc16 body"
  proof
    show "rx = rtu_seal modbus_crc16 (take (length rx - 2) rx)"
      by (rule mb_crc.seal_of_check [OF assms(2)]) (use assms(1) in linarith)
  qed
  then have "2 \<le> length body" using assms(1) by simp
  then obtain a pdu where "body = a # pdu" "pdu \<noteq> []"
    by (cases body) (auto simp: Suc_le_eq)
  with b show ?thesis by (intro that [of a pdu]) (simp_all add: rtu_frame_def)
qed

text \<open>The frame processor on a good frame for this slave.\<close>

definition noted :: "slave \<Rightarrow> slave" where
  "noted s = s\<lparr>s_diag := modbus_diag_note_slave_message (modbus_diag_note_bus_message (s_diag s))\<rparr>"

lemma noted_simps [simp]:
  "modbus_slave_id (noted s) = modbus_slave_id s"
  "s_events (noted s) = s_events s"
  "slave_wf (noted s) = slave_wf s"
  "s_listen_only (s_diag (noted s)) = s_listen_only (s_diag s)"
  "holding_regs (noted s) = holding_regs s"
  "coil_bits (noted s) = coil_bits s"
  by (simp_all add: noted_def modbus_diag_note_slave_message_def modbus_diag_note_bus_message_def)

lemma resets_events_Some: "pdu \<noteq> [] \<Longrightarrow> \<exists>r. resets_events pdu = Some r"
  by (cases pdu) (auto simp: resets_events_def rd16_Some)

lemma rtu_process_frame:
  assumes pdu: "pdu \<noteq> []" "length pdu \<le> 253" and a: "a = modbus_slave_id s \<or> a = 0"
    and serve: "rtu_serve hk pdu (a = 0) (noted s) = Some (MODBUS_OK, tx, n, t)"
    and n: "n \<le> length tx" "n \<le> 253"
    and r: "resets_events pdu = Some r"
    and u: "u = rtu_bookkeeping (hd pdu) r (a = 0) tx n t"
  shows "modbus_rtu_process hk (rtu_frame a pdu) s =
    Some (MODBUS_OK, if n = 0 then [] else rtu_frame (modbus_slave_id u) (take n tx), u)"
proof -
  have "rd pdu 0 = Some (hd pdu)" using pdu by (cases pdu) auto
  with assms rtu_frame_parts [OF pdu(1), of a] show ?thesis
    by (auto simp: modbus_rtu_process_def Let_def noted_def [symmetric] take_map_tx_byte)
      (simp_all add: rtu_frame_def rtu_seal_def)
qed

lemma rtu_process_foreign:
  assumes pdu: "pdu \<noteq> []" "length pdu \<le> 253" and a: "a \<noteq> modbus_slave_id s" "a \<noteq> 0"
  shows "modbus_rtu_process hk (rtu_frame a pdu) s =
    Some (MODBUS_OK, [], s\<lparr>s_diag := modbus_diag_note_bus_message (s_diag s)\<rparr>)"
  using assms rtu_frame_parts [OF pdu(1), of a]
  by (simp add: modbus_rtu_process_def Let_def)

lemma rtu_process_bad_length:
  "length rx < 4 \<or> 256 < length rx \<Longrightarrow> modbus_rtu_process hk rx s = Some (MODBUS_ERROR, [], s)"
  by (auto simp: modbus_rtu_process_def)

lemma rtu_process_bad_crc:
  assumes "4 \<le> length rx" "length rx \<le> 256" "\<not> rtu_check modbus_crc16 rx"
  shows "modbus_rtu_process hk rx s =
    (let (d, e) = modbus_diag_note_comm_error (s_diag s, s_events s)
     in Some (MODBUS_CRC_ERROR, [], s\<lparr>s_diag := d, s_events := e\<rparr>))"
  using assms by (simp add: modbus_rtu_process_def rd_Some rd_span_Some rtu_check_def)

section \<open>Totality\<close>

context sync_hooks
begin

lemma rtu_serve_total:
  assumes "slave_wf s" and "pdu \<noteq> []"
  shows "\<exists>tx n t. rtu_serve hk pdu bc s = Some (MODBUS_OK, tx, n, t) \<and> slave_wf t \<and> n \<le> length tx \<and> n \<le> 253"
proof -
  have fc: "rd pdu 0 = Some (hd pdu)" using assms(2) by (cases pdu) auto
  have ev: "event_wf (s_events s)" using assms(1) by (rule slave_wfD)
  obtain td d e where diag: "modbus_diag_process pdu bc (s_diag s, s_events s) = Some (td, d, e)"
      "length td \<le> 5" "event_wf e"
    using diag_process_total [OF ev] by blast
  obtain te where event: "modbus_event_process (modbus_diag_counter_read (s_diag s) 0x000E) (s_events s) pdu bc = Some te"
      "length te \<le> 72"
    using event_process_total [OF ev] by blast
  obtain tp n t where pdu: "modbus_pdu_process hk pdu bc s = Some (MODBUS_OK, tp, n, t)" "slave_wf t"
      "n \<le> length tp" "n \<le> 253"
    using pdu_process_good [OF assms] by blast
  consider "hd pdu = 0x08" | "hd pdu \<noteq> 0x08" "is_fetch (hd pdu)" | "hd pdu = 0x11"
    | "hd pdu \<noteq> 0x08" "\<not> is_fetch (hd pdu)" "hd pdu \<noteq> 0x11" by blast
  then show ?thesis
  proof cases
    case 1
    with fc diag assms show ?thesis by (simp add: rtu_serve_def)
  next
    case 2
    with fc event assms show ?thesis by (simp add: rtu_serve_def)
  next
    case 3
    with fc assms show ?thesis by (simp add: rtu_serve_def is_fetch_def Let_def)
  next
    case 4
    with fc pdu assms show ?thesis by (simp add: rtu_serve_def)
  qed
qed

lemma rtu_process_total:
  assumes wf: "slave_wf s"
  shows "\<exists>st tx t. modbus_rtu_process hk rx s = Some (st, tx, t) \<and> slave_wf t \<and> length tx \<le> 256 \<and>
    (tx \<noteq> [] \<longrightarrow> rtu_check modbus_crc16 tx)"
proof -
  consider "length rx < 4 \<or> 256 < length rx" | "4 \<le> length rx" "length rx \<le> 256" "\<not> rtu_check modbus_crc16 rx"
    | "4 \<le> length rx" "length rx \<le> 256" "rtu_check modbus_crc16 rx" by linarith
  then show ?thesis
  proof cases
    case 1
    with wf show ?thesis by (simp add: rtu_process_bad_length)
  next
    case 2
    with wf show ?thesis
      by (simp add: rtu_process_bad_crc modbus_diag_note_comm_error_def slave_wfD)
  next
    case 3
    from rtu_frame_cases [OF 3(1,3)] obtain a pdu where rx: "rx = rtu_frame a pdu" "pdu \<noteq> []" "length rx = 3 + length pdu" .
    then have len: "length pdu \<le> 253" using 3 by simp
    show ?thesis
    proof (cases "a = modbus_slave_id s \<or> a = 0")
      case False
      with rx len wf show ?thesis by (simp add: rtu_process_foreign)
    next
      case True
      from rtu_serve_total [of "noted s" pdu "a = 0"] wf rx(2) obtain tx n t where
        t: "rtu_serve hk pdu (a = 0) (noted s) = Some (MODBUS_OK, tx, n, t)" "slave_wf t" "n \<le> length tx" "n \<le> 253"
        by auto
      obtain r where r: "resets_events pdu = Some r" using resets_events_Some [OF rx(2)] by blast
      from rtu_process_frame [OF rx(2) len True t(1,3,4) r refl] t rx(1) show ?thesis
        by (auto simp: rtu_frame_def mb_crc.check_seal)
    qed
  qed
qed

end

section \<open>Bookkeeping and silence\<close>

text \<open>The part of the state an application sees.\<close>

definition same_app :: "slave \<Rightarrow> slave \<Rightarrow> bool" where
  "same_app s t \<longleftrightarrow>
     holding_regs s = holding_regs t \<and> input_regs s = input_regs t \<and> coil_bits s = coil_bits t \<and>
     discrete_bits s = discrete_bits t \<and> file_store s = file_store t \<and> fifo_store s = fifo_store t \<and>
     fifo_len s = fifo_len t \<and> s_board s = s_board t \<and> modbus_slave_id s = modbus_slave_id t"

lemma same_app_refl [simp]: "same_app s s"
  by (simp add: same_app_def)

lemma same_app_trans: "same_app s t \<Longrightarrow> same_app t u \<Longrightarrow> same_app s u"
  by (simp add: same_app_def)

lemma same_app_book [simp]: "same_app (rtu_bookkeeping fc r bc tx n s) s" "same_app (noted s) s"
  "same_app (s\<lparr>s_diag := d\<rparr>) s" "same_app (s\<lparr>s_events := e\<rparr>) s"
  by (simp_all add: same_app_def rtu_bookkeeping_def noted_def Let_def)

lemma book_tables [simp]:
  "holding_regs (rtu_bookkeeping fc r bc tx n s) = holding_regs s"
  "coil_bits (rtu_bookkeeping fc r bc tx n s) = coil_bits s"
  "modbus_slave_id (rtu_bookkeeping fc r bc tx n s) = modbus_slave_id s"
  by (simp_all add: rtu_bookkeeping_def Let_def)

text \<open>
  The comm event counter of FC 0x0B: a normal response or an executed broadcast adds one, an
  exception, a fetch and the counter resets do not.
\<close>

lemma bookkeeping_counter:
  "s_event_counter (s_events (rtu_bookkeeping fc resets bc tx n s)) =
    s_event_counter (s_events s) +
    (if \<not> is_fetch fc \<and> \<not> bit (tx_byte tx 0) 7 \<and> \<not> resets \<and> \<not> s_listen_only (s_diag s) \<and>
        (0 < n \<or> bc \<and> tx_byte tx 0 \<noteq> 0) then 1 else 0)"
proof -
  have "(tx_byte tx 0 AND 0x80 \<noteq> 0) = bit (tx_byte tx 0) 7"
    using bit_iff_and_push_bit_not_eq_0 [of "tx_byte tx 0" 7] by simp
  then show ?thesis
    by (auto simp: rtu_bookkeeping_def Let_def modbus_diag_note_result_def modbus_diag_listen_only_def)
qed

text \<open>Listen-only mode: the port serves nothing but the restart request, and the tables do not move.\<close>

lemma listen_only_serve:
  assumes listen: "s_listen_only (s_diag s)" and serve: "rtu_serve hk pdu bc s = Some (st, tx, n, t)"
  shows "same_app t s \<and> st = MODBUS_OK \<and> n \<le> length tx \<and> n \<le> 253 \<and>
    (n = 0 \<or> take n tx = modbus_diag_exception 0x03 \<and> rd pdu 0 = Some 0x08 \<and> rd16 pdu 1 = Some 0x0001 \<and>
      (\<exists>data. rd16 pdu 3 = Some data \<and> data \<notin> {0x0000, 0xFF00})) \<and>
    (\<not> (rd pdu 0 = Some 0x08 \<and> restart_request pdu) \<longrightarrow> s_listen_only (s_diag t))"
proof -
  from serve obtain fc where fc: "rd pdu 0 = Some fc"
    by (auto simp: rtu_serve_def split: bind_splits)
  show ?thesis
  proof (cases "fc = 0x08")
    case True
    with serve fc obtain d e where p: "modbus_diag_process pdu bc (s_diag s, s_events s) = Some (tx, d, e)"
      and t: "t = s\<lparr>s_diag := d, s_events := e\<rparr>" "st = MODBUS_OK" "n = length tx"
      by (auto simp: rtu_serve_def split: bind_splits)
    from diag_listen_only_cases [OF listen p] listen fc True t show ?thesis
      by (auto simp: same_app_def modbus_diag_exception_def split: if_splits)
  next
    case False
    with serve fc listen show ?thesis
      by (auto simp: rtu_serve_def modbus_diag_listen_only_def Let_def split: if_splits)
  qed
qed

text \<open>
  An exception answered to a request addressed to this slave: the function code with the top bit set,
  and the code. It leaves the application state alone, except for the sub-requests of FC 0x15.
\<close>

lemma diag_exception_shape:
  assumes "modbus_diag_process rx bc (d, e) = Some (t, d', e')" and "is_exception t" and "hd rx = 0x08"
  shows "\<exists>code. t = modbus_diag_exception code"
proof (cases "length rx < 5")
  case True
  with assms show ?thesis by (auto simp: modbus_diag_process_def is_exception_def split: if_splits)
next
  case False
  then obtain fc sub data rest where "rx = fc # hi8 sub # lo8 sub # hi8 data # lo8 data # rest"
    by (meson diag_rx_cases not_less)
  with assms show ?thesis by (auto simp: modbus_diag_process_def Let_def split: if_splits)
qed

lemma server_id_exception:
  assumes "is_exception (modbus_report_server_id_process k)"
  shows "\<exists>code. modbus_report_server_id_process k = [0x91, code]"
proof (cases "k = 1")
  case True
  then have "\<exists>ys. modbus_report_server_id_process k = 0x11 # ys" by (simp add: modbus_report_server_id_process_def Let_def)
  with assms show ?thesis by auto
qed (simp add: modbus_report_server_id_process_def modbus_exception_response_def)

lemma event_exception:
  assumes "modbus_event_process m e pdu False = Some t" and "is_exception t" and "pdu \<noteq> []" "\<not> bit (hd pdu) 7"
  shows "\<exists>code. t = [hd pdu OR 0x80, code]"
proof -
  have "rd pdu 0 = Some (hd pdu)" using assms(3) by (cases pdu) auto
  with assms show ?thesis by (auto simp: modbus_event_process_def split: if_splits bind_splits)
qed

lemma serve_exception:
  assumes serve: "rtu_serve hk pdu False s = Some (MODBUS_OK, tx, n, t)" and e: "is_exception (take n tx)"
    and pdu: "pdu \<noteq> []" "\<not> bit (hd pdu) 7"
  shows "(\<exists>code. take n tx = [hd pdu OR 0x80, code]) \<and> (hd pdu \<noteq> 0x15 \<longrightarrow> same_app t s)"
proof -
  have fc: "rd pdu 0 = Some (hd pdu)" using pdu(1) by (cases pdu) auto
  have n: "0 < n" using e by (cases n) auto
  have tx: "is_exception tx" using e n by (cases n; cases tx) auto
  consider "hd pdu = 0x08" | "is_fetch (hd pdu)" | "hd pdu = 0x11"
    | "hd pdu \<noteq> 0x08" "\<not> is_fetch (hd pdu)" "hd pdu \<noteq> 0x11" by blast
  then show ?thesis
  proof cases
    case 1
    with serve fc obtain d e' where p:
      "modbus_diag_process pdu False (s_diag s, s_events s) = Some (tx, d, e')" "n = length tx"
      "t = s\<lparr>s_diag := d, s_events := e'\<rparr>"
      by (auto simp: rtu_serve_def split: bind_splits)
    obtain code where "tx = [0x88, code]"
      using diag_exception_shape [OF p(1) tx 1] by (auto simp: modbus_diag_exception_def)
    with 1 p(2,3) show ?thesis by (simp add: same_app_def)
  next
    case 2
    then have "hd pdu \<noteq> 0x08" by (auto simp: is_fetch_def)
    with 2 serve fc n have p:
      "modbus_event_process (modbus_diag_counter_read (s_diag s) 0x000E) (s_events s) pdu False = Some tx"
      "n = length tx" "t = s"
      by (simp_all add: rtu_serve_def Let_def split: bind_splits if_splits)
    from event_exception [OF p(1) tx pdu] obtain code where "tx = [hd pdu OR 0x80, code]" by blast
    with p(2,3) show ?thesis by simp
  next
    case 3
    with serve fc n have p: "tx = modbus_report_server_id_process (length pdu)" "n = length tx" "t = s"
      by (auto simp: rtu_serve_def is_fetch_def Let_def split: if_splits)
    from server_id_exception [of "length pdu"] tx p(1) obtain code where "tx = [0x91, code]" by auto
    with 3 p(2,3) show ?thesis by simp
  next
    case 4
    with serve fc n have p: "modbus_pdu_process hk pdu False s = Some (MODBUS_OK, tx, n, t)"
      by (auto simp: rtu_serve_def Let_def split: if_splits)
    from pdu_exception_shape [OF p tx pdu] obtain code where "tx = [hd pdu OR 0x80, code]" "n = 2" by blast
    moreover have "hd pdu \<noteq> 0x15 \<Longrightarrow> t = s" by (rule exception_unchanged [OF p tx pdu(1)])
    ultimately show ?thesis by auto
  qed
qed

text \<open>A unicast request that is not answered leaves the application state alone.\<close>

lemma serve_silent:
  assumes serve: "rtu_serve default_hooks pdu False s = Some (MODBUS_OK, tx, 0, t)" and "pdu \<noteq> []" and "slave_wf s"
  shows "same_app t s"
proof -
  have fc: "rd pdu 0 = Some (hd pdu)" using assms(2) by (cases pdu) auto
  obtain tx' n u where "modbus_pdu_process default_hooks pdu False s = Some (MODBUS_OK, tx', n, u)" "2 \<le> n"
    using dflt.pdu_process_good [OF assms(3,2), of False] by auto
  with serve fc show ?thesis
    by (auto simp: rtu_serve_def Let_def same_app_def split: if_splits bind_splits)
qed

lemma silent_same_app:
  assumes p: "modbus_rtu_process default_hooks (rtu_frame a pdu) s = Some (st, [], t)"
    and wf: "slave_wf s" and "a \<noteq> 0" and pdu: "pdu \<noteq> []" "length pdu \<le> 253"
  shows "st = MODBUS_OK \<and> same_app t s"
proof (cases "a = modbus_slave_id s")
  case False
  with p rtu_process_foreign [OF pdu False assms(3)] show ?thesis by auto
next
  case True
  obtain tx n u where serve: "rtu_serve default_hooks pdu (a = 0) (noted s) = Some (MODBUS_OK, tx, n, u)"
    "n \<le> length tx" "n \<le> 253"
    using dflt.rtu_serve_total [of "noted s" pdu "a = 0"] wf pdu(1) by auto
  obtain r where r: "resets_events pdu = Some r" using resets_events_Some [OF pdu(1)] by blast
  from rtu_process_frame [OF pdu _ serve r refl] True p have
    n: "n = 0" and t: "st = MODBUS_OK" "t = rtu_bookkeeping (hd pdu) r (a = 0) tx n u"
    by (auto simp: rtu_frame_def rtu_seal_def split: if_splits)
  have "same_app u (noted s)"
    using serve(1) assms(3) n wf by (intro serve_silent [OF _ pdu(1)]) simp_all
  with t show ?thesis by (meson same_app_book same_app_trans)
qed

section \<open>The properties of the serial slave\<close>

text \<open>
  C2: For every received byte string and every well-formed state \<open>modbus_rtu_process\<close> terminates
  without an access out of bounds, keeps the state well formed, and emits nothing or a frame of at
  most 256 bytes whose checksum is correct.
\<close>

theorem rtu_process_safe:
  assumes "slave_wf s"
  shows "\<exists>st tx t. modbus_rtu_process default_hooks rx s = Some (st, tx, t) \<and> slave_wf t \<and> length tx \<le> 256 \<and>
    (tx \<noteq> [] \<longrightarrow> rtu_check modbus_crc16 tx)"
  using assms by (rule dflt.rtu_process_total)

lemma rtu_process_safe_witness:
  "\<exists>st tx t. modbus_rtu_process default_hooks [1, 3, 0, 0] slave1 = Some (st, tx, t) \<and> slave_wf t"
  using rtu_process_safe [OF slave1_wf] by blast

text \<open>
  C5: A valid frame with any one byte changed is rejected: the slave answers nothing, reports a CRC
  error, and no register, coil, file, queue or output of it changes.
\<close>

theorem corrupt_frame_rejected:
  assumes "rtu_check modbus_crc16 rx" and "4 \<le> length rx" "length rx \<le> 256"
    and "i < length rx" and "v \<noteq> rx ! i"
  shows "\<exists>t. modbus_rtu_process hk (rx[i := v]) s = Some (MODBUS_CRC_ERROR, [], t) \<and> same_app t s \<and>
    s_comm_error_count (s_diag t) = s_comm_error_count (s_diag s) + 1"
proof -
  have "\<not> rtu_check modbus_crc16 (rx[i := v])"
    using assms by (intro mb_crc.corrupt_rejected) auto
  with rtu_process_bad_crc [of "rx[i := v]" hk s] assms show ?thesis
    by (simp add: modbus_diag_note_comm_error_def same_app_def)
qed

lemma corrupt_frame_rejected_witness:
  "\<exists>t. modbus_rtu_process default_hooks ((rtu_frame 1 [0x03, 0, 0, 0, 1])[3 := 9]) slave1 =
     Some (MODBUS_CRC_ERROR, [], t)"
proof -
  have "rtu_check modbus_crc16 (rtu_frame 1 [0x03, 0, 0, 0, 1])"
    by (simp add: rtu_frame_def mb_crc.check_seal)
  moreover have "rtu_frame 1 [0x03, 0, 0, 0, 1] ! 3 = 0"
    by (simp add: rtu_frame_def rtu_seal_def)
  ultimately show ?thesis
    using corrupt_frame_rejected [of "rtu_frame 1 [0x03, 0, 0, 0, 1]" 3 9 default_hooks slave1]
    by (auto simp: rtu_frame_def)
qed

text \<open>
  C12: In listen-only mode no received frame changes a register, coil, file, queue or output, and only a
  valid restart request ends the mode. No frame is answered, with one exception that the code makes
  contrary to its own documentation ("no response must be sent (listen-only, broadcast ...)" in
  \<open>modbus_diag.h\<close>, "monitored, never answered" in \<open>modbus.c\<close>, and the test "listen-only suppresses all
  responses"): a restart request with an illegal data value is answered with exception 03.
\<close>

theorem listen_only_isolation:
  assumes "s_listen_only (s_diag s)" and "pdu \<noteq> []" "length pdu \<le> 253" and "slave_wf s"
  shows "\<exists>tx t. modbus_rtu_process default_hooks (rtu_frame a pdu) s = Some (MODBUS_OK, tx, t) \<and> same_app t s \<and>
    (tx = [] \<or> tx = rtu_frame (modbus_slave_id s) (modbus_diag_exception 0x03) \<and> rd pdu 0 = Some 0x08 \<and> rd16 pdu 1 = Some 0x0001 \<and>
      (\<exists>data. rd16 pdu 3 = Some data \<and> data \<notin> {0x0000, 0xFF00})) \<and>
    (\<not> (rd pdu 0 = Some 0x08 \<and> restart_request pdu) \<longrightarrow> s_listen_only (s_diag t))"
proof (cases "a = modbus_slave_id s \<or> a = 0")
  case False
  with assms show ?thesis
    by (simp add: rtu_process_foreign modbus_diag_note_bus_message_def)
next
  case True
  obtain st tx n t where serve: "rtu_serve default_hooks pdu (a = 0) (noted s) = Some (st, tx, n, t)"
    using dflt.rtu_serve_total [of "noted s" pdu "a = 0"] assms by auto
  have listen: "s_listen_only (s_diag (noted s))" using assms(1) by simp
  note l = listen_only_serve [OF listen serve]
  obtain r where r: "resets_events pdu = Some r" using resets_events_Some [OF assms(2)] by blast
  define u where "u = rtu_bookkeeping (hd pdu) r (a = 0) tx n t"
  have "modbus_rtu_process default_hooks (rtu_frame a pdu) s =
      Some (MODBUS_OK, if n = 0 then [] else rtu_frame (modbus_slave_id u) (take n tx), u)"
    by (rule rtu_process_frame [OF assms(2,3) True _ _ _ r u_def]) (use l serve in auto)
  moreover have "same_app u s"
    using l unfolding u_def by (meson same_app_book same_app_trans)
  moreover have "s_listen_only (s_diag u) = s_listen_only (s_diag t)"
    by (simp add: u_def rtu_bookkeeping_def modbus_diag_note_result_def Let_def)
  moreover have "modbus_slave_id u = modbus_slave_id s" using \<open>same_app u s\<close> by (simp add: same_app_def)
  ultimately show ?thesis using l by auto
qed

lemma listen_only_isolation_witness:
  "\<exists>tx t. modbus_rtu_process default_hooks (rtu_frame 1 [0x06, 0, 1, 0, 9])
      (slave1\<lparr>s_diag := (s_diag slave1)\<lparr>s_listen_only := True\<rparr>\<rparr>) = Some (MODBUS_OK, tx, t) \<and>
    same_app t (slave1\<lparr>s_diag := (s_diag slave1)\<lparr>s_listen_only := True\<rparr>\<rparr>)"
  using listen_only_isolation [of "slave1\<lparr>s_diag := (s_diag slave1)\<lparr>s_listen_only := True\<rparr>\<rparr>" "[0x06, 0, 1, 0, 9]" 1]
  by auto

text \<open>The exception is reachable: the slave with id 1, in listen-only mode, answers a restart request with the data value 1.\<close>

theorem listen_only_answered:
  defines "s \<equiv> slave1\<lparr>s_diag := (s_diag slave1)\<lparr>s_listen_only := True\<rparr>\<rparr>"
  shows "\<exists>t. modbus_rtu_process default_hooks (rtu_frame 1 [0x08, 0x00, 0x01, 0x00, 0x01]) s =
    Some (MODBUS_OK, rtu_frame 1 [0x88, 0x03], t)"
proof -
  have v: "be16 0 1 = 1" by (simp add: be16_def)
  have id: "modbus_slave_id s = 1" "s_listen_only (s_diag s)" by (simp_all add: s_def)
  have "rtu_serve default_hooks [0x08, 0x00, 0x01, 0x00, 0x01] False (noted s) =
      Some (MODBUS_OK, [0x88, 0x03], 2, (noted s)\<lparr>s_diag := s_diag (noted s), s_events := s_events (noted s)\<rparr>)"
    using id by (simp add: rtu_serve_def modbus_diag_process_def v modbus_diag_exception_def)
  then show ?thesis
    using rtu_process_frame [of "[0x08, 0x00, 0x01, 0x00, 0x01]" 1 s default_hooks "[0x88, 0x03]" 2 _ True _] id
    by (simp add: resets_events_def v)
qed

text \<open>
  C34: The slave answers no broadcast, with one exception that the code makes contrary to its own
  comment ("Broadcasts ... never respond"): a Diagnostics broadcast can be answered, and then with
  exception 03.
\<close>

theorem broadcast_silence:
  assumes "slave_wf s" and "pdu \<noteq> []" "length pdu \<le> 253"
  shows "\<exists>tx t. modbus_rtu_process default_hooks (rtu_frame 0 pdu) s = Some (MODBUS_OK, tx, t) \<and>
    (tx = [] \<or> hd pdu = 0x08 \<and> tx = rtu_frame (modbus_slave_id s) (modbus_diag_exception 0x03))"
proof -
  obtain tx n t where serve: "rtu_serve default_hooks pdu True (noted s) = Some (MODBUS_OK, tx, n, t)"
    "slave_wf t" "n \<le> length tx" "n \<le> 253"
    using dflt.rtu_serve_total [of "noted s" pdu True] assms by auto
  obtain r where r: "resets_events pdu = Some r" using resets_events_Some [OF assms(2)] by blast
  have fc: "rd pdu 0 = Some (hd pdu)" using assms(2) by (cases pdu) auto
  have quiet: "n = 0 \<or> hd pdu = 0x08 \<and> take n tx = modbus_diag_exception 0x03 \<and> modbus_slave_id t = modbus_slave_id s"
  proof (cases "hd pdu = 0x08")
    case True
    with serve(1) fc obtain d e where
      "modbus_diag_process pdu True (s_diag (noted s), s_events (noted s)) = Some (tx, d, e)"
      "n = length tx" "t = (noted s)\<lparr>s_diag := d, s_events := e\<rparr>"
      by (auto simp: rtu_serve_def split: bind_splits)
    with True diag_broadcast_cases show ?thesis by fastforce
  next
    case False
    have "modbus_event_process m ev pdu True = Some e \<Longrightarrow> e = []" for m ev e
      using fc by (auto simp: modbus_event_process_def split: if_splits)
    moreover have "modbus_pdu_process default_hooks pdu True u = Some (st, e, k, v) \<Longrightarrow> k = 0" for u st e k v
      using assms(2) by (auto simp: pdu_process_eq split: if_splits)
    ultimately show ?thesis
      using False serve(1) fc by (auto simp: rtu_serve_def Let_def split: bind_splits if_splits)
  qed
  have "modbus_rtu_process default_hooks (rtu_frame 0 pdu) s =
    Some (MODBUS_OK, if n = 0 then [] else rtu_frame (modbus_slave_id t) (take n tx),
      rtu_bookkeeping (hd pdu) r True tx n t)"
    using rtu_process_frame [OF assms(2,3), of 0 s default_hooks tx n t r "rtu_bookkeeping (hd pdu) r True tx n t"] serve r
    by simp
  with quiet show ?thesis by auto
qed

lemma broadcast_silence_witness:
  "\<exists>tx t. modbus_rtu_process default_hooks (rtu_frame 0 [0x06, 0, 1, 0, 9]) slave1 = Some (MODBUS_OK, tx, t) \<and> tx = []"
  using broadcast_silence [OF slave1_wf, of "[0x06, 0, 1, 0, 9]"] by auto

text \<open>
  The exception of the previous property is reachable: the slave with id 1 answers a broadcast
  Restart Communications request that carries the illegal data value 1.
\<close>

theorem broadcast_diagnostics_answered:
  "\<exists>t. modbus_rtu_process default_hooks (rtu_frame 0 [0x08, 0x00, 0x01, 0x00, 0x01]) slave1 =
    Some (MODBUS_OK, rtu_frame 1 [0x88, 0x03], t)"
proof -
  have v: "be16 0 1 = 1" by (simp add: be16_def)
  have "rtu_serve default_hooks [0x08, 0x00, 0x01, 0x00, 0x01] True (noted slave1) =
      Some (MODBUS_OK, [0x88, 0x03], 2, (noted slave1)\<lparr>s_diag := s_diag (noted slave1), s_events := s_events (noted slave1)\<rparr>)"
    by (simp add: rtu_serve_def modbus_diag_process_def modbus_diag_broadcast_eligible_def v
        modbus_diag_exception_def)
  then show ?thesis
    using rtu_process_frame [of "[0x08, 0x00, 0x01, 0x00, 0x01]" 0 slave1 default_hooks "[0x88, 0x03]" 2 _ True _]
    by (simp add: resets_events_def v)
qed

end
