(* ===== verification/Ports.thy ===== *)
theory Ports
  imports Framer Slave_Rtu
begin

text \<open>
  The serial ports of the board: \<open>src/rs485.c\<close> and \<open>src/rs232.c\<close> over the framing engine, their
  interrupt handlers, \<open>SysTick_Handler\<close> and the receive callbacks of \<open>src/main.c\<close>, and the mailbox
  of \<open>src/modbus_master_rtu.c\<close> through which the callback hands frames to a waiting master.

  The hardware is the record \<open>hal\<close> of functions over an environment \<open>'h\<close>: the blocking transmit of
  the vendor library, the clock readings of the T3.5 busy wait, and the interrupts that arrive while
  the processor is in one of these or goes round a polling loop. Interrupts are lists of \<open>irq\<close>,
  each with the flags, the data register and the SysTick samples its handler reads.
\<close>

section \<open>State\<close>

datatype usart = USART1 | USART2

datatype irq =
    USART_IRQ usart bool bool systick systick u8
  | SysTick_IRQ systick systick

record 'h serial =
  rs485 :: rtu_framer
  rs485_de :: bool
  rs232 :: rtu_framer
  sys_tick :: u32
  local_slave :: slave
  s_waiting :: bool
  s_frame_ready :: bool
  s_frame :: "u8 list"
  s_frame_len :: u16
  env :: 'h

record 'h hal =
  HAL_UART_Transmit :: "usart \<Rightarrow> u8 list \<Rightarrow> u32 \<Rightarrow> 'h \<Rightarrow> bool \<times> irq list \<times> 'h"
  t35_readings :: "usart \<Rightarrow> 'h \<Rightarrow> u32 \<times> (nat \<Rightarrow> u32) \<times> irq list \<times> 'h"
  poll_irqs :: "'h \<Rightarrow> irq list \<times> systick \<times> 'h"
  yield_cb :: "('h serial \<Rightarrow> 'h serial option) option"

datatype rs485_status = RS485_OK | RS485_ERROR | RS485_BUSY | RS485_TIMEOUT

datatype rs232_status = RS232_OK | RS232_ERROR | RS232_BUSY | RS232_TIMEOUT

section \<open>Interrupt handlers\<close>

definition note_overrun :: "'h serial \<Rightarrow> 'h serial" where
  "note_overrun p =
     (let (d, e) = modbus_diag_note_char_overrun (s_diag (local_slave p), s_events (local_slave p))
      in p\<lparr>local_slave := (local_slave p)\<lparr>s_diag := d, s_events := e\<rparr>\<rparr>)"

definition USART2_IRQHandler :: "bool \<Rightarrow> bool \<Rightarrow> systick \<Rightarrow> systick \<Rightarrow> u8 \<Rightarrow> 'h serial \<Rightarrow> 'h serial option" where
  "USART2_IRQHandler rxne ore k k' dr p = do {
     f \<leftarrow> (if rxne then rtu_framer_on_byte k k' dr (rs485 p) else Some (rs485 p));
     let p = p\<lparr>rs485 := f\<rparr>;
     Some (if ore then note_overrun p else p)
   }"

definition USART1_IRQHandler :: "bool \<Rightarrow> bool \<Rightarrow> systick \<Rightarrow> systick \<Rightarrow> u8 \<Rightarrow> 'h serial \<Rightarrow> 'h serial option" where
  "USART1_IRQHandler rxne ore k k' dr p = do {
     f \<leftarrow> (if rxne then rtu_framer_on_byte k k' dr (rs232 p) else Some (rs232 p));
     let p = p\<lparr>rs232 := f\<rparr>;
     Some (if ore then note_overrun p else p)
   }"

definition rs485_on_systick :: "systick \<Rightarrow> 'h serial \<Rightarrow> 'h serial option" where
  "rs485_on_systick k p = do { f \<leftarrow> rtu_framer_on_systick k (rs485 p); Some (p\<lparr>rs485 := f\<rparr>) }"

definition rs232_on_systick :: "systick \<Rightarrow> 'h serial \<Rightarrow> 'h serial option" where
  "rs232_on_systick k p = do { f \<leftarrow> rtu_framer_on_systick k (rs232 p); Some (p\<lparr>rs232 := f\<rparr>) }"

definition SysTick_Handler :: "systick \<Rightarrow> systick \<Rightarrow> 'h serial \<Rightarrow> 'h serial option" where
  "SysTick_Handler k k' p = do {
     let p = p\<lparr>sys_tick := sys_tick p + 1\<rparr>;
     p \<leftarrow> rs485_on_systick k p;
     rs232_on_systick k' p
   }"

text \<open>A batch of interrupts, in the order they are taken.\<close>

fun take_irqs :: "irq list \<Rightarrow> 'h serial \<Rightarrow> 'h serial option" where
  "take_irqs [] p = Some p"
| "take_irqs (USART_IRQ USART2 rxne ore k k' dr # is) p = do {
     p \<leftarrow> USART2_IRQHandler rxne ore k k' dr p; take_irqs is p }"
| "take_irqs (USART_IRQ USART1 rxne ore k k' dr # is) p = do {
     p \<leftarrow> USART1_IRQHandler rxne ore k k' dr p; take_irqs is p }"
| "take_irqs (SysTick_IRQ k k' # is) p = do { p \<leftarrow> SysTick_Handler k k' p; take_irqs is p }"

section \<open>The RS485 port\<close>

definition rs485_init :: "u32 \<Rightarrow> 'h serial \<Rightarrow> 'h serial" where
  "rs485_init baudrate p =
     p\<lparr>rs485_de := False,
       rs485 := rtu_framer_init (rx_buffer (rs485 p)) (completed_buffer (rs485 p)) 256 baudrate (rs485 p)\<rparr>"

definition rs485_set_rx_mode :: "'h serial \<Rightarrow> 'h serial" where
  "rs485_set_rx_mode p = p\<lparr>rs485_de := False\<rparr>"

definition rs485_set_tx_mode :: "'h serial \<Rightarrow> 'h serial" where
  "rs485_set_tx_mode p = p\<lparr>rs485_de := True\<rparr>"

definition rs485_set_rx_callback :: "bool \<Rightarrow> 'h serial \<Rightarrow> 'h serial" where
  "rs485_set_rx_callback callback p = p\<lparr>rs485 := rtu_framer_set_callback callback (rs485 p)\<rparr>"

definition rs485_delay_t35 :: "'h hal \<Rightarrow> 'h serial \<Rightarrow> 'h serial option" where
  "rs485_delay_t35 hal p =
     (let (start, time, irqs, h) = t35_readings hal USART2 (env p) in do {
        (_, f) \<leftarrow> rtu_framer_delay_t35 start time (rs485 p);
        take_irqs irqs (p\<lparr>rs485 := f, env := h\<rparr>)
      })"

definition rs485_send_with_timeout ::
    "'h hal \<Rightarrow> u8 list \<Rightarrow> u32 \<Rightarrow> 'h serial \<Rightarrow> (rs485_status \<times> 'h serial) option" where
  "rs485_send_with_timeout hal data timeout_ms p =
     (if length data = 0 then Some (RS485_ERROR, p)
      else do {
        let p = p\<lparr>rs485 := rtu_framer_tx_begin (rs485 p)\<rparr>;
        let p = p\<lparr>rs485_de := True\<rparr>;
        let (ok, irqs, h) = HAL_UART_Transmit hal USART2 data timeout_ms (env p);
        p \<leftarrow> take_irqs irqs (p\<lparr>env := h\<rparr>);
        let p = p\<lparr>rs485_de := False\<rparr>;
        Some (if ok then RS485_OK else RS485_TIMEOUT, p)
      })"

definition rs485_send :: "'h hal \<Rightarrow> u8 list \<Rightarrow> 'h serial \<Rightarrow> (rs485_status \<times> 'h serial) option" where
  "rs485_send hal data p = rs485_send_with_timeout hal data 50 p"

definition rs485_flush_rx :: "'h serial \<Rightarrow> 'h serial" where
  "rs485_flush_rx p = p\<lparr>rs485 := rtu_framer_flush (rs485 p)\<rparr>"

definition rs485_read :: "u16 \<Rightarrow> 'h serial \<Rightarrow> (u8 list \<times> 'h serial) option" where
  "rs485_read max_len p = do {
     (out, f) \<leftarrow> rtu_framer_read max_len (rs485 p);
     Some (out, p\<lparr>rs485 := f\<rparr>)
   }"

definition rs485_bytes_available :: "'h serial \<Rightarrow> u16" where
  "rs485_bytes_available p = rtu_framer_bytes_available (rs485 p)"

section \<open>The mailbox of the master and the receive callbacks\<close>

definition modbus_master_rtu_is_waiting :: "'h serial \<Rightarrow> bool" where
  "modbus_master_rtu_is_waiting p = s_waiting p"

definition modbus_master_rtu_on_frame :: "u8 list \<Rightarrow> 'h serial \<Rightarrow> 'h serial option" where
  "modbus_master_rtu_on_frame data p =
     (if length data = 0 \<or> \<not> s_waiting p then Some p
      else do {
        let len = min (length data) 256;
        fr \<leftarrow> copy_bytes len data (s_frame p);
        Some (p\<lparr>s_frame := fr, s_frame_len := of_nat len, s_frame_ready := True\<rparr>)
      })"

definition rs485_modbus_rx_callback ::
    "modbus_sync_hooks \<Rightarrow> 'h hal \<Rightarrow> u8 list \<Rightarrow> 'h serial \<Rightarrow> 'h serial option" where
  "rs485_modbus_rx_callback hk hal data p =
     (if modbus_master_rtu_is_waiting p then modbus_master_rtu_on_frame data p
      else do {
        (_, response, s) \<leftarrow> modbus_rtu_process hk data (local_slave p);
        let p = p\<lparr>local_slave := s\<rparr>;
        if length response > 0 then do {
          p \<leftarrow> rs485_delay_t35 hal p;
          let p = rs485_set_tx_mode p;
          (_, p) \<leftarrow> rs485_send hal response p;
          Some (rs485_set_rx_mode p)
        } else Some p
      })"

definition rs485_process :: "modbus_sync_hooks \<Rightarrow> 'h hal \<Rightarrow> systick \<Rightarrow> 'h serial \<Rightarrow> 'h serial option" where
  "rs485_process hk hal k p = do {
     (frm, f) \<leftarrow> rtu_framer_process k (rs485 p);
     let p = p\<lparr>rs485 := f\<rparr>;
     if length frm > 0 then rs485_modbus_rx_callback hk hal frm p else Some p
   }"

section \<open>The RS232 port\<close>

definition rs232_init :: "u32 \<Rightarrow> 'h serial \<Rightarrow> 'h serial" where
  "rs232_init baudrate p =
     p\<lparr>rs232 := rtu_framer_init (rx_buffer (rs232 p)) (completed_buffer (rs232 p)) 256 baudrate (rs232 p)\<rparr>"

definition rs232_set_rx_callback :: "bool \<Rightarrow> 'h serial \<Rightarrow> 'h serial" where
  "rs232_set_rx_callback callback p = p\<lparr>rs232 := rtu_framer_set_callback callback (rs232 p)\<rparr>"

definition rs232_delay_t35 :: "'h hal \<Rightarrow> 'h serial \<Rightarrow> 'h serial option" where
  "rs232_delay_t35 hal p =
     (let (start, time, irqs, h) = t35_readings hal USART1 (env p) in do {
        (_, f) \<leftarrow> rtu_framer_delay_t35 start time (rs232 p);
        take_irqs irqs (p\<lparr>rs232 := f, env := h\<rparr>)
      })"

definition rs232_send_with_timeout ::
    "'h hal \<Rightarrow> u8 list \<Rightarrow> u32 \<Rightarrow> 'h serial \<Rightarrow> (rs232_status \<times> 'h serial) option" where
  "rs232_send_with_timeout hal data timeout_ms p =
     (if length data = 0 then Some (RS232_ERROR, p)
      else do {
        let p = p\<lparr>rs232 := rtu_framer_tx_begin (rs232 p)\<rparr>;
        let (ok, irqs, h) = HAL_UART_Transmit hal USART1 data timeout_ms (env p);
        p \<leftarrow> take_irqs irqs (p\<lparr>env := h\<rparr>);
        Some (if ok then RS232_OK else RS232_TIMEOUT, p)
      })"

definition rs232_send :: "'h hal \<Rightarrow> u8 list \<Rightarrow> 'h serial \<Rightarrow> (rs232_status \<times> 'h serial) option" where
  "rs232_send hal data p = rs232_send_with_timeout hal data 50 p"

definition rs232_flush_rx :: "'h serial \<Rightarrow> 'h serial" where
  "rs232_flush_rx p = p\<lparr>rs232 := rtu_framer_flush (rs232 p)\<rparr>"

definition rs232_read :: "u16 \<Rightarrow> 'h serial \<Rightarrow> (u8 list \<times> 'h serial) option" where
  "rs232_read max_len p = do {
     (out, f) \<leftarrow> rtu_framer_read max_len (rs232 p);
     Some (out, p\<lparr>rs232 := f\<rparr>)
   }"

definition rs232_modbus_rx_callback ::
    "modbus_sync_hooks \<Rightarrow> 'h hal \<Rightarrow> u8 list \<Rightarrow> 'h serial \<Rightarrow> 'h serial option" where
  "rs232_modbus_rx_callback hk hal data p = do {
     (_, response, s) \<leftarrow> modbus_rtu_process hk data (local_slave p);
     let p = p\<lparr>local_slave := s\<rparr>;
     if length response > 0 then do {
       p \<leftarrow> rs232_delay_t35 hal p;
       (_, p) \<leftarrow> rs232_send hal response p;
       Some p
     } else Some p
   }"

definition rs232_process :: "modbus_sync_hooks \<Rightarrow> 'h hal \<Rightarrow> systick \<Rightarrow> 'h serial \<Rightarrow> 'h serial option" where
  "rs232_process hk hal k p = do {
     (frm, f) \<leftarrow> rtu_framer_process k (rs232 p);
     let p = p\<lparr>rs232 := f\<rparr>;
     if length frm > 0 then rs232_modbus_rx_callback hk hal frm p else Some p
   }"

section \<open>Well-formedness\<close>

text \<open>\<open>T\<close> bounds the silent interval of the ports; the busy wait ends when the clock has run that far.\<close>

definition port_wf :: "u32 \<Rightarrow> rtu_framer \<Rightarrow> bool" where
  "port_wf T f \<longleftrightarrow> framer_wf f \<and> t35_us f \<le> T"

definition serial_wf :: "u32 \<Rightarrow> 'h serial \<Rightarrow> bool" where
  "serial_wf T p \<longleftrightarrow> port_wf T (rs485 p) \<and> port_wf T (rs232 p) \<and> slave_wf (local_slave p) \<and>
     length (s_frame p) = 256 \<and> unat (s_frame_len p) \<le> 256"

text \<open>What interrupts leave alone.\<close>

definition irq_frame :: "'h serial \<Rightarrow> 'h serial \<Rightarrow> bool" where
  "irq_frame p q \<longleftrightarrow> same_app (local_slave p) (local_slave q) \<and> rs485_de q = rs485_de p \<and>
     s_waiting q = s_waiting p \<and> s_frame_ready q = s_frame_ready p \<and> s_frame q = s_frame p \<and>
     s_frame_len q = s_frame_len p \<and> env q = env p"

lemma irq_frame_refl [simp]: "irq_frame p p"
  by (simp add: irq_frame_def)

lemma irq_frame_trans: "irq_frame p q \<Longrightarrow> irq_frame q r \<Longrightarrow> irq_frame p r"
  unfolding irq_frame_def by (metis same_app_trans)

lemma framer_t35 [simp]:
  "rtu_framer_on_byte k k' b f = Some g \<Longrightarrow> t35_us g = t35_us f"
  "rtu_framer_on_systick k f = Some g \<Longrightarrow> t35_us g = t35_us f"
  "rtu_framer_process k f = Some (out, g) \<Longrightarrow> t35_us g = t35_us f"
  by (auto simp: rtu_framer_on_byte_def rtu_framer_on_systick_def rtu_framer_process_def rtu_timer_start_t35_def
      rtu_try_complete_frame_def Let_def split: if_splits bind_splits)

lemma port_byte: "port_wf T f \<Longrightarrow> \<exists>g. rtu_framer_on_byte k k' b f = Some g \<and> port_wf T g"
  unfolding port_wf_def using on_byte_total framer_t35(1) by metis

lemma port_tick: "port_wf T f \<Longrightarrow> \<exists>g. rtu_framer_on_systick k f = Some g \<and> port_wf T g"
proof -
  assume wf: "port_wf T f"
  with framer_step_total [of f "Tick k"] obtain out g where "framer_step f (Tick k) out g" "framer_wf g"
    by (auto simp: port_wf_def)
  with wf show ?thesis by (auto simp: framer_step_Tick port_wf_def)
qed

lemma port_process: "port_wf T f \<Longrightarrow> \<exists>out g. rtu_framer_process k f = Some (out, g) \<and> port_wf T g \<and> length out \<le> 256"
  unfolding port_wf_def using process_total framer_t35(3) by metis

lemma port_simple [simp]:
  "port_wf T f \<Longrightarrow> port_wf T (rtu_framer_flush f)"
  "port_wf T f \<Longrightarrow> port_wf T (rtu_framer_tx_begin f)"
  "port_wf T f \<Longrightarrow> port_wf T (rtu_timer_stop f)"
  by (simp_all add: port_wf_def framer_wf_def rtu_framer_flush_def rtu_framer_tx_begin_def rtu_reset_frame_def rtu_timer_stop_def)

lemma serial_wf_upd [simp]:
  "serial_wf T (p\<lparr>rs485_de := b\<rparr>) = serial_wf T p"
  "serial_wf T (p\<lparr>env := h\<rparr>) = serial_wf T p"
  "serial_wf T (p\<lparr>sys_tick := t\<rparr>) = serial_wf T p"
  "serial_wf T (p\<lparr>s_waiting := b\<rparr>) = serial_wf T p"
  "serial_wf T (p\<lparr>s_frame_ready := b\<rparr>) = serial_wf T p"
  "serial_wf T p \<Longrightarrow> port_wf T f \<Longrightarrow> serial_wf T (p\<lparr>rs485 := f\<rparr>)"
  "serial_wf T p \<Longrightarrow> port_wf T f \<Longrightarrow> serial_wf T (p\<lparr>rs232 := f\<rparr>)"
  "serial_wf T p \<Longrightarrow> slave_wf s \<Longrightarrow> serial_wf T (p\<lparr>local_slave := s\<rparr>)"
  by (simp_all add: serial_wf_def)

lemma serial_wfD:
  "serial_wf T p \<Longrightarrow> port_wf T (rs485 p)" "serial_wf T p \<Longrightarrow> port_wf T (rs232 p)"
  "serial_wf T p \<Longrightarrow> slave_wf (local_slave p)" "serial_wf T p \<Longrightarrow> length (s_frame p) = 256"
  by (simp_all add: serial_wf_def)

lemma overrun_frame [simp]: "irq_frame p (note_overrun p)" "serial_wf T p \<Longrightarrow> serial_wf T (note_overrun p)"
  "sys_tick (note_overrun p) = sys_tick p" "rs485 (note_overrun p) = rs485 p" "rs232 (note_overrun p) = rs232 p"
  by (simp_all add: note_overrun_def modbus_diag_note_char_overrun_def irq_frame_def same_app_def serial_wfD slave_wfD)

lemma irq_frame_port [simp]: "irq_frame p (p\<lparr>rs485 := f\<rparr>)" "irq_frame p (p\<lparr>rs232 := f\<rparr>)" "irq_frame p (p\<lparr>sys_tick := t\<rparr>)"
  by (simp_all add: irq_frame_def)

lemma overrun_frame_port [simp]:
  "irq_frame p (note_overrun (p\<lparr>rs485 := f\<rparr>))" "irq_frame p (note_overrun (p\<lparr>rs232 := f\<rparr>))"
  by (rule irq_frame_trans [OF _ overrun_frame(1)]; simp)+

lemma irq_total:
  assumes "serial_wf T p"
  shows "\<exists>q. USART2_IRQHandler rxne ore k k' dr p = Some q \<and> serial_wf T q \<and> irq_frame p q \<and> sys_tick q = sys_tick p"
    and "\<exists>q. USART1_IRQHandler rxne ore k k' dr p = Some q \<and> serial_wf T q \<and> irq_frame p q \<and> sys_tick q = sys_tick p"
    and "\<exists>q. SysTick_Handler k k' p = Some q \<and> serial_wf T q \<and> irq_frame p q \<and> sys_tick q = sys_tick p + 1"
proof -
  note wf = serial_wfD [OF assms]
  from port_byte [OF wf(1)] obtain f where "rtu_framer_on_byte k k' dr (rs485 p) = Some f" "port_wf T f" by blast
  with assms
  show "\<exists>q. USART2_IRQHandler rxne ore k k' dr p = Some q \<and> serial_wf T q \<and> irq_frame p q \<and> sys_tick q = sys_tick p"
    by (simp add: USART2_IRQHandler_def Let_def)
  from port_byte [OF wf(2)] obtain f where "rtu_framer_on_byte k k' dr (rs232 p) = Some f" "port_wf T f" by blast
  with assms
  show "\<exists>q. USART1_IRQHandler rxne ore k k' dr p = Some q \<and> serial_wf T q \<and> irq_frame p q \<and> sys_tick q = sys_tick p"
    by (simp add: USART1_IRQHandler_def Let_def)
  from port_tick [OF wf(1)] obtain f where f: "rtu_framer_on_systick k (rs485 p) = Some f" "port_wf T f" by blast
  from port_tick [OF wf(2)] obtain g where g: "rtu_framer_on_systick k' (rs232 p) = Some g" "port_wf T g" by blast
  from f g assms show "\<exists>q. SysTick_Handler k k' p = Some q \<and> serial_wf T q \<and> irq_frame p q \<and> sys_tick q = sys_tick p + 1"
    by (simp add: SysTick_Handler_def rs485_on_systick_def rs232_on_systick_def Let_def irq_frame_def)
qed

fun ticks :: "irq list \<Rightarrow> nat" where
  "ticks [] = 0"
| "ticks (USART_IRQ u rxne ore k k' dr # is) = ticks is"
| "ticks (SysTick_IRQ k k' # is) = Suc (ticks is)"

lemma take_irqs_total:
  "serial_wf T p \<Longrightarrow>
    \<exists>q. take_irqs is p = Some q \<and> serial_wf T q \<and> irq_frame p q \<and> sys_tick q = sys_tick p + of_nat (ticks is)"
proof (induction "is" p rule: take_irqs.induct)
  case (2 rxne ore k k' dr "is" p)
  then obtain q where q: "USART2_IRQHandler rxne ore k k' dr p = Some q" "serial_wf T q" "irq_frame p q" "sys_tick q = sys_tick p"
    using irq_total(1) by blast
  with "2.IH" [OF q(1)] irq_frame_trans show ?case by fastforce
next
  case (3 rxne ore k k' dr "is" p)
  then obtain q where q: "USART1_IRQHandler rxne ore k k' dr p = Some q" "serial_wf T q" "irq_frame p q" "sys_tick q = sys_tick p"
    using irq_total(2) by blast
  with "3.IH" [OF q(1)] irq_frame_trans show ?case by fastforce
next
  case (4 k k' "is" p)
  then obtain q where q: "SysTick_Handler k k' p = Some q" "serial_wf T q" "irq_frame p q" "sys_tick q = sys_tick p + 1"
    using irq_total(3) by blast
  with "4.IH" [OF q(1)] irq_frame_trans show ?case by (fastforce simp: add.assoc)
qed simp

end
