(* ===== verification/Ports_Props.thy ===== *)
theory Ports_Props
  imports Ports
begin

text \<open>
  Properties of the serial ports: a received request is served and answered on the wire, frames go
  to the master while it waits and nowhere else, and the RS485 driver is released after every
  operation. The locale \<open>serial_env\<close> states what the operations rely on from the hardware: the clock
  read by the T3.5 busy wait advances.
\<close>

section \<open>The environment\<close>

locale serial_env = sync_hooks hk
  for hk :: modbus_sync_hooks +
  fixes hal :: "'h hal" and T :: u32
  assumes clock_runs: "t35_readings hal u h = (start, time, irqs, h') \<Longrightarrow> \<exists>m. T \<le> time m - start"
begin

lemma delay_total:
  assumes "t35_us f \<le> T" and "t35_readings hal u h = (start, time, irqs, h')"
  shows "\<exists>n. rtu_framer_delay_t35 start time f = Some (n, rtu_timer_stop f)"
proof -
  obtain m where "T \<le> time m - start" using clock_runs [OF assms(2)] by blast
  with assms(1) have "\<not> time m - start < t35_us f" by (meson not_le order_trans)
  then show ?thesis by (rule delay_ends)
qed

lemma rs485_delay_total:
  assumes "serial_wf T p"
  shows "\<exists>q. rs485_delay_t35 hal p = Some q \<and> serial_wf T q \<and> same_app (local_slave p) (local_slave q) \<and>
    rs485_de q = rs485_de p \<and> s_waiting q = s_waiting p \<and> s_frame_ready q = s_frame_ready p \<and>
    env q = snd (snd (snd (t35_readings hal USART2 (env p)))) \<and>
    sys_tick q = sys_tick p + of_nat (ticks (fst (snd (snd (t35_readings hal USART2 (env p))))))"
proof -
  obtain start time irqs h where t: "t35_readings hal USART2 (env p) = (start, time, irqs, h)" by (metis surj_pair)
  have port: "port_wf T (rs485 p)" using assms by (rule serial_wfD)
  then obtain n where n: "rtu_framer_delay_t35 start time (rs485 p) = Some (n, rtu_timer_stop (rs485 p))"
    using delay_total [OF _ t] by (auto simp: port_wf_def)
  have "serial_wf T (p\<lparr>rs485 := rtu_timer_stop (rs485 p), env := h\<rparr>)" using assms port by simp
  from take_irqs_total [OF this, of irqs] t n show ?thesis
    by (auto simp: rs485_delay_t35_def irq_frame_def)
qed

lemma rs232_delay_total:
  assumes "serial_wf T p"
  shows "\<exists>q. rs232_delay_t35 hal p = Some q \<and> serial_wf T q \<and> same_app (local_slave p) (local_slave q) \<and>
    rs485_de q = rs485_de p \<and> s_waiting q = s_waiting p \<and>
    env q = snd (snd (snd (t35_readings hal USART1 (env p)))) \<and>
    sys_tick q = sys_tick p + of_nat (ticks (fst (snd (snd (t35_readings hal USART1 (env p))))))"
proof -
  obtain start time irqs h where t: "t35_readings hal USART1 (env p) = (start, time, irqs, h)" by (metis surj_pair)
  have port: "port_wf T (rs232 p)" using assms by (rule serial_wfD)
  then obtain n where n: "rtu_framer_delay_t35 start time (rs232 p) = Some (n, rtu_timer_stop (rs232 p))"
    using delay_total [OF _ t] by (auto simp: port_wf_def)
  have "serial_wf T (p\<lparr>rs232 := rtu_timer_stop (rs232 p), env := h\<rparr>)" using assms port by simp
  from take_irqs_total [OF this, of irqs] t n show ?thesis
    by (auto simp: rs232_delay_t35_def irq_frame_def)
qed

end

section \<open>Transmission\<close>

lemma rs485_send_total:
  assumes "serial_wf T p" and "data \<noteq> []"
  shows "\<exists>q. rs485_send hal data p = Some (if fst (HAL_UART_Transmit hal USART2 data 50 (env p)) then RS485_OK else RS485_TIMEOUT, q) \<and>
    serial_wf T q \<and> same_app (local_slave p) (local_slave q) \<and> \<not> rs485_de q \<and> s_waiting q = s_waiting p \<and>
    s_frame_ready q = s_frame_ready p \<and> env q = snd (snd (HAL_UART_Transmit hal USART2 data 50 (env p))) \<and>
    sys_tick q = sys_tick p + of_nat (ticks (fst (snd (HAL_UART_Transmit hal USART2 data 50 (env p)))))"
proof -
  obtain ok irqs h where t: "HAL_UART_Transmit hal USART2 data 50 (env p) = (ok, irqs, h)" by (metis surj_pair)
  have "serial_wf T (p\<lparr>rs485 := rtu_framer_tx_begin (rs485 p), rs485_de := True, env := h\<rparr>)"
    using assms serial_wfD(1) [OF assms(1)] by simp
  from take_irqs_total [OF this, of irqs] t assms(2) show ?thesis
    by (auto simp: rs485_send_def rs485_send_with_timeout_def irq_frame_def)
qed

lemma rs232_send_total:
  assumes "serial_wf T p" and "data \<noteq> []"
  shows "\<exists>st q. rs232_send hal data p = Some (st, q) \<and> serial_wf T q \<and> same_app (local_slave p) (local_slave q) \<and>
    rs485_de q = rs485_de p \<and> s_waiting q = s_waiting p \<and>
    env q = snd (snd (HAL_UART_Transmit hal USART1 data 50 (env p))) \<and>
    sys_tick q = sys_tick p + of_nat (ticks (fst (snd (HAL_UART_Transmit hal USART1 data 50 (env p)))))"
proof -
  obtain ok irqs h where t: "HAL_UART_Transmit hal USART1 data 50 (env p) = (ok, irqs, h)" by (metis surj_pair)
  have "serial_wf T (p\<lparr>rs232 := rtu_framer_tx_begin (rs232 p), env := h\<rparr>)"
    using assms serial_wfD(2) [OF assms(1)] by simp
  from take_irqs_total [OF this, of irqs] t assms(2) show ?thesis
    by (auto simp: rs232_send_def rs232_send_with_timeout_def irq_frame_def)
qed

lemma on_frame_total:
  assumes "length (s_frame p) = 256" and "data \<noteq> []" and "length data \<le> 256" and "s_waiting p"
  shows "modbus_master_rtu_on_frame data p = Some (p\<lparr>s_frame := data @ drop (length data) (s_frame p),
    s_frame_len := of_nat (length data), s_frame_ready := True\<rparr>)"
  using assms by (simp add: modbus_master_rtu_on_frame_def copy_bytes_eq Let_def min_def)

lemma serial_wf_mailbox [simp]:
  "serial_wf T p \<Longrightarrow> length data \<le> 256 \<Longrightarrow> serial_wf T (p\<lparr>s_frame := data @ drop (length data) (s_frame p),
    s_frame_len := of_nat (length data), s_frame_ready := b\<rparr>)"
  by (simp add: serial_wf_def unat_of_nat)

section \<open>Polling\<close>

text \<open>
  What a poll takes of the environment: nothing, or the busy wait and the transmission of a response,
  with the time that passes in them.
\<close>

definition served :: "'h hal \<Rightarrow> usart \<Rightarrow> 'h serial \<Rightarrow> 'h serial \<Rightarrow> bool" where
  "served hal u p q \<longleftrightarrow> env q = env p \<and> sys_tick q = sys_tick p \<or>
     (\<exists>bs. let (_, _, irqs, h) = t35_readings hal u (env p); (_, irqs', h') = HAL_UART_Transmit hal u bs 50 h
           in env q = h' \<and> sys_tick q = sys_tick p + of_nat (ticks irqs + ticks irqs'))"

lemma served_none: "env q = env p \<Longrightarrow> sys_tick q = sys_tick p \<Longrightarrow> served hal u p q"
  by (simp add: served_def)

lemma served_response:
  assumes "env q = snd (snd (snd (t35_readings hal u (env p))))"
    and "sys_tick q = sys_tick p + of_nat (ticks (fst (snd (snd (t35_readings hal u (env p))))))"
    and "env r = snd (snd (HAL_UART_Transmit hal u bs 50 (env q)))"
    and "sys_tick r = sys_tick q + of_nat (ticks (fst (snd (HAL_UART_Transmit hal u bs 50 (env q)))))"
  shows "served hal u p r"
  using assms by (auto simp: served_def split_beta Let_def intro!: exI [of _ bs])

context serial_env
begin

lemma rs485_process_waiting:
  assumes wf: "serial_wf T p" and "s_waiting p" and f: "rtu_framer_process k (rs485 p) = Some (frm, f)"
  shows "\<exists>q. rs485_process hk hal k p = Some q \<and> serial_wf T q \<and>
    q = (if frm = [] then p\<lparr>rs485 := f\<rparr>
         else p\<lparr>rs485 := f, s_frame := frm @ drop (length frm) (s_frame p),
                s_frame_len := of_nat (length frm), s_frame_ready := True\<rparr>)"
proof -
  from port_process [OF serial_wfD(1) [OF wf], of k] f have len: "length frm \<le> 256" and port: "port_wf T f" by auto
  have wf': "serial_wf T (p\<lparr>rs485 := f\<rparr>)" using wf port by simp
  show ?thesis
    using assms wf' len serial_wf_mailbox [OF wf' len, where b = True] serial_wfD(4) [OF wf]
    by (auto simp: rs485_process_def rs485_modbus_rx_callback_def modbus_master_rtu_is_waiting_def on_frame_total)
qed

lemma rs485_answer:
  assumes wf: "serial_wf T p" and "\<not> s_waiting p" and "\<not> rs485_de p"
    and f: "rtu_framer_process k (rs485 p) = Some (frm, f)" "frm \<noteq> []"
    and s: "modbus_rtu_process hk frm (local_slave p) = Some (st, resp, s)"
  shows "\<exists>q. rs485_process hk hal k p = Some q \<and> serial_wf T q \<and> same_app s (local_slave q) \<and> \<not> rs485_de q \<and>
    \<not> s_waiting q \<and>
    env q = (if resp = [] then env p
             else snd (snd (HAL_UART_Transmit hal USART2 resp 50 (snd (snd (snd (t35_readings hal USART2 (env p)))))))) \<and>
    served hal USART2 p q"
proof -
  from port_process [OF serial_wfD(1) [OF wf], of k] f have port: "port_wf T f" by auto
  have "slave_wf s" using rtu_process_total [OF serial_wfD(3) [OF wf], of frm] s by auto
  with wf port have wf': "serial_wf T (p\<lparr>rs485 := f, local_slave := s\<rparr>)" by simp
  show ?thesis
  proof (cases "resp = []")
    case True
    with assms wf' show ?thesis
      by (simp add: rs485_process_def rs485_modbus_rx_callback_def modbus_master_rtu_is_waiting_def Let_def served_none)
  next
    case False
    from rs485_delay_total [OF wf'] obtain q where
      q: "rs485_delay_t35 hal (p\<lparr>rs485 := f, local_slave := s\<rparr>) = Some q" "serial_wf T q"
        "same_app s (local_slave q)" "\<not> s_waiting q" "env q = snd (snd (snd (t35_readings hal USART2 (env p))))"
        "sys_tick q = sys_tick p + of_nat (ticks (fst (snd (snd (t35_readings hal USART2 (env p))))))"
      using assms(2) by auto
    then have "serial_wf T (rs485_set_tx_mode q)" by (simp add: rs485_set_tx_mode_def)
    from rs485_send_total [OF this False, of hal] obtain st' r where
      r: "rs485_send hal resp (rs485_set_tx_mode q) = Some (st', r)" "serial_wf T r" "same_app (local_slave q) (local_slave r)"
        "\<not> rs485_de r" "\<not> s_waiting r" "env r = snd (snd (HAL_UART_Transmit hal USART2 resp 50 (env q)))"
        "sys_tick r = sys_tick q + of_nat (ticks (fst (snd (HAL_UART_Transmit hal USART2 resp 50 (env q)))))"
      using q by (auto simp: rs485_set_tx_mode_def)
    have "same_app s (local_slave r)" using q(3) r(3) by (rule same_app_trans)
    moreover have "served hal USART2 p (r\<lparr>rs485_de := False\<rparr>)" by (rule served_response [OF q(5,6)]) (simp_all add: r(6,7))
    ultimately show ?thesis
      using assms q r False
      by (simp add: rs485_process_def rs485_modbus_rx_callback_def modbus_master_rtu_is_waiting_def rs485_set_rx_mode_def)
  qed
qed

lemma rs485_process_total:
  assumes wf: "serial_wf T p" and "\<not> rs485_de p"
  shows "\<exists>q. rs485_process hk hal k p = Some q \<and> serial_wf T q \<and> \<not> rs485_de q \<and> s_waiting q = s_waiting p \<and>
    served hal USART2 p q"
proof -
  from port_process [OF serial_wfD(1) [OF wf], of k] obtain frm f where
    f: "rtu_framer_process k (rs485 p) = Some (frm, f)" "port_wf T f" by blast
  consider "s_waiting p" | "frm = []" | "\<not> s_waiting p" "frm \<noteq> []" by blast
  then show ?thesis
  proof cases
    case 1
    with rs485_process_waiting [OF wf 1 f(1)] assms(2) show ?thesis by (auto intro!: served_none)
  next
    case 2
    with f wf assms(2) show ?thesis by (simp add: rs485_process_def served_none)
  next
    case 3
    obtain st resp s where "modbus_rtu_process hk frm (local_slave p) = Some (st, resp, s)"
      using rtu_process_total [OF serial_wfD(3) [OF wf], of frm] by blast
    from rs485_answer [OF wf 3(1) assms(2) f(1) 3(2) this] 3 show ?thesis by auto
  qed
qed

lemma rs232_process_total:
  assumes wf: "serial_wf T p"
  shows "\<exists>q. rs232_process hk hal k p = Some q \<and> serial_wf T q \<and> rs485_de q = rs485_de p \<and> s_waiting q = s_waiting p \<and>
    served hal USART1 p q"
proof -
  from port_process [OF serial_wfD(2) [OF wf], of k] obtain frm f where
    f: "rtu_framer_process k (rs232 p) = Some (frm, f)" "port_wf T f" by blast
  obtain st resp s where s: "modbus_rtu_process hk frm (local_slave p) = Some (st, resp, s)" "slave_wf s"
    using rtu_process_total [OF serial_wfD(3) [OF wf], of frm] by blast
  have wf': "serial_wf T (p\<lparr>rs232 := f, local_slave := s\<rparr>)" using wf f s by simp
  from rs232_delay_total [OF this] obtain q where
    q: "rs232_delay_t35 hal (p\<lparr>rs232 := f, local_slave := s\<rparr>) = Some q" "serial_wf T q"
      "rs485_de q = rs485_de p" "s_waiting q = s_waiting p"
      "env q = snd (snd (snd (t35_readings hal USART1 (env p))))"
      "sys_tick q = sys_tick p + of_nat (ticks (fst (snd (snd (t35_readings hal USART1 (env p))))))" by auto
  have "\<exists>st r. resp \<noteq> [] \<longrightarrow> rs232_send hal resp q = Some (st, r) \<and> serial_wf T r \<and> rs485_de r = rs485_de p \<and> s_waiting r = s_waiting p \<and>
      served hal USART1 p r"
    using rs232_send_total [OF q(2), of resp hal] q(3,4) served_response [OF q(5,6)] by metis
  with f s q wf wf' show ?thesis
    by (cases "frm = []"; cases "resp = []") (auto simp: rs232_process_def rs232_modbus_rx_callback_def served_none)
qed

end

end
