(* ===== verification/Master_Build.thy ===== *)
theory Master_Build
  imports Slave_Pdu
begin

text \<open>
  The Modbus master, \<open>src/modbus_master.c\<close>, part one: the request builders and the RTU framing.
  A builder returns the bytes it stored into \<open>pdu\<close>, the empty list where the code returns 0; a
  builder that reads a caller's array is \<open>None\<close> when the array is shorter than the code reads.
\<close>

section \<open>Settings\<close>

definition modbus_master_set_timeout_ms :: "u32 \<Rightarrow> u32" where
  "modbus_master_set_timeout_ms timeout_ms = (if timeout_ms < 50 then 50 else timeout_ms)"

section \<open>PDU builders\<close>

definition put_u16_be :: "u16 \<Rightarrow> u8 list" where
  "put_u16_be v = [ucast (drop_bit 8 v), ucast (v AND 0xFF)]"

lemma put_u16_be_eq: "put_u16_be v = [hi8 v, lo8 v]"
  by (simp add: put_u16_be_def hi8_def lo8_def)

definition modbus_master_build_read :: "u8 \<Rightarrow> u16 \<Rightarrow> u16 \<Rightarrow> nat \<Rightarrow> u8 list" where
  "modbus_master_build_read fc start quantity pdu_max =
     (if pdu_max < 5 then [] else [fc] @ put_u16_be start @ put_u16_be quantity)"

definition modbus_master_build_write_single_coil :: "u16 \<Rightarrow> bool \<Rightarrow> nat \<Rightarrow> u8 list" where
  "modbus_master_build_write_single_coil addr on pdu_max =
     (if pdu_max < 5 then [] else [MODBUS_FC_WRITE_SINGLE_COIL] @ put_u16_be addr @ put_u16_be (if on then 0xFF00 else 0x0000))"

definition modbus_master_build_write_single_register :: "u16 \<Rightarrow> u16 \<Rightarrow> nat \<Rightarrow> u8 list" where
  "modbus_master_build_write_single_register addr val pdu_max =
     (if pdu_max < 5 then [] else [MODBUS_FC_WRITE_SINGLE_REGISTER] @ put_u16_be addr @ put_u16_be val)"

definition modbus_master_build_write_multiple_coils :: "u16 \<Rightarrow> u16 \<Rightarrow> u8 list \<Rightarrow> nat \<Rightarrow> u8 list option" where
  "modbus_master_build_write_multiple_coils start quantity bits pdu_max =
     (if quantity < 1 \<or> quantity > 1968 then Some []
      else
        let byte_count = (of_nat ((unat quantity + 7) div 8) :: u8) in
        if pdu_max < 6 + unat byte_count then Some []
        else do {
          data \<leftarrow> rd_span bits 0 (unat byte_count);
          Some ([MODBUS_FC_WRITE_MULTIPLE_COILS] @ put_u16_be start @ put_u16_be quantity @ [byte_count] @ data)
        })"

text \<open>The loop that stores \<open>n\<close> registers of the caller's array, most significant byte first.\<close>

definition put_regs :: "u16 list \<Rightarrow> nat \<Rightarrow> u8 list option" where
  "put_regs regs n = do { vs \<leftarrow> rd_span regs 0 n; Some (concat (map put_u16_be vs)) }"

definition modbus_master_build_write_multiple_registers :: "u16 \<Rightarrow> u16 \<Rightarrow> u16 list \<Rightarrow> nat \<Rightarrow> u8 list option" where
  "modbus_master_build_write_multiple_registers start quantity regs pdu_max =
     (if quantity < 1 \<or> quantity > 123 then Some []
      else
        let byte_count = (ucast (quantity * 2) :: u8) in
        if pdu_max < 6 + unat byte_count then Some []
        else do {
          data \<leftarrow> put_regs regs (unat quantity);
          Some ([MODBUS_FC_WRITE_MULTIPLE_REGISTERS] @ put_u16_be start @ put_u16_be quantity @ [byte_count] @ data)
        })"

definition modbus_master_build_read_exception_status :: "nat \<Rightarrow> u8 list" where
  "modbus_master_build_read_exception_status pdu_max = (if pdu_max < 1 then [] else [MODBUS_FC_READ_EXCEPTION_STATUS])"

definition modbus_master_build_get_comm_event_counter :: "nat \<Rightarrow> u8 list" where
  "modbus_master_build_get_comm_event_counter pdu_max = (if pdu_max < 1 then [] else [MODBUS_FC_GET_COMM_EVENT_COUNTER])"

definition modbus_master_build_get_comm_event_log :: "nat \<Rightarrow> u8 list" where
  "modbus_master_build_get_comm_event_log pdu_max = (if pdu_max < 1 then [] else [MODBUS_FC_GET_COMM_EVENT_LOG])"

definition modbus_master_build_report_server_id :: "nat \<Rightarrow> u8 list" where
  "modbus_master_build_report_server_id pdu_max = (if pdu_max < 1 then [] else [MODBUS_FC_REPORT_SERVER_ID])"

definition modbus_master_build_mask_write_register :: "u16 \<Rightarrow> u16 \<Rightarrow> u16 \<Rightarrow> nat \<Rightarrow> u8 list" where
  "modbus_master_build_mask_write_register addr and_mask or_mask pdu_max =
     (if pdu_max < 7 then [] else [MODBUS_FC_MASK_WRITE_REGISTER] @ put_u16_be addr @ put_u16_be and_mask @ put_u16_be or_mask)"

definition modbus_master_build_read_fifo_queue :: "u16 \<Rightarrow> nat \<Rightarrow> u8 list" where
  "modbus_master_build_read_fifo_queue fifo_addr pdu_max =
     (if pdu_max < 3 then [] else [MODBUS_FC_READ_FIFO_QUEUE] @ put_u16_be fifo_addr)"

definition modbus_master_build_diagnostics :: "u16 \<Rightarrow> u16 \<Rightarrow> nat \<Rightarrow> u8 list" where
  "modbus_master_build_diagnostics sub_function data pdu_max =
     (if pdu_max < 5 then [] else [MODBUS_FC_DIAGNOSTICS] @ put_u16_be sub_function @ put_u16_be data)"

definition modbus_master_build_read_file_record :: "u16 \<Rightarrow> u16 \<Rightarrow> u16 \<Rightarrow> nat \<Rightarrow> u8 list" where
  "modbus_master_build_read_file_record file_number record_number record_length pdu_max =
     (if pdu_max < 9 \<or> record_length < 1 then []
      else [MODBUS_FC_READ_FILE_RECORD, 0x07, MODBUS_FILE_REF_TYPE] @ put_u16_be file_number @ put_u16_be record_number @ put_u16_be record_length)"

definition modbus_master_build_write_file_record ::
    "u16 \<Rightarrow> u16 \<Rightarrow> u16 \<Rightarrow> u16 list \<Rightarrow> nat \<Rightarrow> u8 list option" where
  "modbus_master_build_write_file_record file_number record_number record_length regs pdu_max =
     (if record_length < 1 then Some []
      else if unat record_length > (0xFB - 7) div 2 then Some []
      else
        let data_bytes = record_length * 2; req_data_len = (ucast (7 + data_bytes) :: u8) in
        if 2 + unat req_data_len > pdu_max \<or> req_data_len < 0x09 then Some []
        else do {
          data \<leftarrow> put_regs regs (unat record_length);
          Some ([MODBUS_FC_WRITE_FILE_RECORD, req_data_len, MODBUS_FILE_REF_TYPE] @ put_u16_be file_number @ put_u16_be record_number @
                put_u16_be record_length @ data)
        })"

definition modbus_master_build_read_write_multiple_registers ::
    "u16 \<Rightarrow> u16 \<Rightarrow> u16 \<Rightarrow> u16 \<Rightarrow> u16 list \<Rightarrow> nat \<Rightarrow> u8 list option" where
  "modbus_master_build_read_write_multiple_registers read_start read_qty write_start write_qty write_regs pdu_max =
     (if read_qty < 1 \<or> read_qty > 0x007D \<or> write_qty < 1 \<or> write_qty > 0x0079 then Some []
      else
        let write_bc = (ucast (write_qty * 2) :: u8) in
        if pdu_max < 10 + unat write_bc then Some []
        else do {
          data \<leftarrow> put_regs write_regs (unat write_qty);
          Some ([MODBUS_FC_READ_WRITE_MULTIPLE_REGS] @ put_u16_be read_start @ put_u16_be read_qty @ put_u16_be write_start @
                put_u16_be write_qty @ [write_bc] @ data)
        })"

definition modbus_master_build_read_device_id :: "u8 \<Rightarrow> u8 \<Rightarrow> nat \<Rightarrow> u8 list" where
  "modbus_master_build_read_device_id read_device_id object_id pdu_max =
     (if pdu_max < 4 then [] else [MODBUS_FC_ENCAPSULATED_INTERFACE, MODBUS_MEI_READ_DEVICE_ID, read_device_id, object_id])"

section \<open>RTU framing\<close>

definition modbus_master_rtu_frame :: "u8 \<Rightarrow> u8 list \<Rightarrow> nat \<Rightarrow> u8 list" where
  "modbus_master_rtu_frame slave_id pdu adu_max =
     (if length pdu = 0 \<or> length pdu > 253 then []
      else
        let total = 1 + length pdu + 2 in
        if total > adu_max \<or> total > MODBUS_RTU_FRAME_MAX then []
        else let body = slave_id # pdu; crc = modbus_crc16 body in body @ [lo8 crc, hi8 crc])"

text \<open>\<open>Inl\<close> is the error status, \<open>Inr\<close> the PDU within the frame.\<close>

type_synonym 'a outcome = "modbus_status + 'a"

definition modbus_master_rtu_validate_response :: "u8 \<Rightarrow> u8 list \<Rightarrow> u8 list outcome option" where
  "modbus_master_rtu_validate_response slave_id adu =
     (if length adu < 4 \<or> length adu > 256 then Some (Inl MODBUS_ERROR)
      else do {
        c1 \<leftarrow> rd adu (length adu - 1);
        c2 \<leftarrow> rd adu (length adu - 2);
        body \<leftarrow> rd_span adu 0 (length adu - 2);
        if be16 c1 c2 \<noteq> modbus_crc16 body then Some (Inl MODBUS_CRC_ERROR)
        else do {
          a \<leftarrow> rd adu 0;
          if a \<noteq> slave_id then Some (Inl MODBUS_ERROR)
          else do { pdu \<leftarrow> rd_span adu 1 (length adu - 3); Some (Inr pdu) }
        }
      })"

section \<open>Lemmas\<close>

lemma put_regs_eq: "n \<le> length regs \<Longrightarrow> put_regs regs n = Some (be_bytes (take n regs))"
  by (simp add: put_regs_def rd_span_Some be_bytes_def put_u16_be_eq [abs_def])

lemma build_read_eq: "5 \<le> m \<Longrightarrow> modbus_master_build_read fc a q m = fc # be_bytes [a, q]"
  by (simp add: modbus_master_build_read_def put_u16_be_eq)

lemma master_frame_eq:
  "pdu \<noteq> [] \<Longrightarrow> length pdu \<le> 253 \<Longrightarrow> modbus_master_rtu_frame a pdu 256 = rtu_seal modbus_crc16 (a # pdu)"
  by (cases pdu) (auto simp: modbus_master_rtu_frame_def rtu_seal_def Let_def)

lemma validate_frame:
  "pdu \<noteq> [] \<Longrightarrow> length pdu \<le> 253 \<Longrightarrow>
    modbus_master_rtu_validate_response a (rtu_seal modbus_crc16 (b # pdu)) =
      Some (if b = a then Inr pdu else Inl MODBUS_ERROR)"
  by (cases pdu) (auto simp: modbus_master_rtu_validate_response_def rtu_seal_def rd_def rd_span_Some nth_append)

lemma validate_total: "modbus_master_rtu_validate_response a adu \<noteq> None"
  by (auto simp: modbus_master_rtu_validate_response_def rd_def rd_span_Some)

lemma validate_sound:
  assumes "modbus_master_rtu_validate_response a adu = Some (Inr pdu)"
  shows "rtu_check modbus_crc16 adu \<and> length pdu + 3 = length adu \<and> pdu \<noteq> [] \<and> length pdu \<le> 253 \<and>
    adu = rtu_seal modbus_crc16 (a # pdu)"
proof -
  from assms have len: "4 \<le> length adu" "length adu \<le> 256" and chk: "rtu_check modbus_crc16 adu"
    and a: "adu ! 0 = a" and pdu: "pdu = take (length adu - 3) (drop 1 adu)"
    by (auto simp: modbus_master_rtu_validate_response_def rtu_check_def rd_def rd_span_Some
        split: if_splits)
  have "adu = rtu_seal modbus_crc16 (take (length adu - 2) adu)"
    by (rule mb_crc.seal_of_check [OF chk]) (use len in linarith)
  moreover have "take (length adu - 2) adu = a # pdu"
  proof (rule nth_equalityI)
    fix i assume "i < length (take (length adu - 2) adu)"
    then show "take (length adu - 2) adu ! i = (a # pdu) ! i"
      using len a by (cases i) (auto simp: pdu)
  qed (use len in \<open>auto simp: pdu\<close>)
  ultimately show ?thesis
    using chk len by (auto simp: pdu)
qed

end
