(* ===== verification/Master_Parse.thy ===== *)
theory Master_Parse
  imports Master_Build
begin

text \<open>
  The response parsers of \<open>src/modbus_master.c\<close>. A parser takes the response PDU and returns the
  values it stores through its output pointers (\<open>Inr\<close>) or the error status (\<open>Inl\<close>); \<open>None\<close> is a
  read outside the PDU. Output pointers the caller may leave NULL are always present here, except
  where they decide an error, which is then an argument.
\<close>

section \<open>Parsers\<close>

definition modbus_master_parse_read_bits :: "u8 list \<Rightarrow> u16 \<Rightarrow> nat \<Rightarrow> u8 list outcome option" where
  "modbus_master_parse_read_bits pdu quantity bits_out_max =
     (if length pdu < 2 \<or> quantity < 1 then Some (Inl MODBUS_ERROR)
      else do {
        let expected = (of_nat ((unat quantity + 7) div 8) :: u8);
        byte_count \<leftarrow> rd pdu 1;
        if byte_count \<noteq> expected \<or> length pdu \<noteq> 2 + unat byte_count then Some (Inl MODBUS_ERROR)
        else if unat byte_count > bits_out_max then Some (Inl MODBUS_ERROR)
        else do { bits \<leftarrow> rd_span pdu 2 (unat byte_count); Some (Inr bits) }
      })"

definition modbus_master_parse_read_registers :: "u8 list \<Rightarrow> u16 \<Rightarrow> u16 list outcome option" where
  "modbus_master_parse_read_registers pdu quantity =
     (if length pdu < 2 \<or> quantity < 1 then Some (Inl MODBUS_ERROR)
      else do {
        byte_count \<leftarrow> rd pdu 1;
        if byte_count \<noteq> ucast (quantity * 2) \<or> length pdu \<noteq> 2 + unat byte_count then Some (Inl MODBUS_ERROR)
        else do { regs \<leftarrow> rd16_span pdu 2 (unat quantity); Some (Inr regs) }
      })"

definition modbus_master_parse_exception_status :: "u8 list \<Rightarrow> u8 outcome option" where
  "modbus_master_parse_exception_status pdu =
     (if length pdu \<noteq> 2 then Some (Inl MODBUS_ERROR)
      else do {
        fc \<leftarrow> rd pdu 0;
        if fc \<noteq> MODBUS_FC_READ_EXCEPTION_STATUS then Some (Inl MODBUS_ERROR)
        else do { v \<leftarrow> rd pdu 1; Some (Inr v) }
      })"

definition modbus_master_parse_diagnostics :: "u8 list \<Rightarrow> u16 \<Rightarrow> u16 outcome option" where
  "modbus_master_parse_diagnostics pdu sub_function =
     (if length pdu \<noteq> 5 then Some (Inl MODBUS_ERROR)
      else do {
        fc \<leftarrow> rd pdu 0;
        if fc \<noteq> MODBUS_FC_DIAGNOSTICS then Some (Inl MODBUS_ERROR)
        else do {
          resp_sub \<leftarrow> rd16 pdu 1;
          if resp_sub \<noteq> sub_function then Some (Inl MODBUS_ERROR)
          else do { v \<leftarrow> rd16 pdu 3; Some (Inr v) }
        }
      })"

definition modbus_master_parse_get_comm_event_counter :: "u8 list \<Rightarrow> (u16 \<times> u16) outcome option" where
  "modbus_master_parse_get_comm_event_counter pdu =
     (if length pdu \<noteq> 5 then Some (Inl MODBUS_ERROR)
      else do {
        fc \<leftarrow> rd pdu 0;
        if fc \<noteq> MODBUS_FC_GET_COMM_EVENT_COUNTER then Some (Inl MODBUS_ERROR)
        else do { st \<leftarrow> rd16 pdu 1; c \<leftarrow> rd16 pdu 3; Some (Inr (st, c)) }
      })"

text \<open>\<open>events_max\<close> is \<open>None\<close> when the caller passes no event buffer.\<close>

definition modbus_master_parse_get_comm_event_log ::
    "u8 list \<Rightarrow> u8 option \<Rightarrow> (u16 \<times> u16 \<times> u16 \<times> u8 list) outcome option" where
  "modbus_master_parse_get_comm_event_log pdu events_max =
     (if length pdu < 2 then Some (Inl MODBUS_ERROR)
      else do {
        fc \<leftarrow> rd pdu 0;
        if fc \<noteq> MODBUS_FC_GET_COMM_EVENT_LOG then Some (Inl MODBUS_ERROR)
        else do {
          byte_count \<leftarrow> rd pdu 1;
          if byte_count < 6 \<or> length pdu \<noteq> 2 + unat byte_count then Some (Inl MODBUS_ERROR)
          else
            let n = byte_count - 6 in
            if (case events_max of Some m \<Rightarrow> n > m | None \<Rightarrow> False) then Some (Inl MODBUS_ERROR)
            else do {
              st \<leftarrow> rd16 pdu 2; c \<leftarrow> rd16 pdu 4; m \<leftarrow> rd16 pdu 6;
              events \<leftarrow> (if events_max = None then Some [] else rd_span pdu 8 (unat n));
              Some (Inr (st, c, m, events))
            }
        }
      })"

definition modbus_master_parse_read_file_record :: "u8 list \<Rightarrow> u16 \<Rightarrow> u16 list outcome option" where
  "modbus_master_parse_read_file_record pdu record_length =
     (if length pdu < 4 then Some (Inl MODBUS_ERROR)
      else do {
        fc \<leftarrow> rd pdu 0;
        if fc \<noteq> MODBUS_FC_READ_FILE_RECORD \<or> record_length < 1 then Some (Inl MODBUS_ERROR)
        else do {
          resp_data_len \<leftarrow> rd pdu 1;
          if length pdu \<noteq> 2 + unat resp_data_len then Some (Inl MODBUS_ERROR)
          else do {
            file_resp_len \<leftarrow> rd pdu 2;
            let need = 1 + record_length * 2;
            ref \<leftarrow> rd pdu 3;
            if ucast file_resp_len \<noteq> need \<or> ref \<noteq> MODBUS_FILE_REF_TYPE \<or> resp_data_len \<noteq> 1 + file_resp_len
            then Some (Inl MODBUS_ERROR)
            else do { regs \<leftarrow> rd16_span pdu 4 (unat record_length); Some (Inr regs) }
          }
        }
      })"

record modbus_master_devid =
  read_device_id_code :: u8
  conformity_level :: u8
  more_follows :: u8
  next_object_id :: u8
  object_count :: u8
  devid_objects :: "(u8 \<times> u8 list) list"

text \<open>\<open>n\<close> objects are left at position \<open>pos\<close>; each is its id and its value cut at 64 bytes.\<close>

fun devid_objects_loop :: "u8 list \<Rightarrow> nat \<Rightarrow> nat \<Rightarrow> (u8 \<times> u8 list) list \<Rightarrow> (u8 \<times> u8 list) list outcome option" where
  "devid_objects_loop pdu 0 pos acc = Some (Inr acc)"
| "devid_objects_loop pdu (Suc n) pos acc =
     (if pos + 2 > length pdu then Some (Inl MODBUS_ERROR)
      else do {
        oid \<leftarrow> rd pdu pos;
        slen \<leftarrow> rd pdu (pos + 1);
        if pos + 2 + unat slen > length pdu then Some (Inl MODBUS_ERROR)
        else do {
          let copy = (if slen > MODBUS_MASTER_DEVID_VALUE_MAX then MODBUS_MASTER_DEVID_VALUE_MAX else slen);
          v \<leftarrow> rd_span pdu (pos + 2) (unat copy);
          devid_objects_loop pdu n (pos + 2 + unat slen) (acc @ [(oid, v)])
        }
      })"

definition modbus_master_parse_device_id :: "u8 list \<Rightarrow> modbus_master_devid outcome option" where
  "modbus_master_parse_device_id pdu =
     (if length pdu < 7 then Some (Inl MODBUS_ERROR)
      else do {
        fc \<leftarrow> rd pdu 0; mei \<leftarrow> rd pdu 1;
        if fc \<noteq> MODBUS_FC_ENCAPSULATED_INTERFACE \<or> mei \<noteq> MODBUS_MEI_READ_DEVICE_ID then Some (Inl MODBUS_ERROR)
        else do {
          c \<leftarrow> rd pdu 2; l \<leftarrow> rd pdu 3; m \<leftarrow> rd pdu 4; o' \<leftarrow> rd pdu 5; n \<leftarrow> rd pdu 6;
          let n = (if n > MODBUS_MASTER_DEVID_OBJECTS_MAX then MODBUS_MASTER_DEVID_OBJECTS_MAX else n);
          objs \<leftarrow> devid_objects_loop pdu (unat n) 7 [];
          Some (case objs of Inl e \<Rightarrow> Inl e
            | Inr os \<Rightarrow> Inr \<lparr>read_device_id_code = c, conformity_level = l, more_follows = m,
                next_object_id = o', object_count = n, devid_objects = os\<rparr>)
        }
      })"

definition modbus_master_parse_echo :: "u8 list \<Rightarrow> u8 list \<Rightarrow> modbus_status" where
  "modbus_master_parse_echo pdu req_pdu =
     (if length pdu \<noteq> length req_pdu \<or> length req_pdu = 0 then MODBUS_ERROR
      else if \<exists>i \<in> set [0..<length req_pdu]. pdu ! i \<noteq> req_pdu ! i then MODBUS_ERROR
      else MODBUS_OK)"

definition modbus_master_parse_report_server_id :: "u8 list \<Rightarrow> u8 \<Rightarrow> (u8 list \<times> u8) outcome option" where
  "modbus_master_parse_report_server_id pdu id_max =
     (if length pdu < 3 then Some (Inl MODBUS_ERROR)
      else do {
        fc \<leftarrow> rd pdu 0;
        if fc \<noteq> MODBUS_FC_REPORT_SERVER_ID then Some (Inl MODBUS_ERROR)
        else do {
          byte_count \<leftarrow> rd pdu 1;
          if byte_count < 1 \<or> length pdu \<noteq> 2 + unat byte_count then Some (Inl MODBUS_ERROR)
          else
            let id_len = byte_count - 1 in
            if id_len > id_max then Some (Inl MODBUS_ERROR)
            else do {
              i \<leftarrow> rd_span pdu 2 (unat id_len);
              run \<leftarrow> rd pdu (2 + unat id_len);
              Some (Inr (i, run))
            }
        }
      })"

definition modbus_master_parse_read_fifo_queue :: "u8 list \<Rightarrow> u8 \<Rightarrow> u16 list outcome option" where
  "modbus_master_parse_read_fifo_queue pdu regs_max =
     (if length pdu < 5 then Some (Inl MODBUS_ERROR)
      else do {
        fc \<leftarrow> rd pdu 0;
        if fc \<noteq> MODBUS_FC_READ_FIFO_QUEUE then Some (Inl MODBUS_ERROR)
        else do {
          byte_count \<leftarrow> rd16 pdu 1;
          fifo_count \<leftarrow> rd16 pdu 3;
          if fifo_count > 31 \<or> unat byte_count \<noteq> 2 + 2 * unat fifo_count \<or> length pdu \<noteq> 5 + 2 * unat fifo_count
          then Some (Inl MODBUS_ERROR)
          else if fifo_count > ucast regs_max then Some (Inl MODBUS_ERROR)
          else do { regs \<leftarrow> rd16_span pdu 5 (unat fifo_count); Some (Inr regs) }
        }
      })"

section \<open>Every parser stays within its PDU\<close>

lemma parse_bits_total: "modbus_master_parse_read_bits pdu q m \<noteq> None"
  by (auto simp: modbus_master_parse_read_bits_def rd_def rd_span_Some Let_def)

lemma byte_of_double: "unat (q :: u16) \<le> 127 \<Longrightarrow> unat (ucast (q * 2) :: u8) = unat q * 2"
  by (simp add: unsigned_ucast_eq unat_word_ariths take_bit_nat_eq_self_iff)

lemma parse_registers_total:
  assumes "unat q \<le> 127"
  shows "modbus_master_parse_read_registers pdu q \<noteq> None"
  using byte_of_double [OF assms]
  by (auto simp: modbus_master_parse_read_registers_def rd_def rd16_span_Some)

lemma parse_others_total:
  "modbus_master_parse_exception_status pdu \<noteq> None"
  "modbus_master_parse_diagnostics pdu sub \<noteq> None"
  "modbus_master_parse_get_comm_event_counter pdu \<noteq> None"
  by (auto simp: modbus_master_parse_exception_status_def modbus_master_parse_diagnostics_def
      modbus_master_parse_get_comm_event_counter_def rd_def rd16_Some)

lemma parse_event_log_total: "modbus_master_parse_get_comm_event_log pdu m \<noteq> None"
proof -
  have "\<not> bc < 6 \<Longrightarrow> unat (bc - 6) = unat bc - 6" for bc :: u8
    by (simp add: unat_sub_if' word_less_nat_alt)
  then show ?thesis
    by (auto simp: modbus_master_parse_get_comm_event_log_def rd_def rd16_Some rd_span_Some
        word_less_nat_alt Let_def split: option.split)
qed

lemma parse_file_total:
  assumes "unat n \<le> 32767"
  shows "modbus_master_parse_read_file_record pdu n \<noteq> None"
proof -
  have n: "unat (1 + n * 2) = 1 + unat n * 2" using assms by (simp add: unat_word_ariths)
  have "4 + 2 * unat n \<le> length pdu"
    if "ucast f = 1 + n * 2" "length pdu = 2 + unat (1 + f)" "4 \<le> length pdu" for f :: u8
  proof -
    have "unat f = 1 + unat n * 2" using that(1) n by (metis unat_ucast_u8_u16)
    moreover have "unat (1 + f) = 1 + unat f"
    proof (rule ccontr)
      assume "unat (1 + f) \<noteq> 1 + unat f"
      then have "unat (1 + f) = 0" using unat_u8_less [of f]
        by (simp add: unat_word_ariths) (metis Suc_lessI mod_less mod_self)
      with that(2,3) show False by simp
    qed
    ultimately show ?thesis using that(2) by simp
  qed
  then show ?thesis
    by (auto simp: modbus_master_parse_read_file_record_def rd_def rd16_span_Some Let_def)
qed

lemma devid_objects_total: "devid_objects_loop pdu n pos acc \<noteq> None"
proof (induction n arbitrary: pos acc)
  case (Suc n)
  from Suc show ?case by (auto simp: rd_def rd_span_Some Let_def word_less_nat_alt)
qed simp

lemma parse_device_id_total: "modbus_master_parse_device_id pdu \<noteq> None"
proof -
  obtain r where "devid_objects_loop pdu (unat (if pdu ! 6 > 8 then 8 else pdu ! 6)) 7 [] = Some r"
    using devid_objects_total by blast
  then show ?thesis
    by (cases "8 < pdu ! 6") (auto simp: modbus_master_parse_device_id_def rd_def Let_def)
qed

lemma parse_server_id_total: "modbus_master_parse_report_server_id pdu m \<noteq> None"
proof -
  have "\<not> bc < 1 \<Longrightarrow> unat (bc - 1) = unat bc - 1 \<and> 0 < unat bc" for bc :: u8
    by (simp add: unat_sub_if' word_less_nat_alt)
  then show ?thesis
    by (auto simp: modbus_master_parse_report_server_id_def rd_def rd_span_Some Let_def)
qed

lemma parse_fifo_total: "modbus_master_parse_read_fifo_queue pdu m \<noteq> None"
  by (auto simp: modbus_master_parse_read_fifo_queue_def rd_def rd16_Some rd16_span_Some)

lemma parse_echo_iff: "modbus_master_parse_echo pdu req = MODBUS_OK \<longleftrightarrow> pdu = req \<and> req \<noteq> []"
  by (auto simp: modbus_master_parse_echo_def intro: nth_equalityI)

end
