(* ===== verification/Master.thy ===== *)
theory Master
  imports Master_Parse
begin

text \<open>
  The transaction of the Modbus master and its high-level calls, \<open>src/modbus_master.c\<close>. The
  transport is a record of the callbacks of \<open>modbus_master_transport_t\<close> over a world \<open>'w\<close> that
  holds whatever state the transport has; \<open>None\<close> is a callback that does not return or reads
  out of bounds.
\<close>

section \<open>The transport\<close>

record 'w transport =
  t_send :: "u8 list \<Rightarrow> 'w \<Rightarrow> (modbus_status \<times> 'w) option"
  t_recv :: "nat \<Rightarrow> u32 \<Rightarrow> 'w \<Rightarrow> (modbus_status \<times> u8 list \<times> 'w) option"
  t_delay_t35 :: "'w \<Rightarrow> 'w option"
  t_flush_rx :: "'w \<Rightarrow> 'w option"
  t_end :: "('w \<Rightarrow> 'w) option"

text \<open>The statics \<open>s_transport\<close> (\<open>None\<close> is the null pointer) and \<open>s_timeout_ms\<close>.\<close>

record 'w master =
  s_transport :: "'w transport option"
  s_timeout_ms :: u32

definition modbus_master_init :: "'w transport option \<Rightarrow> 'w master \<Rightarrow> 'w master" where
  "modbus_master_init transport m = m\<lparr>s_transport := transport\<rparr>"

definition modbus_master_get_timeout_ms :: "'w master \<Rightarrow> u32" where
  "modbus_master_get_timeout_ms m = s_timeout_ms m"

section \<open>Transaction\<close>

definition finish :: "'w transport \<Rightarrow> 'w \<Rightarrow> 'w" where
  "finish tr w = (case t_end tr of Some e \<Rightarrow> e w | None \<Rightarrow> w)"

text \<open>What the code does with the validated response PDU.\<close>

definition check_response :: "u8 \<Rightarrow> nat \<Rightarrow> u8 list \<Rightarrow> (u8 list outcome \<times> u8) option" where
  "check_response req_fc resp_pdu_max pdu =
     (if length pdu < 1 then Some (Inl MODBUS_ERROR, 0)
      else do {
        fc \<leftarrow> rd pdu 0;
        if fc AND 0x80 \<noteq> 0 then
          (if length pdu < 2 \<or> fc AND 0x7F \<noteq> req_fc then Some (Inl MODBUS_ERROR, 0)
           else do { code \<leftarrow> rd pdu 1; Some (Inl MODBUS_EXCEPTION, code) })
        else if fc \<noteq> req_fc then Some (Inl MODBUS_ERROR, 0)
        else if length pdu > resp_pdu_max then Some (Inl MODBUS_ERROR, 0)
        else Some (Inr pdu, 0)
      })"

text \<open>The result is the response PDU or the error status, \<open>*exception_code\<close>, and the world.\<close>

definition modbus_master_transaction ::
    "'w transport option \<Rightarrow> u8 \<Rightarrow> u8 list \<Rightarrow> nat \<Rightarrow> u32 \<Rightarrow> 'w \<Rightarrow> (u8 list outcome \<times> u8 \<times> 'w) option" where
  "modbus_master_transaction tro slave_id req_pdu resp_pdu_max timeout_ms w =
     (case tro of None \<Rightarrow> Some (Inl MODBUS_ERROR, 0, w)
      | Some tr \<Rightarrow>
        if length req_pdu = 0 then Some (Inl MODBUS_ERROR, 0, w)
        else
          let adu_tx = modbus_master_rtu_frame slave_id req_pdu MODBUS_RTU_FRAME_MAX in
          if length adu_tx = 0 then Some (Inl MODBUS_ERROR, 0, w)
          else do {
            w \<leftarrow> t_flush_rx tr w;
            w \<leftarrow> t_delay_t35 tr w;
            (st, w) \<leftarrow> t_send tr adu_tx w;
            if st \<noteq> MODBUS_OK then Some (Inl st, 0, finish tr w)
            else if slave_id = 0 then Some (Inr [], 0, finish tr w)
            else do {
              (st, adu_rx, w) \<leftarrow> t_recv tr MODBUS_RTU_FRAME_MAX timeout_ms w;
              if st \<noteq> MODBUS_OK then Some (Inl st, 0, finish tr w)
              else do {
                v \<leftarrow> modbus_master_rtu_validate_response slave_id adu_rx;
                (case v of
                   Inl st \<Rightarrow> Some (Inl st, 0, finish tr w)
                 | Inr pdu \<Rightarrow> do {
                     req_fc \<leftarrow> rd req_pdu 0;
                     (r, code) \<leftarrow> check_response req_fc resp_pdu_max pdu;
                     Some (r, code, finish tr w)
                   })
              }
            }
          })"

section \<open>High-level calls\<close>

definition master_xact_and_check_echo_addr ::
    "'w master \<Rightarrow> u8 \<Rightarrow> u8 list \<Rightarrow> nat \<Rightarrow> 'w \<Rightarrow> (u8 list outcome \<times> u8 \<times> 'w) option" where
  "master_xact_and_check_echo_addr m slave req resp_max w =
     modbus_master_transaction (s_transport m) slave req resp_max (s_timeout_ms m) w"

text \<open>
  The frame common to the calls: nothing is sent when the builder returned 0; after a transaction
  that went well the response (in a 256-byte buffer) goes to the call's parser.
\<close>

definition master_call ::
    "'w master \<Rightarrow> u8 \<Rightarrow> u8 list \<Rightarrow> (u8 list \<Rightarrow> 'a outcome option) \<Rightarrow> 'w \<Rightarrow> ('a outcome \<times> u8 \<times> 'w) option" where
  "master_call m slave req parse w =
     (if length req = 0 then Some (Inl MODBUS_ERROR, 0, w)
      else do {
        (r, ex, w) \<leftarrow> master_xact_and_check_echo_addr m slave req 256 w;
        (case r of
           Inl st \<Rightarrow> Some (Inl st, ex, w)
         | Inr resp \<Rightarrow> do { out \<leftarrow> parse resp; Some (out, ex, w) })
      })"

definition bad_args :: "'w \<Rightarrow> ('a outcome \<times> u8 \<times> 'w) option" where
  "bad_args w = Some (Inl MODBUS_ERROR, 0, w)"

definition modbus_master_read_coils where
  "modbus_master_read_coils m slave start quantity bits_out_max w =
     master_call m slave (modbus_master_build_read MODBUS_FC_READ_COILS start quantity 5)
       (\<lambda>resp. modbus_master_parse_read_bits resp quantity bits_out_max) w"

definition modbus_master_read_discrete_inputs where
  "modbus_master_read_discrete_inputs m slave start quantity bits_out_max w =
     master_call m slave (modbus_master_build_read MODBUS_FC_READ_DISCRETE_INPUTS start quantity 5)
       (\<lambda>resp. modbus_master_parse_read_bits resp quantity bits_out_max) w"

definition modbus_master_read_holding_registers where
  "modbus_master_read_holding_registers m slave start quantity w =
     (if quantity < 1 \<or> quantity > 125 then bad_args w
      else master_call m slave (modbus_master_build_read MODBUS_FC_READ_HOLDING_REGISTERS start quantity 5)
        (\<lambda>resp. modbus_master_parse_read_registers resp quantity) w)"

definition modbus_master_read_input_registers where
  "modbus_master_read_input_registers m slave start quantity w =
     (if quantity < 1 \<or> quantity > 125 then bad_args w
      else master_call m slave (modbus_master_build_read MODBUS_FC_READ_INPUT_REGISTERS start quantity 5)
        (\<lambda>resp. modbus_master_parse_read_registers resp quantity) w)"

text \<open>The check \<open>resp_len != 5U || resp[0] != fc\<close> of the write calls.\<close>

definition check_write_response :: "u8 \<Rightarrow> u8 list \<Rightarrow> unit outcome option" where
  "check_write_response fc resp =
     (if length resp \<noteq> 5 then Some (Inl MODBUS_ERROR)
      else do { r \<leftarrow> rd resp 0; if r \<noteq> fc then Some (Inl MODBUS_ERROR) else Some (Inr ()) })"

definition modbus_master_write_single_coil where
  "modbus_master_write_single_coil m slave addr on w =
     master_call m slave (modbus_master_build_write_single_coil addr on 5) (check_write_response MODBUS_FC_WRITE_SINGLE_COIL) w"

definition modbus_master_write_single_register where
  "modbus_master_write_single_register m slave addr val w =
     master_call m slave (modbus_master_build_write_single_register addr val 5) (check_write_response MODBUS_FC_WRITE_SINGLE_REGISTER) w"

definition modbus_master_write_multiple_coils where
  "modbus_master_write_multiple_coils m slave start quantity bits w = do {
     req \<leftarrow> modbus_master_build_write_multiple_coils start quantity bits 256;
     master_call m slave req (check_write_response MODBUS_FC_WRITE_MULTIPLE_COILS) w
   }"

definition modbus_master_write_multiple_registers where
  "modbus_master_write_multiple_registers m slave start quantity regs w = do {
     req \<leftarrow> modbus_master_build_write_multiple_registers start quantity regs 256;
     master_call m slave req (check_write_response MODBUS_FC_WRITE_MULTIPLE_REGISTERS) w
   }"

definition modbus_master_read_exception_status where
  "modbus_master_read_exception_status m slave w =
     master_call m slave (modbus_master_build_read_exception_status 1) modbus_master_parse_exception_status w"

definition modbus_master_diag_query_data where
  "modbus_master_diag_query_data m slave data w =
     master_call m slave (modbus_master_build_diagnostics MODBUS_DIAG_SUB_RETURN_QUERY_DATA data 5)
       (\<lambda>resp. modbus_master_parse_diagnostics resp MODBUS_DIAG_SUB_RETURN_QUERY_DATA) w"

text \<open>A broadcast returns before the response is parsed.\<close>

definition unless_broadcast :: "u8 \<Rightarrow> (u8 list \<Rightarrow> 'a outcome option) \<Rightarrow> u8 list \<Rightarrow> unit outcome option" where
  "unless_broadcast slave parse resp =
     (if slave = 0 then Some (Inr ()) else map_option (map_sum id (\<lambda>_. ())) (parse resp))"

definition modbus_master_diag_restart_comm where
  "modbus_master_diag_restart_comm m slave clear_event_log w =
     master_call m slave (modbus_master_build_diagnostics MODBUS_DIAG_SUB_RESTART_COMM (if clear_event_log then 0xFF00 else 0x0000) 5)
       (unless_broadcast slave (\<lambda>resp. modbus_master_parse_diagnostics resp MODBUS_DIAG_SUB_RESTART_COMM)) w"

definition modbus_master_diag_clear_counters where
  "modbus_master_diag_clear_counters m slave w =
     master_call m slave (modbus_master_build_diagnostics MODBUS_DIAG_SUB_CLEAR_COUNTERS 0x0000 5)
       (unless_broadcast slave (\<lambda>resp. modbus_master_parse_diagnostics resp MODBUS_DIAG_SUB_CLEAR_COUNTERS)) w"

definition modbus_master_diag_read_counter where
  "modbus_master_diag_read_counter m slave sub_function w =
     (if sub_function < MODBUS_DIAG_SUB_BUS_MESSAGE_COUNT \<or> sub_function > MODBUS_DIAG_SUB_BUS_CHAR_OVERRUN_COUNT then bad_args w
      else master_call m slave (modbus_master_build_diagnostics sub_function 0x0000 5)
        (\<lambda>resp. modbus_master_parse_diagnostics resp sub_function) w)"

definition modbus_master_get_comm_event_counter where
  "modbus_master_get_comm_event_counter m slave w =
     (if slave = 0 then bad_args w
      else master_call m slave (modbus_master_build_get_comm_event_counter 1)
        modbus_master_parse_get_comm_event_counter w)"

definition modbus_master_get_comm_event_log where
  "modbus_master_get_comm_event_log m slave events_max w =
     (if slave = 0 then bad_args w
      else master_call m slave (modbus_master_build_get_comm_event_log 1)
        (\<lambda>resp. modbus_master_parse_get_comm_event_log resp events_max) w)"

definition modbus_master_read_file_record where
  "modbus_master_read_file_record m slave file_number record_number record_length w =
     master_call m slave (modbus_master_build_read_file_record file_number record_number record_length 16)
       (\<lambda>resp. modbus_master_parse_read_file_record resp record_length) w"

text \<open>The byte-by-byte comparison with the request.\<close>

definition check_echo :: "u8 list \<Rightarrow> u8 list \<Rightarrow> unit outcome option" where
  "check_echo req resp =
     (if length resp \<noteq> length req then Some (Inl MODBUS_ERROR)
      else if \<exists>i \<in> set [0..<length req]. resp ! i \<noteq> req ! i then Some (Inl MODBUS_ERROR)
      else Some (Inr ()))"

definition modbus_master_write_file_record where
  "modbus_master_write_file_record m slave file_number record_number record_length regs w = do {
     req \<leftarrow> modbus_master_build_write_file_record file_number record_number record_length regs 256;
     master_call m slave req (check_echo req) w
   }"

definition modbus_master_read_write_multiple_registers where
  "modbus_master_read_write_multiple_registers m slave read_start read_qty write_start write_qty write_regs w = do {
     req \<leftarrow> modbus_master_build_read_write_multiple_registers read_start read_qty write_start write_qty write_regs 256;
     master_call m slave req (\<lambda>resp. modbus_master_parse_read_registers resp read_qty) w
   }"

definition modbus_master_read_device_identification where
  "modbus_master_read_device_identification m slave read_device_id object_id w =
     master_call m slave (modbus_master_build_read_device_id read_device_id object_id 4)
       modbus_master_parse_device_id w"

definition modbus_master_report_server_id where
  "modbus_master_report_server_id m slave id_max w =
     (if slave = 0 then bad_args w
      else master_call m slave (modbus_master_build_report_server_id 1)
        (\<lambda>resp. modbus_master_parse_report_server_id resp id_max) w)"

definition modbus_master_mask_write_register where
  "modbus_master_mask_write_register m slave addr and_mask or_mask w =
     (let req = modbus_master_build_mask_write_register addr and_mask or_mask 7 in
      master_call m slave req
        (unless_broadcast slave (\<lambda>resp. Some (case modbus_master_parse_echo resp req of
           MODBUS_OK \<Rightarrow> Inr () | st \<Rightarrow> Inl st))) w)"

definition modbus_master_read_fifo_queue where
  "modbus_master_read_fifo_queue m slave fifo_addr regs_max w =
     (if slave = 0 then bad_args w
      else master_call m slave (modbus_master_build_read_fifo_queue fifo_addr 3)
        (\<lambda>resp. modbus_master_parse_read_fifo_queue resp regs_max) w)"

end
