(* ===== verification/Master_Link.thy ===== *)
theory Master_Link
  imports Master
begin

text \<open>
  What the master's transactions and calls do, \<open>src/modbus_master.c\<close>: first over an arbitrary
  transport, then, in the locale \<open>master_link\<close>, over one that carries the request frame to a
  device and its answer back. The locale is interpreted on the board's own RS485 transport, with
  the slave of this library at the other end, in the theory \<open>Bus_Link\<close>.
\<close>

section \<open>Any transport\<close>

lemma master_frame_seal:
  "modbus_master_rtu_frame a pdu 256 = (if pdu = [] \<or> length pdu > 253 then [] else rtu_seal modbus_crc16 (a # pdu))"
  using master_frame_eq [of pdu a] by (auto simp: modbus_master_rtu_frame_def)

lemma check_response_total: "pdu \<noteq> [] \<Longrightarrow> \<exists>r. check_response fc m pdu = Some r"
  by (cases pdu; cases "tl pdu") (auto simp: check_response_def rd_def)

lemma check_response_Inr:
  "check_response fc m pdu = Some (Inr out, c) \<Longrightarrow> out = pdu \<and> c = 0 \<and> length pdu \<le> m \<and> pdu \<noteq> [] \<and> hd pdu = fc"
  by (cases pdu) (auto simp: check_response_def split: if_splits bind_splits)

lemma check_response_exc:
  "check_response fc m pdu = Some (Inl MODBUS_EXCEPTION, c) \<Longrightarrow>
    2 \<le> length pdu \<and> c = pdu ! 1 \<and> hd pdu AND 0x7F = fc \<and> hd pdu AND 0x80 \<noteq> 0"
  by (cases pdu) (auto simp: check_response_def rd_def Suc_le_eq split: if_splits bind_splits)

text \<open>The three steps before the answer.\<close>

definition request_sent :: "'w transport \<Rightarrow> u8 \<Rightarrow> u8 list \<Rightarrow> 'w \<Rightarrow> (modbus_status \<times> 'w) option" where
  "request_sent tr a req w = do {
     w \<leftarrow> t_flush_rx tr w;
     w \<leftarrow> t_delay_t35 tr w;
     t_send tr (rtu_seal modbus_crc16 (a # req)) w
   }"

lemma transaction_eq:
  assumes "req \<noteq> []" and "length req \<le> 253"
  shows "modbus_master_transaction (Some tr) a req m tmo w =
    do {
     (st, w1) \<leftarrow> request_sent tr a req w;
     if st \<noteq> MODBUS_OK then Some (Inl st, 0, finish tr w1)
     else if a = 0 then Some (Inr [], 0, finish tr w1)
     else do {
       (st, adu, w2) \<leftarrow> t_recv tr 256 tmo w1;
       if st \<noteq> MODBUS_OK then Some (Inl st, 0, finish tr w2)
       else do {
         v \<leftarrow> modbus_master_rtu_validate_response a adu;
         (case v of Inl st \<Rightarrow> Some (Inl st, 0, finish tr w2)
          | Inr pdu \<Rightarrow> do { (r, c) \<leftarrow> check_response (hd req) m pdu; Some (r, c, finish tr w2) })
       }
     }
    }"
proof -
  have "rd req 0 = Some (hd req)" using assms(1) by (cases req) auto
  then show ?thesis
    using assms
    by (simp add: modbus_master_transaction_def master_frame_seal request_sent_def rtu_seal_def Let_def
        cong: if_cong cong del: sum.case_cong_weak prod.case_cong_weak)
qed

lemma transaction_idle:
  "req = [] \<or> length req > 253 \<Longrightarrow> modbus_master_transaction (Some tr) a req m tmo w = Some (Inl MODBUS_ERROR, 0, w)"
  by (auto simp: modbus_master_transaction_def master_frame_seal Let_def)

text \<open>
  A transaction runs to its end when the callbacks do: \<open>P\<close> holds of the world while it is on its way
  and \<open>Q\<close> when it is over.
\<close>

lemma transaction_total:
  assumes sent: "\<exists>st w'. request_sent tr a req w = Some (st, w') \<and> P w'"
    and recv: "\<And>w. P w \<Longrightarrow> \<exists>st adu w'. t_recv tr 256 tmo w = Some (st, adu, w') \<and> P w'"
    and finish: "\<And>w. P w \<Longrightarrow> Q (finish tr w)" and "Q w"
  shows "\<exists>r c w'. modbus_master_transaction (Some tr) a req m tmo w = Some (r, c, w') \<and> Q w'"
proof (cases "req = [] \<or> length req > 253")
  case True
  with \<open>Q w\<close> show ?thesis by (simp add: transaction_idle)
next
  case False
  obtain st w1 where s: "request_sent tr a req w = Some (st, w1)" "P w1" using sent by auto
  obtain st2 adu w2 where r: "t_recv tr 256 tmo w1 = Some (st2, adu, w2)" "P w2" using recv [OF s(2)] by auto
  obtain v where v: "modbus_master_rtu_validate_response a adu = Some v" using validate_total by blast
  show ?thesis
  proof (cases v)
    case (Inr pdu)
    with v validate_sound [of a adu pdu] have "pdu \<noteq> []" by simp
    with check_response_total obtain x where "check_response (hd req) m pdu = Some x" by blast
    with False s r v Inr finish show ?thesis by (cases x) (simp add: transaction_eq)
  qed (use False s r v finish in \<open>simp add: transaction_eq\<close>)
qed

lemma transaction_OK:
  assumes "modbus_master_transaction (Some tr) a req m tmo w = Some (Inr pdu, c, w')" and "a \<noteq> 0"
  shows "\<exists>w1 adu w2. request_sent tr a req w = Some (MODBUS_OK, w1) \<and> t_recv tr 256 tmo w1 = Some (MODBUS_OK, adu, w2) \<and>
    adu = rtu_seal modbus_crc16 (a # pdu) \<and> w' = finish tr w2 \<and>
    c = 0 \<and> pdu \<noteq> [] \<and> hd pdu = hd req \<and> length pdu \<le> m"
proof -
  have req: "req \<noteq> []" "length req \<le> 253"
    using assms(1) transaction_idle [of req tr a m tmo w] by (auto simp: not_less [symmetric])
  from assms req show ?thesis
    by (auto simp: transaction_eq split: if_splits bind_splits sum.splits prod.splits
        dest!: validate_sound check_response_Inr)
qed

lemma exception_bits: "(fc :: u8) AND 0x80 = 0 \<Longrightarrow> (fc OR 0x80) AND 0x80 = 0x80 \<and> (fc OR 0x80) AND 0x7F = fc"
proof -
  assume h: "fc AND 0x80 = 0"
  have "fc AND 0x7F = fc AND (0x7F OR 0x80)" using h by (simp only: bit.conj_disj_distrib) simp
  also have "(0x7F OR 0x80 :: u8) = - 1" by simp
  finally show ?thesis by (simp add: bit.conj_disj_distrib2 h)
qed

lemma parse_regs_back: "rd16_span (a # b # be_bytes vs) 2 (length vs) = Some vs"
  using rd16_span_append [of "[a, b]" vs "[]"] by (simp add: numeral_2_eq_2)

section \<open>A transport that reaches a device\<close>

text \<open>
  The contract of a link: in a \<open>ready\<close> world a well-formed request reaches the device with address
  \<open>a\<close>, whose state is \<open>dev\<close> and whose behaviour is \<open>serve\<close>; its answer comes back as a sealed
  frame within the time allowed, or the receive call times out when it is silent, and the world is
  ready again.
\<close>

locale master_link =
  fixes tr :: "'w transport" and tmo :: u32 and a :: u8
    and ready :: "'w \<Rightarrow> bool" and dev :: "'w \<Rightarrow> 's" and serve :: "u8 list \<Rightarrow> 's \<Rightarrow> u8 list \<times> 's"
  assumes address: "a \<noteq> 0"
    and answer_fits: "ready w \<Longrightarrow> pdu \<noteq> [] \<Longrightarrow> length pdu \<le> 253 \<Longrightarrow> length (fst (serve pdu (dev w))) \<le> 253"
    and exchange: "ready w \<Longrightarrow> pdu \<noteq> [] \<Longrightarrow> length pdu \<le> 253 \<Longrightarrow> serve pdu (dev w) = (resp, d) \<Longrightarrow>
      \<exists>w1 w2. request_sent tr a pdu w = Some (MODBUS_OK, w1) \<and>
        t_recv tr 256 tmo w1 = Some (if resp = [] then (MODBUS_TIMEOUT, [], w2)
                                     else (MODBUS_OK, rtu_seal modbus_crc16 (a # resp), w2)) \<and>
        ready (finish tr w2) \<and> dev (finish tr w2) = d"
begin

definition linked :: "'w master \<Rightarrow> bool" where
  "linked m \<longleftrightarrow> s_transport m = Some tr \<and> s_timeout_ms m = tmo"

lemma link_transaction:
  assumes "ready w" and req: "req \<noteq> []" "length req \<le> 253" and s: "serve req (dev w) = (resp, d)"
  shows "\<exists>w'. ready w' \<and> dev w' = d \<and>
    (\<forall>m. modbus_master_transaction (Some tr) a req m tmo w =
      Some (if resp = [] then (Inl MODBUS_TIMEOUT, 0, w')
            else case the (check_response (hd req) m resp) of (r, c) \<Rightarrow> (r, c, w')))"
proof -
  from exchange [OF assms(1) req s] obtain w1 w2 where
    w: "request_sent tr a req w = Some (MODBUS_OK, w1)"
      "t_recv tr 256 tmo w1 = Some (if resp = [] then (MODBUS_TIMEOUT, [], w2)
                                     else (MODBUS_OK, rtu_seal modbus_crc16 (a # resp), w2))"
      "ready (finish tr w2)" "dev (finish tr w2) = d" by blast
  have len: "length resp \<le> 253" using answer_fits [OF assms(1) req] s by simp
  have "modbus_master_transaction (Some tr) a req m tmo w =
      Some (if resp = [] then (Inl MODBUS_TIMEOUT, 0, finish tr w2)
            else case the (check_response (hd req) m resp) of (r, c) \<Rightarrow> (r, c, finish tr w2))" for m
  proof (cases "resp = []")
    case True
    with w req address show ?thesis by (auto simp: transaction_eq)
  next
    case False
    obtain r c where "check_response (hd req) m resp = Some (r, c)" using check_response_total [OF False] by (metis surj_pair)
    with False w req address validate_frame [OF False len] show ?thesis by (auto simp: transaction_eq)
  qed
  with w show ?thesis by blast
qed

lemma link_call:
  assumes "linked m" and "ready w" and req: "req \<noteq> []" "length req \<le> 253" and s: "serve req (dev w) = (resp, d)"
    and fc: "resp \<noteq> []" "hd resp = hd req" "hd req AND 0x80 = 0" and p: "parse resp = Some out"
  shows "\<exists>w'. ready w' \<and> dev w' = d \<and> master_call m a req parse w = Some (out, 0, w')"
proof -
  have len: "length resp \<le> 253" using answer_fits [OF assms(2) req] s by simp
  have "check_response (hd req) 256 resp = Some (Inr resp, 0)"
    using fc len by (cases resp) (auto simp: check_response_def)
  with link_transaction [OF assms(2) req s] fc p assms(1) req show ?thesis
    by (auto simp: master_call_def master_xact_and_check_echo_addr_def linked_def)
qed

lemma link_exception:
  assumes "linked m" and "ready w" and req: "req \<noteq> []" "length req \<le> 253" and s: "serve req (dev w) = (resp, d)"
    and e: "resp = [hd req OR 0x80, code]" "hd req AND 0x80 = 0"
  shows "\<exists>w'. ready w' \<and> dev w' = d \<and>
    (\<forall>n. modbus_master_transaction (Some tr) a req n tmo w = Some (Inl MODBUS_EXCEPTION, code, w')) \<and>
    (\<forall>parse. master_call m a req parse w = Some (Inl MODBUS_EXCEPTION, code, w'))"
proof -
  have "(hd req OR 0x80) AND 0x80 = 0x80" "(hd req OR 0x80) AND 0x7F = hd req"
    using e(2) exception_bits by auto
  then have "check_response (hd req) n resp = Some (Inl MODBUS_EXCEPTION, code)" for n
    by (simp add: check_response_def e(1) rd_def)
  with link_transaction [OF assms(2) req s] e(1) obtain w' where
    w': "ready w'" "dev w' = d" "modbus_master_transaction (Some tr) a req n tmo w = Some (Inl MODBUS_EXCEPTION, code, w')" for n
    by auto
  with assms(1) req have "master_call m a req parse w = Some (Inl MODBUS_EXCEPTION, code, w')" for parse
    by (simp add: master_call_def master_xact_and_check_echo_addr_def linked_def)
  with w' show ?thesis by blast
qed

lemma link_call_silent:
  assumes "linked m" and "ready w" and req: "req \<noteq> []" "length req \<le> 253" and s: "serve req (dev w) = ([], d)"
  shows "\<exists>w'. ready w' \<and> dev w' = d \<and> master_call m a req parse w = Some (Inl MODBUS_TIMEOUT, 0, w')"
  using link_transaction [OF assms(2) req s] assms(1) req
  by (auto simp: master_call_def master_xact_and_check_echo_addr_def linked_def)

text \<open>The register calls.\<close>

lemma link_read_registers:
  assumes "linked m" and "ready w" and q: "1 \<le> unat quantity" "unat quantity \<le> 125"
    and s: "serve (0x03 # be_bytes [start, quantity]) (dev w) = (0x03 # ucast (quantity * 2) # be_bytes vs, d)"
    and vs: "length vs = unat quantity"
  shows "\<exists>w'. ready w' \<and> dev w' = d \<and>
    modbus_master_read_holding_registers m a start quantity w = Some (Inr vs, 0, w')"
proof -
  have b: "rd16_span (0x03 # ucast (quantity * 2) # be_bytes vs) 2 (unat quantity) = Some vs"
    using parse_regs_back [of "0x03" _ vs] by (simp add: vs [symmetric])
  have "\<not> quantity < 1" "\<not> quantity > 125" using q by (simp_all add: word_less_nat_alt)
  moreover have "modbus_master_parse_read_registers (0x03 # ucast (quantity * 2) # be_bytes vs) quantity = Some (Inr vs)"
    using q vs byte_of_double [of quantity] \<open>\<not> quantity < 1\<close>
    by (simp add: modbus_master_parse_read_registers_def b)
  ultimately show ?thesis
    using link_call [OF assms(1,2) _ _ s, of "\<lambda>resp. modbus_master_parse_read_registers resp quantity"]
    by (simp add: modbus_master_read_holding_registers_def build_read_eq)
qed

lemma link_write_registers:
  assumes "linked m" and "ready w" and q: "1 \<le> unat quantity" "unat quantity \<le> 123" "unat quantity \<le> length vs"
    and s: "serve (0x10 # be_bytes [start, quantity] @ ucast (quantity * 2) # be_bytes (take (unat quantity) vs)) (dev w) =
      (0x10 # be_bytes [start, quantity], d)"
  shows "\<exists>w'. ready w' \<and> dev w' = d \<and>
    modbus_master_write_multiple_registers m a start quantity vs w = Some (Inr (), 0, w')"
proof -
  have "\<not> quantity < 1" "\<not> quantity > 123" using q by (simp_all add: word_less_nat_alt)
  then have "modbus_master_build_write_multiple_registers start quantity vs 256 =
      Some (0x10 # be_bytes [start, quantity] @ ucast (quantity * 2) # be_bytes (take (unat quantity) vs))"
    using q byte_of_double [of quantity]
    by (simp add: modbus_master_build_write_multiple_registers_def put_regs_eq put_u16_be_eq Let_def)
  moreover have "check_write_response 0x10 (0x10 # be_bytes [start, quantity]) = Some (Inr ())"
    by (simp add: check_write_response_def)
  ultimately show ?thesis
    using q link_call [OF assms(1,2) _ _ s, of "check_write_response 0x10"]
    by (simp add: modbus_master_write_multiple_registers_def)
qed

lemma link_write_register:
  assumes "linked m" and "ready w" and s: "serve (0x06 # be_bytes [addr, v]) (dev w) = (0x06 # be_bytes [addr, v], d)"
  shows "\<exists>w'. ready w' \<and> dev w' = d \<and> modbus_master_write_single_register m a addr v w = Some (Inr (), 0, w')"
  using link_call [OF assms(1,2) _ _ s, of "check_write_response 0x06" "Inr ()"]
  by (simp add: modbus_master_write_single_register_def modbus_master_build_write_single_register_def put_u16_be_eq
      check_write_response_def rd_def)

lemma link_query_data:
  assumes "linked m" and "ready w" and s: "serve (0x08 # be_bytes [0, v]) (dev w) = (0x08 # be_bytes [0, v], d)"
  shows "\<exists>w'. ready w' \<and> dev w' = d \<and> modbus_master_diag_query_data m a v w = Some (Inr v, 0, w')"
  using link_call [OF assms(1,2) _ _ s, of "\<lambda>resp. modbus_master_parse_diagnostics resp 0x0000" "Inr v"]
  by (simp add: modbus_master_diag_query_data_def modbus_master_build_diagnostics_def put_u16_be_eq
      modbus_master_parse_diagnostics_def rd_def rd16_def)

end

end
