(* ===== verification/Master_Rtu.thy ===== *)
theory Master_Rtu
  imports Ports_Props Master_Link
begin

text \<open>
  The RS485 transport of the Modbus master, \<open>src/modbus_master_rtu.c\<close>: the five callbacks over the
  state of the serial ports. The polling loop of \<open>master_rtu_recv\<close> need not end (\<open>None\<close>); each
  round takes the interrupts that arrived since the last one, then polls the port and yields.
\<close>

section \<open>The callbacks\<close>

definition master_rtu_flush :: "'h serial \<Rightarrow> 'h serial" where
  "master_rtu_flush p = rs485_flush_rx (p\<lparr>s_waiting := True, s_frame_ready := False, s_frame_len := 0\<rparr>)"

definition master_rtu_delay_t35 :: "'h hal \<Rightarrow> 'h serial \<Rightarrow> 'h serial option" where
  "master_rtu_delay_t35 hal p = rs485_delay_t35 hal (p\<lparr>s_waiting := True\<rparr>)"

definition master_rtu_send :: "'h hal \<Rightarrow> u8 list \<Rightarrow> 'h serial \<Rightarrow> (modbus_status \<times> 'h serial) option" where
  "master_rtu_send hal adu p =
     (let p = p\<lparr>s_waiting := True, s_frame_ready := False\<rparr> in
      if length adu = 0 then Some (MODBUS_ERROR, p)
      else do {
        let p = rs485_set_tx_mode p;
        (st, p) \<leftarrow> rs485_send hal adu p;
        let p = rs485_set_rx_mode p;
        Some (if st = RS485_OK then MODBUS_OK else MODBUS_ERROR, p)
      })"

definition run_yield :: "'h hal \<Rightarrow> 'h serial \<Rightarrow> 'h serial option" where
  "run_yield hal p = (case yield_cb hal of Some cb \<Rightarrow> cb p | None \<Rightarrow> Some p)"

text \<open>The interrupts between two rounds, and the SysTick sample of the poll.\<close>

definition next_round :: "'h hal \<Rightarrow> 'h serial \<Rightarrow> (systick \<times> 'h serial) option" where
  "next_round hal p =
     (let (irqs, k, h) = poll_irqs hal (env p) in do { p \<leftarrow> take_irqs irqs (p\<lparr>env := h\<rparr>); Some (k, p) })"

partial_function (option) recv_loop ::
    "modbus_sync_hooks \<Rightarrow> 'h hal \<Rightarrow> u32 \<Rightarrow> u32 \<Rightarrow> nat \<Rightarrow> 'h serial \<Rightarrow> (modbus_status \<times> u8 list \<times> 'h serial) option" where
  "recv_loop hk hal start timeout_ms max_len p =
     next_round hal p \<bind> (\<lambda>(k, p).
       if sys_tick p - start < timeout_ms then
         rs485_process hk hal k p \<bind> (\<lambda>p.
         run_yield hal p \<bind> (\<lambda>p.
           if s_frame_ready p then
             rd_span (s_frame p) 0 (min (unat (s_frame_len p)) max_len) \<bind> (\<lambda>adu.
               Some (MODBUS_OK, adu, p\<lparr>s_frame_ready := False, s_frame_len := 0\<rparr>))
           else recv_loop hk hal start timeout_ms max_len p))
       else Some (MODBUS_TIMEOUT, [], p))"

definition master_rtu_recv ::
    "modbus_sync_hooks \<Rightarrow> 'h hal \<Rightarrow> nat \<Rightarrow> u32 \<Rightarrow> 'h serial \<Rightarrow> (modbus_status \<times> u8 list \<times> 'h serial) option" where
  "master_rtu_recv hk hal max_len timeout_ms p =
     (if max_len = 0 then Some (MODBUS_ERROR, [], p)
      else
        let p = p\<lparr>s_waiting := True\<rparr>; start = sys_tick p
        in recv_loop hk hal start timeout_ms max_len p)"

definition master_rtu_end :: "'h serial \<Rightarrow> 'h serial" where
  "master_rtu_end p = p\<lparr>s_waiting := False, s_frame_ready := False, s_frame_len := 0\<rparr>"

definition rtu_transport :: "modbus_sync_hooks \<Rightarrow> 'h hal \<Rightarrow> 'h serial transport" where
  "rtu_transport hk hal = \<lparr>t_send = master_rtu_send hal, t_recv = master_rtu_recv hk hal,
     t_delay_t35 = master_rtu_delay_t35 hal, t_flush_rx = (\<lambda>p. Some (master_rtu_flush p)), t_end = Some master_rtu_end\<rparr>"

definition modbus_master_rtu_init ::
    "modbus_sync_hooks \<Rightarrow> 'h hal \<Rightarrow> 'h serial \<Rightarrow> 'h serial master \<Rightarrow> 'h serial \<times> 'h serial master" where
  "modbus_master_rtu_init hk hal p m =
     (p\<lparr>s_waiting := False, s_frame_ready := False, s_frame_len := 0\<rparr>,
      (modbus_master_init (Some (rtu_transport hk hal)) m)\<lparr>s_timeout_ms := modbus_master_set_timeout_ms 500\<rparr>)"

definition modbus_master_rtu_set_yield_callback ::
    "('h serial \<Rightarrow> 'h serial option) option \<Rightarrow> 'h hal \<Rightarrow> 'h hal" where
  "modbus_master_rtu_set_yield_callback cb hal = hal\<lparr>yield_cb := cb\<rparr>"

section \<open>The request on the wire\<close>

context serial_env
begin

lemma rtu_request:
  assumes "serial_wf T p"
  shows "\<exists>q. request_sent (rtu_transport hk hal) a req p =
      Some (if fst (HAL_UART_Transmit hal USART2 (rtu_seal modbus_crc16 (a # req)) 50
                     (snd (snd (snd (t35_readings hal USART2 (env p)))))) then MODBUS_OK else MODBUS_ERROR, q) \<and>
    serial_wf T q \<and> same_app (local_slave p) (local_slave q) \<and> \<not> rs485_de q \<and> s_waiting q \<and> \<not> s_frame_ready q \<and>
    env q = snd (snd (HAL_UART_Transmit hal USART2 (rtu_seal modbus_crc16 (a # req)) 50
                       (snd (snd (snd (t35_readings hal USART2 (env p)))))))"
proof -
  let ?p1 = "(master_rtu_flush p)\<lparr>s_waiting := True\<rparr>"
  have "serial_wf T ?p1"
    using assms by (simp add: serial_wf_def master_rtu_flush_def rs485_flush_rx_def)
  from rs485_delay_total [OF this] obtain q where
    q: "rs485_delay_t35 hal ?p1 = Some q" "serial_wf T q" "same_app (local_slave p) (local_slave q)"
      "env q = snd (snd (snd (t35_readings hal USART2 (env p))))"
    by (auto simp: master_rtu_flush_def rs485_flush_rx_def)
  let ?adu = "rtu_seal modbus_crc16 (a # req)" and ?q = "rs485_set_tx_mode (q\<lparr>s_waiting := True, s_frame_ready := False\<rparr>)"
  have ne: "?adu \<noteq> []" by (simp add: rtu_seal_def)
  have "serial_wf T ?q" using q(2) by (simp add: rs485_set_tx_mode_def)
  from rs485_send_total [OF this ne, of hal] obtain r where
    r: "rs485_send hal ?adu ?q = Some (if fst (HAL_UART_Transmit hal USART2 ?adu 50 (env q)) then RS485_OK else RS485_TIMEOUT, r)"
      "serial_wf T r" "same_app (local_slave q) (local_slave r)" "s_waiting r" "\<not> s_frame_ready r"
      "env r = snd (snd (HAL_UART_Transmit hal USART2 ?adu 50 (env q)))"
    by (auto simp: rs485_set_tx_mode_def)
  show ?thesis
    using q r ne same_app_trans [OF q(3) r(3)]
    by (auto simp: request_sent_def rtu_transport_def master_rtu_delay_t35_def master_rtu_send_def rs485_set_rx_mode_def Let_def)
qed

end

section \<open>Waiting for the response\<close>

lemma unat_next: "unat (x :: u32) < unat (y :: u32) \<Longrightarrow> unat (x + 1) = unat x + 1"
  using unat_u32_less [of y] by (simp add: unat_word_ariths)

text \<open>
  A master that polls while time passes and other work is done. \<open>J\<close> is an invariant of the
  environment; \<open>quiet h\<close> bounds the polling rounds until the next SysTick interrupt, and \<open>Y\<close> the
  milliseconds one yield takes.
\<close>

locale polling_env = serial_env hk hal T
  for hk :: modbus_sync_hooks and hal :: "'h hal" and T :: u32 +
  fixes J :: "'h \<Rightarrow> bool" and quiet :: "'h \<Rightarrow> nat" and Y :: nat
  assumes transmit_keeps: "J h \<Longrightarrow> J (snd (snd (HAL_UART_Transmit hal u bs t h)))"
    and readings_keep: "J h \<Longrightarrow> J (snd (snd (snd (t35_readings hal u h))))"
    and poll_keeps: "J h \<Longrightarrow> J (snd (snd (poll_irqs hal h)))"
    and poll_tick: "J h \<Longrightarrow> ticks (fst (poll_irqs hal h)) \<le> 1"
    and poll_quiet: "J h \<Longrightarrow> ticks (fst (poll_irqs hal h)) = 0 \<Longrightarrow> quiet (snd (snd (poll_irqs hal h))) < quiet h"
    and yields: "serial_wf T p \<Longrightarrow> J (env p) \<Longrightarrow> s_waiting p \<Longrightarrow>
      \<exists>q n. run_yield hal p = Some q \<and> serial_wf T q \<and> J (env q) \<and> s_waiting q \<and> rs485_de q = rs485_de p \<and>
        sys_tick q = sys_tick p + of_nat n \<and> n \<le> Y \<and> (n = 0 \<longrightarrow> quiet (env q) \<le> quiet (env p))"
begin

lemma next_round_total:
  assumes "serial_wf T p" and "J (env p)"
  shows "\<exists>k q n. next_round hal p = Some (k, q) \<and> serial_wf T q \<and> J (env q) \<and>
    irq_frame (p\<lparr>env := snd (snd (poll_irqs hal (env p)))\<rparr>) q \<and>
    sys_tick q = sys_tick p + of_nat n \<and> n \<le> 1 \<and> (n = 0 \<longrightarrow> quiet (env q) < quiet (env p))"
proof -
  obtain irqs k h where r: "poll_irqs hal (env p) = (irqs, k, h)" by (metis surj_pair)
  have "serial_wf T (p\<lparr>env := h\<rparr>)" using assms by simp
  from take_irqs_total [OF this, of irqs] obtain q where
    q: "take_irqs irqs (p\<lparr>env := h\<rparr>) = Some q" "serial_wf T q" "irq_frame (p\<lparr>env := h\<rparr>) q"
      "sys_tick q = sys_tick p + of_nat (ticks irqs)" by auto
  have "env q = h" using q(3) by (simp add: irq_frame_def)
  with q r poll_keeps [OF assms(2)] poll_tick [OF assms(2)] poll_quiet [OF assms(2)] show ?thesis
    by (auto simp: next_round_def)
qed

text \<open>One round of the loop, after the interrupts were taken.\<close>

lemma round_total:
  assumes "serial_wf T p" and "J (env p)" and "s_waiting p"
  shows "\<exists>q r n. rs485_process hk hal k p = Some q \<and> run_yield hal q = Some r \<and> serial_wf T r \<and> J (env r) \<and> s_waiting r \<and>
    rs485_de r = rs485_de p \<and> sys_tick r = sys_tick p + of_nat n \<and> n \<le> Y \<and> (n = 0 \<longrightarrow> quiet (env r) \<le> quiet (env p))"
proof -
  from port_process [OF serial_wfD(1) [OF assms(1)], of k] obtain frm f where
    f: "rtu_framer_process k (rs485 p) = Some (frm, f)" by blast
  from rs485_process_waiting [OF assms(1,3) f] obtain q where
    q: "rs485_process hk hal k p = Some q" "serial_wf T q" "s_waiting q" "rs485_de q = rs485_de p"
      "sys_tick q = sys_tick p" "env q = env p" using assms(3) by auto
  with yields [OF q(2)] assms(2) show ?thesis by auto
qed

lemma recv_loop_ends:
  assumes "serial_wf T p" and "J (env p)" and "s_waiting p" and "unat (sys_tick p - start) + 1 < 2 ^ 32"
    and tmo: "unat tmo + Y < 2 ^ 32"
  shows "\<exists>st adu q. recv_loop hk hal start tmo m p = Some (st, adu, q) \<and> serial_wf T q \<and> J (env q) \<and> s_waiting q \<and>
    rs485_de q = rs485_de p \<and> (st = MODBUS_OK \<and> length adu \<le> m \<or> st = MODBUS_TIMEOUT \<and> adu = [])"
proof -
  define R where "R = inv_image (less_than <*lex*> less_than) (\<lambda>p :: 'h serial. (unat tmo - unat (sys_tick p - start), quiet (env p)))"
  have "wf R" unfolding R_def by (intro wf_inv_image wf_lex_prod wf_less_than)
  show ?thesis
    using assms(1-4)
  proof (induction p rule: wf_induct_rule [OF \<open>wf R\<close>, case_names less])
    case (less p)
    from next_round_total [OF less.prems(1,2)] less.prems(3) obtain k p1 t where
      p1: "next_round hal p = Some (k, p1)" "serial_wf T p1" "J (env p1)" "s_waiting p1" "rs485_de p1 = rs485_de p"
        "sys_tick p1 = sys_tick p + of_nat t" "t \<le> 1" "t = 0 \<longrightarrow> quiet (env p1) < quiet (env p)"
      by (auto simp: irq_frame_def)
    show ?case
    proof (cases "sys_tick p1 - start < tmo")
      case False
      with p1 show ?thesis by (subst recv_loop.simps) simp
    next
      case True
      from round_total [OF p1(2-4), of k] obtain p2 p3 n where
        p3: "rs485_process hk hal k p1 = Some p2" "run_yield hal p2 = Some p3" "serial_wf T p3" "J (env p3)" "s_waiting p3"
          "rs485_de p3 = rs485_de p1" "sys_tick p3 = sys_tick p1 + of_nat n" "n \<le> Y"
          "n = 0 \<longrightarrow> quiet (env p3) \<le> quiet (env p1)" by blast
      show ?thesis
      proof (cases "s_frame_ready p3")
        case ready: True
        have "min (unat (s_frame_len p3)) m \<le> length (s_frame p3)" using p3(3) by (auto simp: serial_wf_def)
        with p1 p3 ready True show ?thesis
          by (subst recv_loop.simps) (auto simp: rd_span_Some serial_wf_def)
      next
        case False
        have run: "unat (sys_tick p1 - start) < unat tmo" using True by (simp add: word_less_nat_alt)
        have el1: "unat (sys_tick p1 - start) = unat (sys_tick p - start) + t"
          using elapsed_add [of "sys_tick p" start t] less.prems(4) p1(6,7) by simp
        have el: "unat (sys_tick p3 - start) = unat (sys_tick p1 - start) + n"
          using elapsed_add [of "sys_tick p1" start n] run p3(7,8) tmo by simp
        have "(p3, p) \<in> R" using el el1 p1(8) p3(9) run by (cases "t = 0 \<and> n = 0") (auto simp: R_def)
        moreover have "unat (sys_tick p3 - start) + 1 < 2 ^ 32" using el run p3(8) tmo by simp
        moreover have "recv_loop hk hal start tmo m p = recv_loop hk hal start tmo m p3"
          using p1 p3 False True by (subst recv_loop.simps) simp
        ultimately show ?thesis using less.IH [of p3] p1(5) p3(3-6) by simp
      qed
    qed
  qed
qed

lemma recv_ends:
  assumes "serial_wf T p" and "J (env p)" and "unat tmo + Y < 2 ^ 32"
  shows "\<exists>st adu q. master_rtu_recv hk hal 256 tmo p = Some (st, adu, q) \<and> serial_wf T q \<and> J (env q) \<and> s_waiting q \<and>
    rs485_de q = rs485_de p \<and> (st = MODBUS_OK \<and> length adu \<le> 256 \<or> st = MODBUS_TIMEOUT \<and> adu = [])"
  using assms recv_loop_ends [of "p\<lparr>s_waiting := True\<rparr>" "sys_tick p" tmo 256] by (simp add: master_rtu_recv_def)

text \<open>A transaction returns, whatever the device does, and leaves the port to the slave again.\<close>

lemma rtu_transaction_ends:
  assumes wf: "serial_wf T p" and J: "J (env p)" and idle: "\<not> s_waiting p" "\<not> rs485_de p" and tmo: "unat tmo + Y < 2 ^ 32"
  shows "\<exists>r c q. modbus_master_transaction (Some (rtu_transport hk hal)) a req m tmo p = Some (r, c, q) \<and>
    \<not> s_waiting q \<and> \<not> rs485_de q \<and> serial_wf T q \<and> J (env q)"
proof -
  define P where "P x \<longleftrightarrow> serial_wf T x \<and> \<not> rs485_de x \<and> J (env x)" for x :: "'h serial"
  show ?thesis
  proof (rule transaction_total [where P = P])
    show "\<exists>st w. request_sent (rtu_transport hk hal) a req p = Some (st, w) \<and> P w"
      using rtu_request [OF wf, of a req] transmit_keeps readings_keep J unfolding P_def by metis
    show "\<exists>st adu w'. t_recv (rtu_transport hk hal) 256 tmo w = Some (st, adu, w') \<and> P w'" if "P w" for w
      using that recv_ends [OF _ _ tmo, of w] by (auto simp: P_def rtu_transport_def)
  qed (use wf idle J in \<open>simp_all add: P_def finish_def rtu_transport_def master_rtu_end_def serial_wf_def\<close>)
qed

end

text \<open>The SysTick interrupts of the next \<open>n\<close> rounds.\<close>

primrec ticks_in :: "'h hal \<Rightarrow> nat \<Rightarrow> 'h \<Rightarrow> nat" where
  "ticks_in hal 0 h = 0"
| "ticks_in hal (Suc n) h = ticks (fst (poll_irqs hal h)) + ticks_in hal n (snd (snd (poll_irqs hal h)))"

text \<open>What a quiet yield callback does not touch: the RS485 port of the waiting master and its clock.\<close>

definition same_wait :: "'h serial \<Rightarrow> 'h serial \<Rightarrow> bool" where
  "same_wait p q \<longleftrightarrow> sys_tick q = sys_tick p \<and> env q = env p \<and> s_waiting q = s_waiting p \<and>
     s_frame_ready q = s_frame_ready p \<and> s_frame q = s_frame p \<and> s_frame_len q = s_frame_len p \<and>
     rs485 q = rs485 p \<and> rs485_de q = rs485_de p"

locale waiting_env = serial_env hk hal T
  for hk :: modbus_sync_hooks and hal :: "'h hal" and T :: u32 +
  assumes yield_quiet: "serial_wf T p \<Longrightarrow> \<exists>q. run_yield hal p = Some q \<and> serial_wf T q \<and> same_wait p q"
    and one_tick: "ticks (fst (poll_irqs hal h)) \<le> 1"
    and tick_comes: "\<exists>n. m \<le> ticks_in hal n h"
begin

definition next_tick :: "'h \<Rightarrow> nat" where
  "next_tick h = (LEAST n. 1 \<le> ticks_in hal n h)"

lemma next_tick_less:
  assumes "ticks (fst (poll_irqs hal h)) = 0"
  shows "next_tick (snd (snd (poll_irqs hal h))) < next_tick h"
proof -
  obtain n where n: "1 \<le> ticks_in hal n h" using tick_comes by blast
  then have "1 \<le> ticks_in hal (next_tick h) h" unfolding next_tick_def by (rule LeastI)
  then obtain m where m: "next_tick h = Suc m" "1 \<le> ticks_in hal m (snd (snd (poll_irqs hal h)))"
    using assms by (cases "next_tick h") simp_all
  from m(2) have "next_tick (snd (snd (poll_irqs hal h))) \<le> m" unfolding next_tick_def by (rule Least_le)
  with m(1) show ?thesis by simp
qed

end

sublocale waiting_env \<subseteq> polling_env hk hal T "\<lambda>_. True" next_tick 0
proof unfold_locales
  fix p :: "'h serial"
  assume "serial_wf T p" "s_waiting p"
  with yield_quiet [of p] show "\<exists>q n. run_yield hal p = Some q \<and> serial_wf T q \<and> True \<and> s_waiting q \<and> rs485_de q = rs485_de p \<and>
      sys_tick q = sys_tick p + of_nat n \<and> n \<le> 0 \<and> (n = 0 \<longrightarrow> next_tick (env q) \<le> next_tick (env p))"
    by (auto simp: same_wait_def)
qed (use one_tick next_tick_less in simp_all)

context waiting_env
begin

lemma transaction_ends:
  assumes "serial_wf T p" and "\<not> s_waiting p" and "\<not> rs485_de p"
  shows "\<exists>r c q. modbus_master_transaction (Some (rtu_transport hk hal)) a req m tmo p = Some (r, c, q) \<and>
    \<not> s_waiting q \<and> \<not> rs485_de q \<and> serial_wf T q"
  using rtu_transaction_ends [OF assms(1) _ assms(2,3), of tmo] unat_u32_less [of tmo] by simp

end

end
