(* ===== verification/Slave_Tcp.thy ===== *)
theory Slave_Tcp
  imports Slave_Pdu_Spec
begin

text \<open>
  Modbus TCP, \<open>src/modbus_tcp.c\<close>: the MBAP header around the shared PDU processor. The static
  \<open>tcp_unit_id\<close> is an argument. The response ADU is the byte list, empty when \<open>*tx_len = 0\<close>.
\<close>

definition modbus_tcp_init :: "u8 \<Rightarrow> u8" where
  "modbus_tcp_init unit_id = unit_id"

definition mb_tcp_get_uint16 :: "u8 list \<Rightarrow> nat \<Rightarrow> u16 option" where
  "mb_tcp_get_uint16 buf off = rd16 buf off"

definition mb_tcp_set_uint16 :: "u16 \<Rightarrow> u8 list" where
  "mb_tcp_set_uint16 v = [hi8 v, lo8 v]"

definition modbus_tcp_build_response ::
    "modbus_sync_hooks \<Rightarrow> u8 \<Rightarrow> u8 list \<Rightarrow> slave \<Rightarrow> (modbus_status \<times> u8 list \<times> slave) option" where
  "modbus_tcp_build_response hk tcp_unit_id rx_adu s =
     (if length rx_adu < MODBUS_TCP_MBAP_SIZE + 1 \<or> length rx_adu > MODBUS_TCP_MAX_ADU then Some (MODBUS_ERROR, [], s)
      else do {
        transaction_id \<leftarrow> mb_tcp_get_uint16 rx_adu 0;
        protocol_id \<leftarrow> mb_tcp_get_uint16 rx_adu 2;
        len \<leftarrow> mb_tcp_get_uint16 rx_adu 4;
        unit_id \<leftarrow> rd rx_adu 6;
        if protocol_id \<noteq> 0 \<or> len < 2 \<or> len > 254 \<or> length rx_adu \<noteq> unat (6 + len) then Some (MODBUS_ERROR, [], s)
        else if unit_id \<noteq> tcp_unit_id \<and> unit_id \<noteq> 0 then Some (MODBUS_OK, [], s)
        else do {
          rx_pdu \<leftarrow> rd_span rx_adu MODBUS_TCP_MBAP_SIZE (unat (len - 1));
          (status, tx_pdu, tx_pdu_len, s) \<leftarrow> modbus_pdu_process hk rx_pdu False s;
          if status \<noteq> MODBUS_OK then Some (status, [], s)
          else if tx_pdu_len = 0 then Some (MODBUS_OK, [], s)
          else if tx_pdu_len > MODBUS_TCP_MAX_PDU \<or> MODBUS_TCP_MBAP_SIZE + tx_pdu_len > MODBUS_TCP_MAX_ADU then Some (MODBUS_ERROR, [], s)
          else do {
            pdu \<leftarrow> rd_span tx_pdu 0 tx_pdu_len;
            Some (MODBUS_OK,
              mb_tcp_set_uint16 transaction_id @ mb_tcp_set_uint16 0x0000 @
              mb_tcp_set_uint16 (1 + of_nat tx_pdu_len) @ [unit_id] @ pdu, s)
          }
        }
      })"

definition modbus_tcp_process ::
    "modbus_sync_hooks \<Rightarrow> u8 \<Rightarrow> u8 list \<Rightarrow> slave \<Rightarrow> (modbus_status \<times> u8 list \<times> slave) option" where
  "modbus_tcp_process hk tcp_unit_id rx_buf s = modbus_tcp_build_response hk tcp_unit_id rx_buf s"

section \<open>Framing\<close>

text \<open>An ADU of the protocol.\<close>

definition mbap :: "u16 \<Rightarrow> u8 \<Rightarrow> u8 list \<Rightarrow> u8 list" where
  "mbap tid unit_id pdu = be_bytes [tid, 0, of_nat (1 + length pdu)] @ [unit_id] @ pdu"

lemma mbap_length: "length (mbap tid u pdu) = 7 + length pdu"
  by (simp add: mbap_def)

lemma mbap_process:
  assumes pdu: "pdu \<noteq> []" "length pdu \<le> 253" and u: "u = unit_id \<or> u = 0"
    and p: "modbus_pdu_process hk pdu False s = Some (MODBUS_OK, tx, n, t)" "n \<le> length tx" "0 < n" "n \<le> 253"
  shows "modbus_tcp_process hk unit_id (mbap tid u pdu) s = Some (MODBUS_OK, mbap tid u (take n tx), t)"
proof -
  define l :: u16 where "l = of_nat (1 + length pdu)"
  have l: "unat l = 1 + length pdu" unfolding l_def using pdu(2) by (intro unat_u16_of_nat) simp
  have sum: "unat (6 + l) = 7 + length pdu" using l pdu(2) by (simp add: unat_word_ariths)
  have lm: "unat (l - 1) = length pdu" using l by (simp add: unat_sub_if')
  have adu: "mbap tid u pdu = [hi8 tid, lo8 tid, 0, 0, hi8 l, lo8 l, u] @ pdu"
    by (simp add: mbap_def l_def hi8_def lo8_def)
  have z: "be16 0 0 = 0" by (simp add: be16_def)
  have bounds: "\<not> l < 2" "\<not> 254 < l"
    using l pdu by (cases pdu; simp add: word_less_nat_alt)+
  have "rd_span (mbap tid u pdu) 7 (length pdu) = Some pdu"
    by (simp add: adu rd_span_Some)
  moreover have "mb_tcp_set_uint16 (1 + of_nat n) = be_bytes [of_nat (1 + length (take n tx))]"
    using p(2) by (simp add: mb_tcp_set_uint16_def min_def)
  moreover have "mb_tcp_get_uint16 (mbap tid u pdu) 0 = Some tid" "mb_tcp_get_uint16 (mbap tid u pdu) 2 = Some 0"
    "mb_tcp_get_uint16 (mbap tid u pdu) 4 = Some l" "rd (mbap tid u pdu) 6 = Some u"
    by (simp_all add: mb_tcp_get_uint16_def adu z)
  moreover have "rd_span tx 0 n = Some (take n tx)" using p(2) by (simp add: rd_span_Some)
  moreover have "pdu \<noteq> [] \<Longrightarrow> \<not> length pdu < 1" by (cases pdu) auto
  ultimately show ?thesis
    using pdu u p bounds
    by (auto simp: modbus_tcp_process_def modbus_tcp_build_response_def mbap_length sum lm Suc_le_eq)
      (simp_all add: mbap_def mb_tcp_set_uint16_def)
qed

lemma mbap_foreign:
  assumes "pdu \<noteq> []" "length pdu \<le> 253" and "u \<noteq> unit_id" "u \<noteq> 0"
  shows "modbus_tcp_process hk unit_id (mbap tid u pdu) s = Some (MODBUS_OK, [], s)"
proof -
  define l :: u16 where "l = of_nat (1 + length pdu)"
  have l: "unat l = 1 + length pdu" unfolding l_def using assms(2) by (intro unat_u16_of_nat) simp
  have sum: "unat (6 + l) = 7 + length pdu" using l assms(2) by (simp add: unat_word_ariths)
  have adu: "mbap tid u pdu = [hi8 tid, lo8 tid, 0, 0, hi8 l, lo8 l, u] @ pdu"
    by (simp add: mbap_def l_def hi8_def lo8_def)
  have z: "be16 0 0 = 0" by (simp add: be16_def)
  have bounds: "\<not> l < 2" "\<not> 254 < l"
    using l assms by (cases pdu; simp add: word_less_nat_alt)+
  have "mb_tcp_get_uint16 (mbap tid u pdu) 0 = Some tid" "mb_tcp_get_uint16 (mbap tid u pdu) 2 = Some 0"
    "mb_tcp_get_uint16 (mbap tid u pdu) 4 = Some l" "rd (mbap tid u pdu) 6 = Some u"
    by (simp_all add: mb_tcp_get_uint16_def adu z)
  moreover have "pdu \<noteq> [] \<Longrightarrow> \<not> length pdu < 1" by (cases pdu) auto
  ultimately show ?thesis
    using assms bounds
    by (simp add: modbus_tcp_process_def modbus_tcp_build_response_def mbap_length sum)
qed

context sync_hooks
begin

lemma tcp_total:
  assumes "slave_wf s"
  shows "\<exists>st tx t. modbus_tcp_process hk unit_id rx s = Some (st, tx, t) \<and> slave_wf t \<and> length tx \<le> 260"
proof (cases "length rx < 8 \<or> 260 < length rx")
  case True
  with assms show ?thesis by (auto simp: modbus_tcp_process_def modbus_tcp_build_response_def)
next
  case False
  then obtain tid pid l u where r: "mb_tcp_get_uint16 rx 0 = Some tid" "mb_tcp_get_uint16 rx 2 = Some pid"
    "mb_tcp_get_uint16 rx 4 = Some l" "rd rx 6 = Some u"
    by (simp add: mb_tcp_get_uint16_def rd16_Some rd_Some)
  show ?thesis
  proof (cases "pid \<noteq> 0 \<or> l < 2 \<or> l > 254 \<or> length rx \<noteq> unat (6 + l) \<or> (u \<noteq> unit_id \<and> u \<noteq> 0)")
    case True
    with False r assms show ?thesis
      by (auto simp: modbus_tcp_process_def modbus_tcp_build_response_def)
  next
    case ok: False
    then have l: "2 \<le> unat l" "unat l \<le> 254" by (simp_all add: word_cmp_nat)
    then have "unat (6 + l) = 6 + unat l" "unat (l - 1) = unat l - 1"
      by (simp_all add: unat_word_ariths unat_sub_if')
    with ok l have span: "rd_span rx 7 (unat (l - 1)) = Some (take (unat l - 1) (drop 7 rx))"
      and ne: "take (unat l - 1) (drop 7 rx) \<noteq> []"
      by (auto simp: rd_span_Some)
    from pdu_process_good [OF assms ne, of False] obtain tx n t where
      p: "modbus_pdu_process hk (take (unat l - 1) (drop 7 rx)) False s = Some (MODBUS_OK, tx, n, t)"
      "slave_wf t" "n \<le> length tx" "n \<le> 253" by auto
    with ok False r span show ?thesis
      by (auto simp: modbus_tcp_process_def modbus_tcp_build_response_def rd_span_Some mb_tcp_set_uint16_def)
  qed
qed

end

text \<open>
  C35: A Modbus TCP request for this unit is answered by one ADU with the same transaction and unit
  identifiers, protocol 0, a length field that counts unit identifier and PDU, and the response PDU
  of the shared processor; the connection has no broadcast, so a response always comes.
\<close>

theorem tcp_response:
  assumes "slave_wf s" and "pdu \<noteq> []" "length pdu \<le> 253" and "u = unit_id \<or> u = 0"
  shows "\<exists>tx n t. modbus_pdu_process default_hooks pdu False s = Some (MODBUS_OK, tx, n, t) \<and>
    modbus_tcp_process default_hooks unit_id (mbap tid u pdu) s = Some (MODBUS_OK, mbap tid u (take n tx), t) \<and>
    length (mbap tid u (take n tx)) = 7 + n \<and> 2 \<le> n \<and> n \<le> 253"
proof -
  obtain tx n t where "modbus_pdu_process default_hooks pdu False s = Some (MODBUS_OK, tx, n, t)"
    "n \<le> length tx" "n \<le> 253" "2 \<le> n"
    using dflt.pdu_process_good [OF assms(1,2), of False] by auto
  with mbap_process [OF assms(2-4), of default_hooks s tx n t tid] show ?thesis
    by (intro exI [of _ tx] exI [of _ n] exI [of _ t]) (simp add: mbap_length)
qed

lemma tcp_response_witness:
  "\<exists>tx n t. modbus_tcp_process default_hooks 1 (mbap 7 1 [0x03, 0, 0, 0, 2]) slave1 =
     Some (MODBUS_OK, mbap 7 1 (take n tx), t)"
  using tcp_response [OF slave1_wf, of "[0x03, 0, 0, 0, 2]" 1 1 7] by auto

text \<open>
  For any received bytes at all, \<open>modbus_tcp_process\<close> terminates without an access out of
  bounds, keeps the slave well formed and never builds an ADU longer than 260 bytes.
\<close>

theorem tcp_process_safe:
  assumes "slave_wf s"
  shows "\<exists>st tx t. modbus_tcp_process default_hooks unit_id rx s = Some (st, tx, t) \<and> slave_wf t \<and> length tx \<le> 260"
  using assms by (rule dflt.tcp_total)

lemma tcp_process_safe_witness:
  "\<exists>st tx t. modbus_tcp_process default_hooks 1 [0, 0, 0, 0, 0, 9, 1] slave1 = Some (st, tx, t)"
  using tcp_process_safe [OF slave1_wf] by blast

end
