(* ===== verification/Ethernet.thy ===== *)
theory Ethernet
  imports Slave_Tcp
begin

text \<open>
  The Ethernet port, \<open>src/ethernet.c\<close>, with the callback of \<open>src/main.c\<close>. The state holds the two
  statics and the packets handed to the HAL; \<open>eth_results\<close> tells which of them it takes. A received
  frame is the byte list in the DMA buffer. Descriptor rings and pins are in
  \<open>Board_Setup\<close>.
\<close>

datatype eth_status = ETH_OK | ETH_ERROR | ETH_NOT_READY | ETH_LINK_DOWN

text \<open>The fields of \<open>ETH_TxPacketConfigTypeDef\<close> that name the data: the length and the buffer list.\<close>

record eth_packet =
  Length :: u16
  TxBuffer :: "u8 list option"

record ethernet =
  eth_rx_callback :: bool
  eth_link_up :: bool
  eth_packets :: "eth_packet list"
  eth_results :: "nat \<Rightarrow> bool"

text \<open>What \<open>ethernet_init\<close> leaves in the statics.\<close>

definition ethernet_init :: "ethernet \<Rightarrow> ethernet" where
  "ethernet_init e = e\<lparr>eth_link_up := True\<rparr>"

definition ethernet_send :: "u8 list \<Rightarrow> u16 \<Rightarrow> ethernet \<Rightarrow> eth_status \<times> ethernet" where
  "ethernet_send data len e =
     (if \<not> eth_link_up e then (ETH_LINK_DOWN, e)
      else if len = 0 then (ETH_ERROR, e)
      else
        let tx_config = \<lparr>Length = len, TxBuffer = None\<rparr>;
            ok = eth_results e (length (eth_packets e));
            e = e\<lparr>eth_packets := eth_packets e @ [tx_config]\<rparr>
        in (if ok then ETH_OK else ETH_ERROR, e))"

definition ethernet_get_status :: "ethernet \<Rightarrow> eth_status" where
  "ethernet_get_status e = (if eth_link_up e then ETH_OK else ETH_LINK_DOWN)"

definition ethernet_is_link_up :: "ethernet \<Rightarrow> bool" where
  "ethernet_is_link_up e = eth_link_up e"

definition ethernet_set_rx_callback :: "bool \<Rightarrow> ethernet \<Rightarrow> ethernet" where
  "ethernet_set_rx_callback callback e = e\<lparr>eth_rx_callback := callback\<rparr>"

definition eth_modbus_callback ::
    "modbus_sync_hooks \<Rightarrow> u8 \<Rightarrow> u8 list \<Rightarrow> ethernet \<times> slave \<Rightarrow> (ethernet \<times> slave) option" where
  "eth_modbus_callback hk tcp_unit_id data s = (case s of (e, sl) \<Rightarrow> do {
     (_, response, sl) \<leftarrow> modbus_tcp_build_response hk tcp_unit_id data sl;
     Some (if length response > 0 then (snd (ethernet_send response (of_nat (length response)) e), sl) else (e, sl))
   })"

text \<open>The frames one call finds, in order; the length is cut to 16 bits.\<close>

fun ethernet_process ::
    "modbus_sync_hooks \<Rightarrow> u8 \<Rightarrow> u8 list list \<Rightarrow> ethernet \<times> slave \<Rightarrow> (ethernet \<times> slave) option" where
  "ethernet_process hk tcp_unit_id [] s = Some s"
| "ethernet_process hk tcp_unit_id (frame # frames) s = do {
     s \<leftarrow> (if length frame > 0 \<and> eth_rx_callback (fst s)
          then eth_modbus_callback hk tcp_unit_id (take (unat (of_nat (length frame) :: u16)) frame) s
          else Some s);
     ethernet_process hk tcp_unit_id frames s
   }"

text \<open>Whatever frames arrive, the port serves them in bounds and keeps the slave well formed.\<close>

lemma eth_callback_total:
  assumes "slave_wf sl"
  shows "\<exists>e' sl'. eth_modbus_callback default_hooks u data (e, sl) = Some (e', sl') \<and> slave_wf sl'"
proof -
  obtain st tx t where "modbus_tcp_process default_hooks u data sl = Some (st, tx, t)" "slave_wf t"
    using dflt.tcp_total [OF assms] by blast
  then show ?thesis by (cases "length tx > 0") (simp_all add: eth_modbus_callback_def modbus_tcp_process_def prod_eq_iff)
qed

lemma ethernet_process_total:
  assumes "slave_wf sl"
  shows "\<exists>e' sl'. ethernet_process default_hooks u frames (e, sl) = Some (e', sl') \<and> slave_wf sl'"
  using assms
proof (induction frames arbitrary: e sl)
  case (Cons frame frames)
  let ?d = "take (unat (of_nat (length frame) :: u16)) frame"
  obtain e1 sl1 where "eth_modbus_callback default_hooks u ?d (e, sl) = Some (e1, sl1)" "slave_wf sl1"
    using eth_callback_total [OF Cons.prems] by blast
  with Cons.IH [of sl1 e1] Cons.IH [OF Cons.prems, of e] show ?case by simp
qed simp

text \<open>
  No response reaches the wire: the code never puts the data into the packet it hands to the HAL, so
  every packet the port has sent has a length and no buffer.
\<close>

theorem ethernet_sends_no_data:
  assumes "\<forall>p \<in> set (eth_packets e). TxBuffer p = None"
  shows "\<forall>p \<in> set (eth_packets (snd (ethernet_send data len e))). TxBuffer p = None"
  using assms by (auto simp: ethernet_send_def Let_def)

end
