(* ===== verification/Co_Types.thy ===== *)
theory Co_Types
  imports Prelude
begin

text \<open>
  The constants of CANopen as \<open>inc/canopen/canopen_types.h\<close> defines them, under their names there: data
  types and access types of dictionary entries, NMT commands, SDO abort codes and the identifiers of
  the pre-defined connection set.
\<close>

section \<open>Entries of a dictionary\<close>

abbreviation (input) int16 :: u8 where "int16 \<equiv> 0x03"
abbreviation (input) uint8 :: u8 where "uint8 \<equiv> 0x05"
abbreviation (input) uint16 :: u8 where "uint16 \<equiv> 0x06"
abbreviation (input) uint32 :: u8 where "uint32 \<equiv> 0x07"
abbreviation (input) visible_string :: u8 where "visible_string \<equiv> 0x09"
abbreviation (input) CANOPEN_ACCESS_RO :: u8 where "CANOPEN_ACCESS_RO \<equiv> 0x05"
abbreviation (input) CANOPEN_ACCESS_CONST :: u8 where "CANOPEN_ACCESS_CONST \<equiv> 0x01"
abbreviation (input) CANOPEN_ACCESS_READ_MASK :: u8 where "CANOPEN_ACCESS_READ_MASK \<equiv> 0x04"
abbreviation (input) CANOPEN_ACCESS_WRITE_MASK :: u8 where "CANOPEN_ACCESS_WRITE_MASK \<equiv> 0x02"

section \<open>NMT commands\<close>

abbreviation (input) NMT_CMD_START_NODE :: u8 where "NMT_CMD_START_NODE \<equiv> 0x01"
abbreviation (input) NMT_CMD_STOP_NODE :: u8 where "NMT_CMD_STOP_NODE \<equiv> 0x02"
abbreviation (input) NMT_CMD_ENTER_PRE_OPERATIONAL :: u8 where "NMT_CMD_ENTER_PRE_OPERATIONAL \<equiv> 0x80"
abbreviation (input) NMT_CMD_RESET_NODE :: u8 where "NMT_CMD_RESET_NODE \<equiv> 0x81"
abbreviation (input) NMT_CMD_RESET_COMMUNICATION :: u8 where "NMT_CMD_RESET_COMMUNICATION \<equiv> 0x82"

section \<open>Abort codes\<close>

abbreviation (input) OD_SUCCESSFUL :: u32 where "OD_SUCCESSFUL \<equiv> 0x00000000"
abbreviation (input) SDO_ABORT_TOGGLE_BIT_NOT_ALTERNATED :: u32 where "SDO_ABORT_TOGGLE_BIT_NOT_ALTERNATED \<equiv> 0x05030000"
abbreviation (input) SDO_ABORT_CMD_SPECIFIER_INVALID :: u32 where "SDO_ABORT_CMD_SPECIFIER_INVALID \<equiv> 0x05040001"
abbreviation (input) SDO_ABORT_UNSUPPORTED_ACCESS :: u32 where "SDO_ABORT_UNSUPPORTED_ACCESS \<equiv> 0x06010000"
abbreviation (input) SDO_ABORT_READ_NOT_ALLOWED :: u32 where "SDO_ABORT_READ_NOT_ALLOWED \<equiv> 0x06010001"
abbreviation (input) SDO_ABORT_WRITE_NOT_ALLOWED :: u32 where "SDO_ABORT_WRITE_NOT_ALLOWED \<equiv> 0x06010002"
abbreviation (input) SDO_ABORT_NO_SUCH_OBJECT :: u32 where "SDO_ABORT_NO_SUCH_OBJECT \<equiv> 0x06020000"
abbreviation (input) SDO_ABORT_DATA_LENGTH_TOO_HIGH :: u32 where "SDO_ABORT_DATA_LENGTH_TOO_HIGH \<equiv> 0x06070012"
abbreviation (input) SDO_ABORT_DATA_LENGTH_TOO_SHORT :: u32 where "SDO_ABORT_DATA_LENGTH_TOO_SHORT \<equiv> 0x06070013"
abbreviation (input) SDO_ABORT_NO_SUCH_SUBINDEX :: u32 where "SDO_ABORT_NO_SUCH_SUBINDEX \<equiv> 0x06090011"
abbreviation (input) SDO_ABORT_GENERAL_ERROR :: u32 where "SDO_ABORT_GENERAL_ERROR \<equiv> 0x08000000"

section \<open>Identifiers\<close>

abbreviation (input) CANOPEN_COB_NMT :: u32 where "CANOPEN_COB_NMT \<equiv> 0x000"
abbreviation (input) CANOPEN_COB_SYNC :: u32 where "CANOPEN_COB_SYNC \<equiv> 0x080"
abbreviation (input) CANOPEN_COB_TPDO1_BASE :: u32 where "CANOPEN_COB_TPDO1_BASE \<equiv> 0x180"
abbreviation (input) CANOPEN_COB_RPDO1_BASE :: u32 where "CANOPEN_COB_RPDO1_BASE \<equiv> 0x200"
abbreviation (input) CANOPEN_COB_TPDO2_BASE :: u32 where "CANOPEN_COB_TPDO2_BASE \<equiv> 0x280"
abbreviation (input) CANOPEN_COB_RPDO2_BASE :: u32 where "CANOPEN_COB_RPDO2_BASE \<equiv> 0x300"
abbreviation (input) CANOPEN_COB_TSDO_BASE :: u32 where "CANOPEN_COB_TSDO_BASE \<equiv> 0x580"
abbreviation (input) CANOPEN_COB_RSDO_BASE :: u32 where "CANOPEN_COB_RSDO_BASE \<equiv> 0x600"
abbreviation (input) CANOPEN_COB_HEARTBEAT_BASE :: u32 where "CANOPEN_COB_HEARTBEAT_BASE \<equiv> 0x700"

end
