(* ===== verification/Co_Od.thy ===== *)
theory Co_Od
  imports Board_IO Co_Types
begin

text \<open>
  The CANopen object dictionary, \<open>src/canopen/canopen_od.c\<close>: lookup, read and write over a
  dictionary whose entries point to the static variables of the file, and the board's default
  dictionary. A variable is named by the object it belongs to, and the store keeps its bytes as the
  little-endian target does. A copy past the end of a variable is \<open>None\<close>. The state \<open>can\<close> holds the
  store together with what the stack drives: the board, the statics of the synchronisation functions,
  and the frames sent. The synchronisation functions are weak here, and the application that is linked
  replaces them: \<open>src/main.c\<close>, or the example for the STM32F767; \<open>co_app\<close> is the choice. Null
  dictionaries and buffers have no counterpart.

  The locale \<open>object_dictionary\<close> states what the SDO server relies on from a dictionary; it is
  interpreted on the default one.
\<close>

section \<open>Data\<close>

type_synonym var = "u16 \<times> u8"

record subindex =
  bAccessType :: u8
  bDataType :: u8
  sub_size :: u32
  pObject :: "var option"

record indextable =
  pSubindex :: "subindex list"
  bEndpoints :: u8
  idx :: u16

type_synonym canopen_od = "indextable list"

record canopen_frame =
  cob_id :: u32
  frame_data :: "u8 list"
  rtr :: bool

type_synonym store = "var \<Rightarrow> u8 list"

text \<open>
  The statics of \<open>examples/stm32f767_canopen/main_canopen_f767.c\<close> that mirror its inputs and outputs, and the
  application the stack is linked with: none, the board's, or this one.
\<close>

record f767_io =
  s_hw_digital_inputs :: u8
  s_hw_digital_outputs :: u8
  s_hw_analog_inputs :: "u16 list"
  s_hw_analog_outputs :: "u16 list"

datatype can_app = No_App | Board_App | F767_App f767_io

text \<open>
  In \<open>can\<close>, \<open>adc_scans n\<close> is what the \<open>n\<close>-th call of \<open>analog_inputs_scan_all\<close> meets: the contents of the
  uninitialised buffer it is given, and the conversion results. \<open>tx_results n\<close> says whether the \<open>n\<close>-th
  call of the transmit function returns 0.
\<close>

record can =
  store :: store
  co_app :: can_app
  co_board :: board
  s_last_do :: u8
  s_last_ao :: "u16 list"
  adc_count :: nat
  adc_scans :: "nat \<Rightarrow> u16 list \<times> (nat \<Rightarrow> u16 option)"
  tx_log :: "canopen_frame list"
  tx_results :: "nat \<Rightarrow> bool"
  s_post_write_cb :: bool
  post_writes :: "(u16 \<times> u8 \<times> u8 list) list"

definition le16 :: "u16 \<Rightarrow> u8 list" where
  "le16 v = [lo8 v, hi8 v]"

definition le32 :: "u32 \<Rightarrow> u8 list" where
  "le32 v = [ucast v, ucast (drop_bit 8 v), ucast (drop_bit 16 v), ucast (drop_bit 24 v)]"

text \<open>The transmit function; its log has the newest frame last.\<close>

definition tx_func :: "canopen_frame \<Rightarrow> can \<Rightarrow> bool \<times> can" where
  "tx_func fr c = (tx_results c (length (tx_log c)), c\<lparr>tx_log := tx_log c @ [fr]\<rparr>)"

section \<open>Application variables and synchronisation\<close>

text \<open>
  The variables behind the pointers of \<open>canopen_automation_vars_t\<close>, and the accessors of
  \<open>src/canopen/canopen.c\<close> that go through them.
\<close>

definition p_digital_inputs :: var where "p_digital_inputs = (0x6000, 1)"
definition p_digital_outputs :: var where "p_digital_outputs = (0x6200, 1)"
definition p_analog_inputs :: "nat \<Rightarrow> var" where "p_analog_inputs i = (0x6401, of_nat i + 1)"
definition p_analog_outputs :: "nat \<Rightarrow> var" where "p_analog_outputs i = (0x6411, of_nat i + 1)"

text \<open>\<open>memcpy\<close> to the start of a variable.\<close>

definition copy_to :: "var \<Rightarrow> u8 list \<Rightarrow> store \<Rightarrow> store option" where
  "copy_to v bs st = (if length bs \<le> length (st v) then Some (st(v := bs @ drop (length bs) (st v))) else None)"

definition read_le16 :: "var \<Rightarrow> store \<Rightarrow> u16 option" where
  "read_le16 v st = do { l \<leftarrow> rd (st v) 0; h \<leftarrow> rd (st v) 1; Some (be16 h l) }"

definition canopen_set_digital_inputs :: "u8 \<Rightarrow> can \<Rightarrow> can option" where
  "canopen_set_digital_inputs inputs c = do {
     st \<leftarrow> copy_to p_digital_inputs [inputs] (store c); Some (c\<lparr>store := st\<rparr>) }"

definition canopen_get_digital_outputs :: "can \<Rightarrow> u8 option" where
  "canopen_get_digital_outputs c = rd (store c p_digital_outputs) 0"

definition canopen_set_analog_input :: "u8 \<Rightarrow> u16 \<Rightarrow> can \<Rightarrow> can option" where
  "canopen_set_analog_input channel val c =
     (if channel < 4 then do {
        st \<leftarrow> copy_to (p_analog_inputs (unat channel)) (le16 val) (store c); Some (c\<lparr>store := st\<rparr>) }
      else Some c)"

definition canopen_get_analog_output :: "u8 \<Rightarrow> can \<Rightarrow> u16 option" where
  "canopen_get_analog_output channel c =
     (if channel < 2 then read_le16 (p_analog_outputs (unat channel)) (store c) else Some 0)"

text \<open>\<open>canopen_app_sync_inputs\<close> and \<open>canopen_app_sync_outputs\<close> of \<open>src/main.c\<close>.\<close>

definition board_sync_inputs :: "can \<Rightarrow> can option" where
  "board_sync_inputs c = do {
     c \<leftarrow> canopen_set_digital_inputs (digital_inputs_read_all (co_board c)) c;
     let (ai_buf, adc) = adc_scans c (adc_count c);
     (ai_buf, b) \<leftarrow> analog_inputs_scan_all adc ai_buf (co_board c);
     let c = c\<lparr>co_board := b, adc_count := adc_count c + 1\<rparr>;
     for_n 4 (\<lambda>i c. do { v \<leftarrow> rd ai_buf i; canopen_set_analog_input (of_nat i) v c }) c
   }"

definition sync_ao :: "nat \<Rightarrow> can \<Rightarrow> can option" where
  "sync_ao i c = do {
     ao_val \<leftarrow> canopen_get_analog_output (of_nat i) c;
     last \<leftarrow> rd (s_last_ao c) i;
     if ao_val \<noteq> last then
       let c = c\<lparr>s_last_ao := (s_last_ao c)[i := ao_val]\<rparr> in
       if 0 \<le> sint ao_val \<and> sint ao_val \<le> 4095
       then Some (c\<lparr>co_board := analog_output_write_raw (of_nat i) ao_val (co_board c)\<rparr>) else Some c
     else Some c
   }"

definition board_sync_outputs :: "can \<Rightarrow> can option" where
  "board_sync_outputs c = do {
     do_val \<leftarrow> canopen_get_digital_outputs c;
     let c = (if do_val \<noteq> s_last_do c
              then c\<lparr>s_last_do := do_val, co_board := digital_outputs_write_all do_val (co_board c)\<rparr> else c);
     for_n 2 sync_ao c
   }"

text \<open>The same functions of the example for the STM32F767, on its mirrors.\<close>

definition f767_sync_inputs :: "f767_io \<Rightarrow> can \<Rightarrow> can option" where
  "f767_sync_inputs io c = do {
     c \<leftarrow> canopen_set_digital_inputs (s_hw_digital_inputs io) c;
     for_n 4 (\<lambda>i c. do { v \<leftarrow> rd (s_hw_analog_inputs io) i; canopen_set_analog_input (of_nat i) v c }) c
   }"

definition f767_sync_outputs :: "f767_io \<Rightarrow> can \<Rightarrow> can option" where
  "f767_sync_outputs io c = do {
     do_val \<leftarrow> canopen_get_digital_outputs c;
     ao0 \<leftarrow> canopen_get_analog_output 0 c;
     aos \<leftarrow> wr (s_hw_analog_outputs io) 0 ao0;
     ao1 \<leftarrow> canopen_get_analog_output 1 c;
     aos \<leftarrow> wr aos 1 ao1;
     Some (c\<lparr>co_app := F767_App (io\<lparr>s_hw_digital_outputs := do_val, s_hw_analog_outputs := aos\<rparr>)\<rparr>)
   }"

text \<open>What a call of the stack to the weak functions runs.\<close>

definition canopen_app_sync_inputs :: "can \<Rightarrow> can option" where
  "canopen_app_sync_inputs c = (case co_app c of
     No_App \<Rightarrow> Some c | Board_App \<Rightarrow> board_sync_inputs c | F767_App io \<Rightarrow> f767_sync_inputs io c)"

definition canopen_app_sync_outputs :: "can \<Rightarrow> can option" where
  "canopen_app_sync_outputs c = (case co_app c of
     No_App \<Rightarrow> Some c | Board_App \<Rightarrow> board_sync_outputs c | F767_App io \<Rightarrow> f767_sync_outputs io c)"

section \<open>Lookup, read and write\<close>

fun canopen_od_find_index :: "canopen_od \<Rightarrow> u16 \<Rightarrow> indextable option" where
  "canopen_od_find_index [] index = None"
| "canopen_od_find_index (e # od) index = (if idx e = index then Some e else canopen_od_find_index od index)"

text \<open>The outer \<open>None\<close> is an access past the subindex array, the inner one the null pointer.\<close>

definition canopen_od_find_subindex :: "canopen_od \<Rightarrow> u16 \<Rightarrow> u8 \<Rightarrow> subindex option option" where
  "canopen_od_find_subindex od index bSubindex =
     (case canopen_od_find_index od index of
        None \<Rightarrow> Some None
      | Some entry \<Rightarrow> if bSubindex \<ge> bEndpoints entry then Some None
                     else map_option Some (rd (pSubindex entry) (unat bSubindex)))"

text \<open>\<open>Inl\<close> is the abort code, \<open>Inr\<close> the bytes copied and the size stored in \<open>*pSize\<close>.\<close>

definition canopen_od_read :: "canopen_od \<Rightarrow> u16 \<Rightarrow> u8 \<Rightarrow> u32 \<Rightarrow> can \<Rightarrow> (u32 + u8 list \<times> u32) option" where
  "canopen_od_read od index bSubindex pSize c =
     (case canopen_od_find_index od index of
        None \<Rightarrow> Some (Inl SDO_ABORT_NO_SUCH_OBJECT)
      | Some entry \<Rightarrow>
        if bSubindex \<ge> bEndpoints entry then Some (Inl SDO_ABORT_NO_SUCH_SUBINDEX)
        else do {
          sub \<leftarrow> rd (pSubindex entry) (unat bSubindex);
          (case pObject sub of
             None \<Rightarrow> Some (Inl SDO_ABORT_NO_SUCH_OBJECT)
           | Some v \<Rightarrow>
             if bAccessType sub AND CANOPEN_ACCESS_READ_MASK = 0 \<and> bAccessType sub \<noteq> CANOPEN_ACCESS_CONST then Some (Inl SDO_ABORT_READ_NOT_ALLOWED)
             else do {
               let bytes_to_copy = (if pSize < sub_size sub then pSize else sub_size sub);
               bs \<leftarrow> rd_span (store c v) 0 (unat bytes_to_copy);
               Some (Inr (bs, sub_size sub))
             })
        })"

text \<open>\<open>src\<close> holds the \<open>size\<close> bytes to write; the result is \<open>OD_SUCCESSFUL\<close> (0) or the abort code.\<close>

definition canopen_od_write :: "canopen_od \<Rightarrow> u16 \<Rightarrow> u8 \<Rightarrow> u8 list \<Rightarrow> can \<Rightarrow> (u32 \<times> can) option" where
  "canopen_od_write od index bSubindex src c =
     (case canopen_od_find_index od index of
        None \<Rightarrow> Some (SDO_ABORT_NO_SUCH_OBJECT, c)
      | Some entry \<Rightarrow>
        if bSubindex \<ge> bEndpoints entry then Some (SDO_ABORT_NO_SUCH_SUBINDEX, c)
        else do {
          sub \<leftarrow> rd (pSubindex entry) (unat bSubindex);
          (case pObject sub of
             None \<Rightarrow> Some (SDO_ABORT_NO_SUCH_OBJECT, c)
           | Some v \<Rightarrow>
             if bAccessType sub AND CANOPEN_ACCESS_WRITE_MASK = 0 then Some (SDO_ABORT_WRITE_NOT_ALLOWED, c)
             else if sub_size sub > 0 \<and> length src > unat (sub_size sub) then Some (SDO_ABORT_DATA_LENGTH_TOO_HIGH, c)
             else if sub_size sub > 0 \<and> length src < unat (sub_size sub) then Some (SDO_ABORT_DATA_LENGTH_TOO_SHORT, c)
             else do {
               st \<leftarrow> copy_to v src (store c);
               let c = c\<lparr>store := st\<rparr>;
               let c = (if s_post_write_cb c then c\<lparr>post_writes := post_writes c @ [(index, bSubindex, src)]\<rparr> else c);
               c \<leftarrow> (if index = 0x6200 \<or> index = 0x6411 then canopen_app_sync_outputs c else Some c);
               Some (OD_SUCCESSFUL, c)
             })
        })"

definition canopen_od_set_write_callback :: "bool \<Rightarrow> can \<Rightarrow> can" where
  "canopen_od_set_write_callback cb c = c\<lparr>s_post_write_cb := cb\<rparr>"

section \<open>The default dictionary of the board\<close>

definition ro :: u8 where "ro = 0x05"
definition rw :: u8 where "rw = 0x07"

text \<open>The entry of \<open>Board_objdict\<close> for an index with the given subindex array.\<close>

definition entry :: "u16 \<Rightarrow> subindex list \<Rightarrow> indextable" where
  "entry i subs = \<lparr>pSubindex = subs, bEndpoints = of_nat (length subs), idx = i\<rparr>"

text \<open>The row of a subindex array that points to the variable of the object itself.\<close>

definition row :: "u16 \<Rightarrow> u8 \<Rightarrow> u8 \<Rightarrow> u8 \<Rightarrow> u32 \<Rightarrow> subindex" where
  "row i k access ty sz = \<lparr>bAccessType = access, bDataType = ty, sub_size = sz, pObject = Some (i, k)\<rparr>"

definition Board_objdict :: canopen_od where
  "Board_objdict = [
    entry 0x1000 [row 0x1000 0 ro uint32 4],
    entry 0x1001 [row 0x1001 0 ro uint8 1],
    entry 0x1008 [row 0x1008 0 ro visible_string 22],
    entry 0x1009 [row 0x1009 0 ro visible_string 4],
    entry 0x100A [row 0x100A 0 ro visible_string 4],
    entry 0x1017 [row 0x1017 0 rw uint16 2],
    entry 0x1018 [row 0x1018 0 ro uint8 1,
      row 0x1018 1 ro uint32 4,
      row 0x1018 2 ro uint32 4,
      row 0x1018 3 ro uint32 4,
      row 0x1018 4 ro uint32 4],
    entry 0x1400 [row 0x1400 0 ro uint8 1,
      row 0x1400 1 rw uint32 4,
      row 0x1400 2 rw uint8 1],
    entry 0x1401 [row 0x1401 0 ro uint8 1,
      row 0x1401 1 rw uint32 4,
      row 0x1401 2 rw uint8 1],
    entry 0x1600 [row 0x1600 0 ro uint8 1,
      row 0x1600 1 ro uint32 4],
    entry 0x1601 [row 0x1601 0 ro uint8 1,
      row 0x1601 1 ro uint32 4,
      row 0x1601 2 ro uint32 4],
    entry 0x1800 [row 0x1800 0 ro uint8 1,
      row 0x1800 1 rw uint32 4,
      row 0x1800 2 rw uint8 1,
      row 0x1800 3 rw uint16 2,
      row 0x1800 4 ro uint8 1,
      row 0x1800 5 rw uint16 2],
    entry 0x1801 [row 0x1801 0 ro uint8 1,
      row 0x1801 1 rw uint32 4,
      row 0x1801 2 rw uint8 1,
      row 0x1801 3 rw uint16 2,
      row 0x1801 4 ro uint8 1,
      row 0x1801 5 rw uint16 2],
    entry 0x1A00 [row 0x1A00 0 ro uint8 1,
      row 0x1A00 1 ro uint32 4],
    entry 0x1A01 [row 0x1A01 0 ro uint8 1,
      row 0x1A01 1 ro uint32 4,
      row 0x1A01 2 ro uint32 4,
      row 0x1A01 3 ro uint32 4,
      row 0x1A01 4 ro uint32 4],
    entry 0x6000 [row 0x6000 0 ro uint8 1,
      row 0x6000 1 ro uint8 1],
    entry 0x6200 [row 0x6200 0 ro uint8 1,
      row 0x6200 1 rw uint8 1],
    entry 0x6401 [row 0x6401 0 ro uint8 1,
      row 0x6401 1 ro int16 2,
      row 0x6401 2 ro int16 2,
      row 0x6401 3 ro int16 2,
      row 0x6401 4 ro int16 2],
    entry 0x6411 [row 0x6411 0 ro uint8 1,
      row 0x6411 1 rw int16 2,
      row 0x6411 2 rw int16 2]]"

definition canopen_default_od_get :: canopen_od where
  "canopen_default_od_get = Board_objdict"

text \<open>The static initialisers of the variables.\<close>

definition Board_vars :: "(var \<times> u8 list) list" where
  "Board_vars = [
    ((0x1000, 0), le32 0x00020191),
    ((0x1001, 0), [0x00]),
    ((0x1008, 0), str_bytes ''STM32 Automation Board'' @ [0]),
    ((0x1009, 0), str_bytes ''v1.0'' @ [0]),
    ((0x100A, 0), str_bytes ''v1.0'' @ [0]),
    ((0x1017, 0), le16 1000),
    ((0x1018, 0), [4]),
    ((0x1018, 1), le32 0x00000000),
    ((0x1018, 2), le32 0x00004070),
    ((0x1018, 3), le32 0x00010000),
    ((0x1018, 4), le32 0x12345678),
    ((0x1400, 0), [2]),
    ((0x1400, 1), le32 0x201),
    ((0x1400, 2), [254]),
    ((0x1401, 0), [2]),
    ((0x1401, 1), le32 0x301),
    ((0x1401, 2), [254]),
    ((0x1600, 0), [1]),
    ((0x1600, 1), le32 0x62000108),
    ((0x1601, 0), [2]),
    ((0x1601, 1), le32 0x64110110),
    ((0x1601, 2), le32 0x64110210),
    ((0x1800, 0), [5]),
    ((0x1800, 1), le32 0x181),
    ((0x1800, 2), [254]),
    ((0x1800, 3), le16 100),
    ((0x1800, 4), [0]),
    ((0x1800, 5), le16 1000),
    ((0x1801, 0), [5]),
    ((0x1801, 1), le32 0x281),
    ((0x1801, 2), [254]),
    ((0x1801, 3), le16 100),
    ((0x1801, 4), [0]),
    ((0x1801, 5), le16 1000),
    ((0x1A00, 0), [1]),
    ((0x1A00, 1), le32 0x60000108),
    ((0x1A01, 0), [4]),
    ((0x1A01, 1), le32 0x64010110),
    ((0x1A01, 2), le32 0x64010210),
    ((0x1A01, 3), le32 0x64010310),
    ((0x1A01, 4), le32 0x64010410),
    ((0x6000, 0), [1]),
    ((0x6000, 1), [0x00]),
    ((0x6200, 0), [1]),
    ((0x6200, 1), [0x00]),
    ((0x6401, 0), [4]),
    ((0x6401, 1), le16 0),
    ((0x6401, 2), le16 0),
    ((0x6401, 3), le16 0),
    ((0x6401, 4), le16 0),
    ((0x6411, 0), [2]),
    ((0x6411, 1), le16 0),
    ((0x6411, 2), le16 0)]"

definition boot_store :: store where
  "boot_store v = (case map_of Board_vars v of Some bs \<Rightarrow> bs | None \<Rightarrow> [])"

definition set_var :: "var \<Rightarrow> u8 list \<Rightarrow> store \<Rightarrow> store" where
  "set_var v bs st = st(v := bs)"

definition canopen_default_od_reset :: "can \<Rightarrow> can" where
  "canopen_default_od_reset c = c\<lparr>store :=
     (set_var (0x6000, 1) [0] \<circ> set_var (0x6200, 1) [0] \<circ>
      set_var (0x6401, 1) (le16 0) \<circ> set_var (0x6401, 2) (le16 0) \<circ> set_var (0x6401, 3) (le16 0) \<circ> set_var (0x6401, 4) (le16 0) \<circ>
      set_var (0x6411, 1) (le16 0) \<circ> set_var (0x6411, 2) (le16 0) \<circ> set_var (0x1001, 0) [0]) (store c)\<rparr>"

definition canopen_default_od_update_node_id :: "u8 \<Rightarrow> can \<Rightarrow> can" where
  "canopen_default_od_update_node_id node_id c = canopen_default_od_reset (c\<lparr>store :=
     (set_var (0x1400, 1) (le32 (0x200 + ucast node_id)) \<circ> set_var (0x1401, 1) (le32 (0x300 + ucast node_id)) \<circ>
      set_var (0x1800, 1) (le32 (0x180 + ucast node_id)) \<circ> set_var (0x1801, 1) (le32 (0x280 + ucast node_id))) (store c)\<rparr>)"

section \<open>Well-formedness\<close>

text \<open>Every variable keeps the size of its declaration.\<close>

definition app_wf :: "can_app \<Rightarrow> bool" where
  "app_wf app = (case app of
     F767_App io \<Rightarrow> length (s_hw_analog_inputs io) = 4 \<and> length (s_hw_analog_outputs io) = 2 | _ \<Rightarrow> True)"

definition can_wf :: "can \<Rightarrow> bool" where
  "can_wf c \<longleftrightarrow> (\<forall>v. length (store c v) = length (boot_store v)) \<and> length (s_last_ao c) = 2 \<and>
     board_wf (co_board c) \<and> (\<forall>n. length (fst (adc_scans c n)) = 4) \<and> app_wf (co_app c)"

lemma length_le [simp]: "length (le16 v) = 2" "length (le32 w) = 4"
  by (simp_all add: le16_def le32_def)

lemma boot_sizes [simp]:
  "length (boot_store (0x6000, 1)) = 1" "length (boot_store (0x6200, 1)) = 1"
  "length (boot_store (0x6401, 1)) = 2" "length (boot_store (0x6401, 2)) = 2"
  "length (boot_store (0x6401, 3)) = 2" "length (boot_store (0x6401, 4)) = 2"
  "length (boot_store (0x6411, 1)) = 2" "length (boot_store (0x6411, 2)) = 2"
  "length (boot_store (0x1017, 0)) = 2"
  by (simp_all add: boot_store_def Board_vars_def)

lemma can_wf_size: "can_wf c \<Longrightarrow> length (store c v) = length (boot_store v)"
  by (cases v) (simp add: can_wf_def)

lemma can_wf_upd [simp]:
  "can_wf (c\<lparr>tx_log := l\<rparr>) = can_wf c" "can_wf (c\<lparr>post_writes := w\<rparr>) = can_wf c"
  "can_wf (c\<lparr>s_last_do := d\<rparr>) = can_wf c" "can_wf (c\<lparr>adc_count := n\<rparr>) = can_wf c"
  "can_wf (c\<lparr>s_post_write_cb := b\<rparr>) = can_wf c"
  by (simp_all add: can_wf_def)

lemma can_wf_board: "can_wf c \<Longrightarrow> board_wf b \<Longrightarrow> can_wf (c\<lparr>co_board := b\<rparr>)"
  by (simp add: can_wf_def)

lemma can_wf_store: "can_wf c \<Longrightarrow> copy_to v bs (store c) = Some st \<Longrightarrow> can_wf (c\<lparr>store := st\<rparr>)"
  by (auto simp: can_wf_def copy_to_def split: if_splits)

lemma copy_to_total: "can_wf c \<Longrightarrow> length bs \<le> length (boot_store v) \<Longrightarrow> \<exists>st. copy_to v bs (store c) = Some st"
  by (simp add: copy_to_def can_wf_size)

lemma read_le16_total: "can_wf c \<Longrightarrow> length (boot_store v) = 2 \<Longrightarrow> \<exists>x. read_le16 v (store c) = Some x"
  by (simp add: read_le16_def rd_Some can_wf_size)

lemma analog_var_size [simp]:
  "i < 4 \<Longrightarrow> length (boot_store (p_analog_inputs i)) = 2" "i < 2 \<Longrightarrow> length (boot_store (p_analog_outputs i)) = 2"
  by (auto simp: p_analog_inputs_def p_analog_outputs_def less_Suc_eq eval_nat_numeral)

text \<open>The linked application, without the outputs it mirrors.\<close>

definition link :: "can \<Rightarrow> can_app" where
  "link c = (case co_app c of
     F767_App io \<Rightarrow> F767_App (io\<lparr>s_hw_digital_outputs := 0, s_hw_analog_outputs := []\<rparr>) | app \<Rightarrow> app)"

lemma link_board [simp]: "link c = Board_App \<longleftrightarrow> co_app c = Board_App"
  by (simp add: link_def split: can_app.split)

lemma link_cong: "co_app d = co_app c \<Longrightarrow> link d = link c"
  by (simp add: link_def)

text \<open>Output synchronisation runs through and touches only its own statics and the board.\<close>

definition io_frame :: "can \<Rightarrow> can \<Rightarrow> bool" where
  "io_frame c d \<longleftrightarrow> store d = store c \<and> tx_log d = tx_log c \<and> tx_results d = tx_results c \<and>
     adc_count d = adc_count c \<and> adc_scans d = adc_scans c \<and> post_writes d = post_writes c \<and>
     s_post_write_cb d = s_post_write_cb c"

lemma io_frame_refl [simp]: "io_frame c c"
  by (simp add: io_frame_def)

lemma io_frame_trans: "io_frame c d \<Longrightarrow> io_frame d e \<Longrightarrow> io_frame c e"
  by (simp add: io_frame_def)

lemma sync_ao_total:
  assumes "can_wf c" and "i < 2"
  shows "\<exists>d. sync_ao i c = Some d \<and> can_wf d \<and> io_frame c d \<and> co_app d = co_app c"
proof -
  have i: "(of_nat i :: u8) < 2" "unat (of_nat i :: u8) = i" using assms(2) by (simp_all add: word_less_nat_alt)
  then obtain x where x: "canopen_get_analog_output (of_nat i) c = Some x"
    using read_le16_total [OF assms(1), of "p_analog_outputs i"] assms(2) by (auto simp: canopen_get_analog_output_def)
  have l: "rd (s_last_ao c) i = Some (s_last_ao c ! i)" using assms by (simp add: rd_Some can_wf_def)
  have w: "can_wf (c\<lparr>s_last_ao := (s_last_ao c)[i := x]\<rparr>)" using assms(1) by (simp add: can_wf_def)
  have "can_wf (c\<lparr>s_last_ao := (s_last_ao c)[i := x], co_board := analog_output_write_raw (of_nat i) x (co_board c)\<rparr>)"
    using w assms(1) by (intro can_wf_board) (simp_all add: can_wf_def)
  with x l w assms(1) show ?thesis
    by (auto simp: sync_ao_def Let_def io_frame_def)
qed

lemma board_sync_outputs_total:
  assumes "can_wf c"
  shows "\<exists>d. board_sync_outputs c = Some d \<and> can_wf d \<and> io_frame c d \<and> co_app d = co_app c"
proof -
  have "0 < length (store c p_digital_outputs)" using assms by (simp add: can_wf_size p_digital_outputs_def)
  then obtain v where v: "canopen_get_digital_outputs c = Some v" by (simp add: canopen_get_digital_outputs_def rd_Some)
  define c1 where "c1 = (if v \<noteq> s_last_do c
      then c\<lparr>s_last_do := v, co_board := digital_outputs_write_all v (co_board c)\<rparr> else c)"
  have c1: "can_wf c1 \<and> io_frame c c1 \<and> co_app c1 = co_app c"
    using assms can_wf_board [of "c\<lparr>s_last_do := v\<rparr>"] by (auto simp: c1_def io_frame_def) (simp add: can_wf_def)
  have "\<exists>d. for_n 2 sync_ao c1 = Some d \<and> can_wf d \<and> io_frame c d \<and> co_app d = co_app c"
  proof (rule for_n_invariant [where P = "\<lambda>_ d. can_wf d \<and> io_frame c d \<and> co_app d = co_app c"])
    show "\<exists>e. sync_ao i d = Some e \<and> can_wf e \<and> io_frame c e \<and> co_app e = co_app c"
      if "i < 2" "can_wf d \<and> io_frame c d \<and> co_app d = co_app c" for i d
      using sync_ao_total [of d i] that io_frame_trans [of c d] by metis
  qed (rule c1)
  with v show ?thesis by (simp add: board_sync_outputs_def c1_def)
qed

lemma f767_sync_outputs_total:
  assumes "can_wf c" "co_app c = F767_App io"
  shows "\<exists>v a0 a1. store c p_digital_outputs = [v] \<and> read_le16 (p_analog_outputs 0) (store c) = Some a0 \<and>
    read_le16 (p_analog_outputs 1) (store c) = Some a1 \<and>
    f767_sync_outputs io c = Some (c\<lparr>co_app := F767_App (io\<lparr>s_hw_digital_outputs := v, s_hw_analog_outputs := [a0, a1]\<rparr>)\<rparr>)"
proof -
  have "length (store c p_digital_outputs) = 1" using assms by (simp add: can_wf_size p_digital_outputs_def)
  then obtain v where v: "store c p_digital_outputs = [v]" by (auto simp: length_Suc_conv)
  obtain a0 a1 where a: "read_le16 (p_analog_outputs 0) (store c) = Some a0" "read_le16 (p_analog_outputs 1) (store c) = Some a1"
    using read_le16_total [OF assms(1), of "p_analog_outputs 0"] read_le16_total [OF assms(1), of "p_analog_outputs 1"] by auto
  have "length (s_hw_analog_outputs io) = 2" using assms by (simp add: can_wf_def app_wf_def)
  then obtain x y where "s_hw_analog_outputs io = [x, y]" by (auto simp: length_Suc_conv numeral_2_eq_2)
  with v a show ?thesis
    by (simp add: f767_sync_outputs_def canopen_get_digital_outputs_def canopen_get_analog_output_def wr_def)
qed

lemma sync_outputs_total:
  assumes "can_wf c"
  shows "\<exists>d. canopen_app_sync_outputs c = Some d \<and> can_wf d \<and> io_frame c d \<and> link d = link c"
proof (cases "co_app c")
  case (F767_App io)
  obtain v a0 a1 where "f767_sync_outputs io c =
      Some (c\<lparr>co_app := F767_App (io\<lparr>s_hw_digital_outputs := v, s_hw_analog_outputs := [a0, a1]\<rparr>)\<rparr>)"
    using f767_sync_outputs_total [OF assms F767_App] by blast
  moreover have "length (s_hw_analog_inputs io) = 4" using assms F767_App by (simp add: can_wf_def app_wf_def)
  ultimately show ?thesis using assms F767_App by (simp add: canopen_app_sync_outputs_def io_frame_def can_wf_def app_wf_def link_def)
next
  case Board_App
  with board_sync_outputs_total [OF assms] show ?thesis by (auto simp: canopen_app_sync_outputs_def link_def)
qed (use assms in \<open>simp add: canopen_app_sync_outputs_def\<close>)

section \<open>The contract of a dictionary\<close>

definition readable :: "subindex \<Rightarrow> bool" where
  "readable sub \<longleftrightarrow> bAccessType sub AND 0x04 \<noteq> 0 \<or> bAccessType sub = 0x01"

definition writable :: "subindex \<Rightarrow> bool" where
  "writable sub \<longleftrightarrow> bAccessType sub AND 0x02 \<noteq> 0"

text \<open>The variables the outputs are taken from.\<close>

definition output_vars :: "var set" where
  "output_vars = {p_digital_outputs, p_analog_outputs 0, p_analog_outputs 1}"

locale object_dictionary =
  fixes od :: canopen_od
  assumes endpoints: "canopen_od_find_index od i = Some e \<Longrightarrow> length (pSubindex e) = unat (bEndpoints e)"
    and sized: "canopen_od_find_index od i = Some e \<Longrightarrow> sub \<in> set (pSubindex e) \<Longrightarrow> 0 < sub_size sub"
    and fits: "canopen_od_find_index od i = Some e \<Longrightarrow> sub \<in> set (pSubindex e) \<Longrightarrow> pObject sub = Some v \<Longrightarrow>
      unat (sub_size sub) \<le> length (boot_store v)"
    and outputs: "canopen_od_find_index od i = Some e \<Longrightarrow> sub \<in> set (pSubindex e) \<Longrightarrow> pObject sub = Some v \<Longrightarrow>
      v \<in> output_vars \<Longrightarrow> i = 0x6200 \<or> i = 0x6411"
begin

text \<open>A subindex that the lookup finds, with the variable it points to.\<close>

definition object :: "u16 \<Rightarrow> u8 \<Rightarrow> subindex \<Rightarrow> var \<Rightarrow> bool" where
  "object i k sub v \<longleftrightarrow> canopen_od_find_subindex od i k = Some (Some sub) \<and> pObject sub = Some v"

lemma find_subindex_total: "canopen_od_find_subindex od i k \<noteq> None"
proof (cases "canopen_od_find_index od i")
  case (Some e)
  with endpoints [OF this] show ?thesis
    by (auto simp: canopen_od_find_subindex_def rd_def word_le_nat_alt)
qed (simp add: canopen_od_find_subindex_def)

lemma find_subindex_cases:
  obtains (none) "canopen_od_find_index od i = None"
  | (short) e where "canopen_od_find_index od i = Some e" "k \<ge> bEndpoints e"
  | (found) e sub where "canopen_od_find_index od i = Some e" "\<not> k \<ge> bEndpoints e"
      "rd (pSubindex e) (unat k) = Some sub" "sub \<in> set (pSubindex e)"
      "canopen_od_find_subindex od i k = Some (Some sub)"
proof (cases "canopen_od_find_index od i")
  case (Some e)
  show ?thesis
  proof (cases "k \<ge> bEndpoints e")
    case False
    then have "unat k < length (pSubindex e)" using endpoints [OF Some] by (simp add: word_le_nat_alt)
    with Some False that(3) [of e "pSubindex e ! unat k"] show ?thesis
      by (simp add: canopen_od_find_subindex_def rd_Some)
  qed (use Some that(2) in blast)
qed (use that(1) in blast)

lemma object_cases:
  assumes "object i k sub v"
  obtains e where "canopen_od_find_index od i = Some e" "\<not> k \<ge> bEndpoints e" "rd (pSubindex e) (unat k) = Some sub"
    "sub \<in> set (pSubindex e)" "0 < sub_size sub" "unat (sub_size sub) \<le> length (boot_store v)"
proof (rule find_subindex_cases [where i = i and k = k])
  fix e sub'
  assume e: "canopen_od_find_index od i = Some e" "\<not> k \<ge> bEndpoints e" "rd (pSubindex e) (unat k) = Some sub'"
    "sub' \<in> set (pSubindex e)" "canopen_od_find_subindex od i k = Some (Some sub')"
  then have "sub' = sub" using assms by (simp add: object_def)
  with e assms sized [OF e(1)] fits [OF e(1)] that show thesis by (simp add: object_def)
qed (use assms in \<open>simp_all add: object_def canopen_od_find_subindex_def\<close>)

lemma od_read_object:
  assumes "can_wf c" and "object i k sub v" and "readable sub"
  shows "canopen_od_read od i k sz c =
    Some (Inr (take (unat (if sz < sub_size sub then sz else sub_size sub)) (store c v), sub_size sub))"
proof -
  obtain e where e: "canopen_od_find_index od i = Some e" "\<not> k \<ge> bEndpoints e" "rd (pSubindex e) (unat k) = Some sub"
    "unat (sub_size sub) \<le> length (boot_store v)" using object_cases [OF assms(2)] by metis
  have "unat (if sz < sub_size sub then sz else sub_size sub) \<le> length (store c v)"
    using e(4) assms(1) by (simp add: can_wf_size word_less_nat_alt)
  with e assms(2,3) show ?thesis
    by (auto simp: canopen_od_read_def object_def readable_def rd_span_Some Let_def)
qed

lemma od_read_total:
  assumes "can_wf c"
  shows "\<exists>r. canopen_od_read od i k sz c = Some r"
proof (rule find_subindex_cases [where i = i and k = k])
  fix e sub
  assume e: "canopen_od_find_index od i = Some e" "\<not> k \<ge> bEndpoints e" "rd (pSubindex e) (unat k) = Some sub"
    "canopen_od_find_subindex od i k = Some (Some sub)"
  show ?thesis
  proof (cases "pObject sub")
    case (Some v)
    show ?thesis
    proof (cases "readable sub")
      case True
      with od_read_object [OF assms, of i k sub v sz] e(4) Some show ?thesis by (simp add: object_def)
    qed (use e Some in \<open>simp add: canopen_od_read_def readable_def\<close>)
  qed (use e in \<open>simp add: canopen_od_read_def\<close>)
qed (simp_all add: canopen_od_read_def)

text \<open>The effect of a write that is allowed and has the object's size.\<close>

lemma od_write_object:
  assumes "can_wf c" and "object i k sub v" and "writable sub" and "length src = unat (sub_size sub)"
  shows "\<exists>d. canopen_od_write od i k src c = Some (0, d) \<and> can_wf d \<and>
    store d = (store c)(v := src @ drop (length src) (store c v)) \<and> tx_log d = tx_log c \<and> adc_count d = adc_count c \<and>
    post_writes d = (if s_post_write_cb c then post_writes c @ [(i, k, src)] else post_writes c)"
proof -
  obtain e where e: "canopen_od_find_index od i = Some e" "\<not> k \<ge> bEndpoints e" "rd (pSubindex e) (unat k) = Some sub"
    "unat (sub_size sub) \<le> length (boot_store v)" using object_cases [OF assms(2)] by metis
  define st where "st = (store c)(v := src @ drop (length src) (store c v))"
  have st: "copy_to v src (store c) = Some st" using e(4) assms(1,4) by (simp add: copy_to_def can_wf_size st_def)
  define c1 where "c1 = (if s_post_write_cb c then c\<lparr>store := st, post_writes := post_writes c @ [(i, k, src)]\<rparr> else c\<lparr>store := st\<rparr>)"
  have w: "can_wf c1" using can_wf_store [OF assms(1) st] by (simp add: c1_def)
  obtain d where "canopen_app_sync_outputs c1 = Some d" "can_wf d" "io_frame c1 d" using sync_outputs_total [OF w] by blast
  moreover have "canopen_od_write od i k src c =
      (if i = 0x6200 \<or> i = 0x6411 then map_option (Pair 0) (canopen_app_sync_outputs c1) else Some (0, c1))"
    using e assms(2-4) st
    by (auto simp: canopen_od_write_def object_def writable_def c1_def Let_def map_option_case split: option.split)
  ultimately show ?thesis
    using w by (auto simp: io_frame_def c1_def st_def [symmetric])
qed

lemma od_write_total:
  assumes "can_wf c"
  shows "\<exists>code d. canopen_od_write od i k src c = Some (code, d) \<and> can_wf d \<and> (code \<noteq> 0 \<longrightarrow> d = c) \<and>
    tx_log d = tx_log c \<and> adc_count d = adc_count c \<and>
    (code = 0 \<longleftrightarrow> (\<exists>sub v. object i k sub v \<and> writable sub \<and> length src = unat (sub_size sub)))"
proof (rule find_subindex_cases [where i = i and k = k])
  fix e sub
  assume e: "canopen_od_find_index od i = Some e" "\<not> k \<ge> bEndpoints e" "rd (pSubindex e) (unat k) = Some sub"
    "sub \<in> set (pSubindex e)" "canopen_od_find_subindex od i k = Some (Some sub)"
  show ?thesis
  proof (cases "\<exists>v. pObject sub = Some v \<and> writable sub \<and> length src = unat (sub_size sub)")
    case True
    then obtain v where v: "object i k sub v" "writable sub" "length src = unat (sub_size sub)"
      using e(5) by (auto simp: object_def)
    from od_write_object [OF assms v] v show ?thesis by fastforce
  next
    case False
    have "0 < sub_size sub" using sized [OF e(1,4)] .
    with False e assms show ?thesis
      by (cases "pObject sub") (auto simp: canopen_od_write_def writable_def object_def)
  qed
qed (use assms in \<open>auto simp: canopen_od_write_def object_def canopen_od_find_subindex_def\<close>)

text \<open>What is written is read back, and nothing else changes.\<close>

lemma od_write_read:
  assumes "can_wf c" and "object i k sub v" and "writable sub" "readable sub" and "length src = unat (sub_size sub)"
  shows "\<exists>d. canopen_od_write od i k src c = Some (0, d) \<and> can_wf d \<and>
    canopen_od_read od i k (sub_size sub) d = Some (Inr (src, sub_size sub)) \<and>
    (\<forall>u. u \<noteq> v \<longrightarrow> store d u = store c u)"
proof -
  from od_write_object [OF assms(1-3,5)] obtain d where
    d: "canopen_od_write od i k src c = Some (0, d)" "can_wf d"
      "store d = (store c)(v := src @ drop (length src) (store c v))" by blast
  from od_read_object [OF d(2) assms(2,4), of "sub_size sub"] d assms(5) show ?thesis by simp
qed

end

section \<open>The default dictionary meets it\<close>

lemma find_index_in: "canopen_od_find_index od i = Some e \<Longrightarrow> e \<in> set od \<and> idx e = i"
  by (induction od) (auto split: if_splits)

lemma board_entries:
  "\<forall>e \<in> set Board_objdict. length (pSubindex e) = unat (bEndpoints e) \<and>
     (\<forall>sub \<in> set (pSubindex e). 0 < sub_size sub \<and>
        (case pObject sub of Some v \<Rightarrow> unat (sub_size sub) \<le> length (boot_store v) \<and>
           (v \<in> output_vars \<longrightarrow> idx e = 0x6200 \<or> idx e = 0x6411) | None \<Rightarrow> True))"
  by (simp add: output_vars_def p_digital_outputs_def p_analog_outputs_def Board_objdict_def entry_def row_def boot_store_def Board_vars_def str_bytes_def)

interpretation board_od: object_dictionary canopen_default_od_get
  by unfold_locales
    (use board_entries in \<open>fastforce simp: canopen_default_od_get_def dest: find_index_in\<close>)+

end
