(* ===== verification/Co_Nmt.thy ===== *)
theory Co_Nmt
  imports Co_Od
begin

text \<open>
  The NMT slave and heartbeat producer, \<open>src/canopen/canopen_nmt.c\<close>. The context is the record
  \<open>nmt\<close>; every operation threads the state \<open>can\<close>, in which the transmitted frames are logged. The
  transmit function is never null here, as \<open>canopen_init\<close> refuses a null one, and the guards for
  null contexts have no counterpart.

  The second part is the NMT slave of CiA 301 as a step relation over the four states, which the
  command handler is shown to implement, and the arithmetic of the heartbeat timer.
\<close>

section \<open>Operations\<close>

datatype canopen_nmt_state =
  NMT_STATE_INITIALISATION | NMT_STATE_STOPPED | NMT_STATE_OPERATIONAL | NMT_STATE_PRE_OPERATIONAL

text \<open>The values of the enumeration.\<close>

fun nmt_state_code :: "canopen_nmt_state \<Rightarrow> u8" where
  "nmt_state_code NMT_STATE_INITIALISATION = 0x00"
| "nmt_state_code NMT_STATE_STOPPED = 0x04"
| "nmt_state_code NMT_STATE_OPERATIONAL = 0x05"
| "nmt_state_code NMT_STATE_PRE_OPERATIONAL = 0x7F"

record canopen_nmt =
  nmt_node_id :: u8
  nmt_state :: canopen_nmt_state
  heartbeat_period_ms :: u16
  heartbeat_timer_ms :: u16

text \<open>The frame on the node's heartbeat identifier.\<close>

definition heartbeat_frame :: "u8 \<Rightarrow> u8 \<Rightarrow> canopen_frame" where
  "heartbeat_frame node_id b = \<lparr>cob_id = CANOPEN_COB_HEARTBEAT_BASE + ucast node_id, frame_data = [b], rtr = False\<rparr>"

definition canopen_nmt_send_bootup :: "canopen_nmt \<Rightarrow> can \<Rightarrow> can" where
  "canopen_nmt_send_bootup nmt c = snd (tx_func (heartbeat_frame (nmt_node_id nmt) 0x00) c)"

definition canopen_nmt_init :: "u8 \<Rightarrow> u16 \<Rightarrow> can \<Rightarrow> canopen_nmt \<times> can" where
  "canopen_nmt_init node_id heartbeat_period c =
     (let nmt = \<lparr>nmt_node_id = node_id, nmt_state = NMT_STATE_PRE_OPERATIONAL,
                 heartbeat_period_ms = heartbeat_period, heartbeat_timer_ms = heartbeat_period\<rparr>
      in (nmt, canopen_nmt_send_bootup nmt c))"

definition canopen_nmt_process :: "u32 \<Rightarrow> canopen_nmt \<times> can \<Rightarrow> canopen_nmt \<times> can" where
  "canopen_nmt_process delta_ms s = (case s of (nmt, c) \<Rightarrow>
     if heartbeat_period_ms nmt = 0 then (nmt, c)
     else if delta_ms \<ge> ucast (heartbeat_timer_ms nmt)
     then (nmt\<lparr>heartbeat_timer_ms := heartbeat_period_ms nmt\<rparr>,
           snd (tx_func (heartbeat_frame (nmt_node_id nmt) (nmt_state_code (nmt_state nmt))) c))
     else (nmt\<lparr>heartbeat_timer_ms := heartbeat_timer_ms nmt - ucast delta_ms\<rparr>, c))"

text \<open>The buffer is \<open>data\<close>, the frame's length \<open>len\<close>; \<open>None\<close> is a read past the buffer.\<close>

definition canopen_nmt_rx_command :: "u8 list \<Rightarrow> u8 \<Rightarrow> canopen_nmt \<times> can \<Rightarrow> (bool \<times> canopen_nmt \<times> can) option" where
  "canopen_nmt_rx_command data len s = (case s of (nmt, c) \<Rightarrow>
     if len < 2 then Some (False, nmt, c)
     else do {
       cs \<leftarrow> rd data 0;
       target_node \<leftarrow> rd data 1;
       Some (if target_node \<noteq> 0 \<and> target_node \<noteq> nmt_node_id nmt then (False, nmt, c)
         else if cs = NMT_CMD_START_NODE then (True, nmt\<lparr>nmt_state := NMT_STATE_OPERATIONAL\<rparr>, c)
         else if cs = NMT_CMD_STOP_NODE then (True, nmt\<lparr>nmt_state := NMT_STATE_STOPPED\<rparr>, c)
         else if cs = NMT_CMD_ENTER_PRE_OPERATIONAL then (True, nmt\<lparr>nmt_state := NMT_STATE_PRE_OPERATIONAL\<rparr>, c)
         else if cs = NMT_CMD_RESET_NODE \<or> cs = NMT_CMD_RESET_COMMUNICATION then
           let nmt = nmt\<lparr>nmt_state := NMT_STATE_PRE_OPERATIONAL, heartbeat_timer_ms := heartbeat_period_ms nmt\<rparr>
           in (True, nmt, canopen_nmt_send_bootup nmt c)
         else (False, nmt, c))
     })"

definition canopen_nmt_set_state :: "canopen_nmt_state \<Rightarrow> canopen_nmt \<Rightarrow> canopen_nmt" where
  "canopen_nmt_set_state new_state nmt = nmt\<lparr>nmt_state := new_state\<rparr>"

definition canopen_nmt_get_state :: "canopen_nmt \<Rightarrow> canopen_nmt_state" where
  "canopen_nmt_get_state nmt = nmt_state nmt"

section \<open>The NMT slave of CiA 301\<close>

datatype nmt_command = Start | Stop | Enter_Pre_Operational | Reset_Node | Reset_Communication

text \<open>The services, and the two automatic steps after a reset.\<close>

inductive nmt_service :: "canopen_nmt_state \<Rightarrow> nmt_command \<Rightarrow> canopen_nmt_state \<Rightarrow> bool" where
  start: "s \<noteq> NMT_STATE_INITIALISATION \<Longrightarrow> nmt_service s Start NMT_STATE_OPERATIONAL"
| stop: "s \<noteq> NMT_STATE_INITIALISATION \<Longrightarrow> nmt_service s Stop NMT_STATE_STOPPED"
| pre: "s \<noteq> NMT_STATE_INITIALISATION \<Longrightarrow> nmt_service s Enter_Pre_Operational NMT_STATE_PRE_OPERATIONAL"
| reset: "k = Reset_Node \<or> k = Reset_Communication \<Longrightarrow> nmt_service s k NMT_STATE_INITIALISATION"

inductive nmt_auto :: "canopen_nmt_state \<Rightarrow> canopen_nmt_state \<Rightarrow> bool" where
  boot: "nmt_auto NMT_STATE_INITIALISATION NMT_STATE_PRE_OPERATIONAL"

inductive_cases nmt_autoE: "nmt_auto s t"
inductive_cases nmt_serviceE: "nmt_service s k t"

inductive_simps nmt_auto_iff: "nmt_auto s t"
inductive_simps nmt_service_iff: "nmt_service s k t"

text \<open>The commands a sequence of services ends in, resting only in states without automatic exit.\<close>

inductive nmt_run :: "canopen_nmt_state \<Rightarrow> nmt_command list \<Rightarrow> canopen_nmt_state \<Rightarrow> bool" where
  halt: "s \<noteq> NMT_STATE_INITIALISATION \<Longrightarrow> nmt_run s [] s"
| service: "nmt_service s k t \<Longrightarrow> nmt_run t ks u \<Longrightarrow> nmt_run s (k # ks) u"
| auto: "nmt_auto s t \<Longrightarrow> nmt_run t ks u \<Longrightarrow> nmt_run s ks u"

text \<open>The command of an NMT message for node \<open>n\<close>, if it is one.\<close>

definition command_of :: "u8 \<Rightarrow> u8 list \<Rightarrow> nmt_command option" where
  "command_of n data = (case data of
     cs # target # _ \<Rightarrow>
       if target \<noteq> 0 \<and> target \<noteq> n then None
       else if cs = NMT_CMD_START_NODE then Some Start else if cs = NMT_CMD_STOP_NODE then Some Stop
       else if cs = NMT_CMD_ENTER_PRE_OPERATIONAL then Some Enter_Pre_Operational
       else if cs = NMT_CMD_RESET_NODE then Some Reset_Node else if cs = NMT_CMD_RESET_COMMUNICATION then Some Reset_Communication else None
   | _ \<Rightarrow> None)"

fun after_command :: "nmt_command \<Rightarrow> canopen_nmt_state" where
  "after_command Start = NMT_STATE_OPERATIONAL"
| "after_command Stop = NMT_STATE_STOPPED"
| "after_command _ = NMT_STATE_PRE_OPERATIONAL"

lemma after_command_not_init [simp]: "after_command k \<noteq> NMT_STATE_INITIALISATION"
  by (cases k) simp_all

text \<open>The state a node rests in: a reset passes through the initialisation on its own.\<close>

fun at_rest :: "canopen_nmt_state \<Rightarrow> canopen_nmt_state" where
  "at_rest NMT_STATE_INITIALISATION = NMT_STATE_PRE_OPERATIONAL"
| "at_rest s = s"

lemma nmt_run_unique: "nmt_run s ks u \<Longrightarrow> u = foldl (\<lambda>_. after_command) (at_rest s) ks"
proof (induction rule: nmt_run.induct)
  case (halt s)
  then show ?case by (cases s) simp_all
next
  case (service s k t ks u)
  then have "at_rest t = after_command k" by (auto elim: nmt_serviceE)
  with service show ?case by simp
qed (auto elim: nmt_autoE)

lemma nmt_run_step:
  assumes "s \<noteq> NMT_STATE_INITIALISATION" and "nmt_run (after_command k) ks u"
  shows "nmt_run s (k # ks) u"
  using assms by (cases k) (auto intro: nmt_run.intros nmt_service.intros nmt_auto.boot)

text \<open>What a command does to the context and to the wire.\<close>

definition nmt_effect :: "nmt_command option \<Rightarrow> canopen_nmt \<times> can \<Rightarrow> canopen_nmt \<times> can" where
  "nmt_effect k s = (case k of
     None \<Rightarrow> s
   | Some k \<Rightarrow>
     let nmt = (fst s)\<lparr>nmt_state := after_command k\<rparr>
     in if k = Reset_Node \<or> k = Reset_Communication
        then (nmt\<lparr>heartbeat_timer_ms := heartbeat_period_ms nmt\<rparr>,
              snd (tx_func (heartbeat_frame (nmt_node_id nmt) 0) (snd s)))
        else (nmt, snd s))"

lemma rx_command_effect:
  assumes "2 \<le> length data"
  shows "canopen_nmt_rx_command data len s =
    Some (command_of (nmt_node_id (fst s)) (take (unat len) data) \<noteq> None,
          nmt_effect (command_of (nmt_node_id (fst s)) (take (unat len) data)) s)"
proof (cases "len < 2")
  case True
  then have "unat len = 0 \<or> unat len = 1" by (auto simp: word_less_nat_alt)
  then have "command_of n (take (unat len) data) = None" for n
    by (cases data) (auto simp: command_of_def)
  with True show ?thesis by (simp add: canopen_nmt_rx_command_def nmt_effect_def split: prod.split)
next
  case False
  then have "2 \<le> unat len" by (simp add: word_less_nat_alt)
  then obtain n where n: "unat len = Suc (Suc n)" by (metis Suc_le_D Suc_le_mono numeral_2_eq_2)
  with assms obtain a b xs where "data = a # b # xs" by (cases data rule: list.exhaust; cases "tl data"; auto)
  with False n show ?thesis
    by (simp add: canopen_nmt_rx_command_def command_of_def nmt_effect_def canopen_nmt_send_bootup_def Let_def
        split: prod.split)
qed

section \<open>The heartbeat timer\<close>

text \<open>The timer never exceeds the period and never rests at zero while the producer runs.\<close>

definition nmt_wf :: "canopen_nmt \<Rightarrow> bool" where
  "nmt_wf nmt \<longleftrightarrow> heartbeat_timer_ms nmt \<le> heartbeat_period_ms nmt \<and>
     (0 < heartbeat_period_ms nmt \<longrightarrow> 0 < heartbeat_timer_ms nmt)"

lemma nmt_wf_init [simp]: "nmt_wf (fst (canopen_nmt_init node_id p c))"
  by (simp add: canopen_nmt_init_def nmt_wf_def Let_def)

lemma nmt_wf_effect: "nmt_wf (fst s) \<Longrightarrow> nmt_wf (fst (nmt_effect k s))"
  by (cases k) (simp_all add: nmt_effect_def nmt_wf_def Let_def)

lemma unat_ucast_u16_u32 [simp]: "unat (ucast (x :: u16) :: u32) = unat x"
  using unat_u16_less [of x] by (simp add: unsigned_ucast_eq take_bit_nat_eq_self_iff)

lemma timer_subtract:
  assumes "\<not> ucast (t :: u16) \<le> (d :: u32)"
  shows "unat (t - ucast d) = unat t - unat d" "unat d < unat t"
proof -
  show l: "unat d < unat t" using assms by (simp add: word_le_nat_alt not_le)
  have "unat (ucast d :: u16) = unat d"
    using l unat_u16_less [of t] by (simp add: unsigned_ucast_eq take_bit_nat_eq_self_iff)
  with l show "unat (t - ucast d) = unat t - unat d"
    by (simp add: unat_sub word_le_nat_alt)
qed

text \<open>One call of the timer: it either sends a heartbeat and restarts, or counts down.\<close>

lemma nmt_process_cases:
  assumes "0 < heartbeat_period_ms nmt"
  obtains (beat) "canopen_nmt_process d (nmt, c) = (nmt\<lparr>heartbeat_timer_ms := heartbeat_period_ms nmt\<rparr>,
      snd (tx_func (heartbeat_frame (nmt_node_id nmt) (nmt_state_code (nmt_state nmt))) c))"
      "unat (heartbeat_timer_ms nmt) \<le> unat d"
  | (wait) t where "canopen_nmt_process d (nmt, c) = (nmt\<lparr>heartbeat_timer_ms := t\<rparr>, c)"
      "unat t = unat (heartbeat_timer_ms nmt) - unat d" "unat d < unat (heartbeat_timer_ms nmt)"
proof (cases "ucast (heartbeat_timer_ms nmt) \<le> d")
  case True
  with assms that(1) show ?thesis by (simp add: canopen_nmt_process_def word_le_nat_alt)
next
  case False
  then have "canopen_nmt_process d (nmt, c) =
      (nmt\<lparr>heartbeat_timer_ms := heartbeat_timer_ms nmt - ucast d\<rparr>, c)"
    using assms by (simp add: canopen_nmt_process_def)
  from that(2) [OF this timer_subtract [OF False]] show ?thesis .
qed

lemma nmt_process_frame [simp]:
  "nmt_node_id (fst (canopen_nmt_process d s)) = nmt_node_id (fst s)"
  "nmt_state (fst (canopen_nmt_process d s)) = nmt_state (fst s)"
  "heartbeat_period_ms (fst (canopen_nmt_process d s)) = heartbeat_period_ms (fst s)"
  by (cases s; simp add: canopen_nmt_process_def)+

lemma nmt_effect_frame [simp]:
  "nmt_node_id (fst (nmt_effect k s)) = nmt_node_id (fst s)"
  "heartbeat_period_ms (fst (nmt_effect k s)) = heartbeat_period_ms (fst s)"
  "nmt_state (fst (nmt_effect k s)) = (case k of None \<Rightarrow> nmt_state (fst s) | Some k \<Rightarrow> after_command k)"
  by (cases k; simp add: nmt_effect_def Let_def)+

lemma nmt_wf_process: "nmt_wf (fst s) \<Longrightarrow> nmt_wf (fst (canopen_nmt_process d s))"
proof (cases s)
  case (Pair nmt c)
  assume w: "nmt_wf (fst s)"
  show ?thesis
  proof (cases "heartbeat_period_ms nmt = 0")
    case False
    then have "0 < heartbeat_period_ms nmt" by (simp add: word_gt_0)
    then show ?thesis
    proof (cases rule: nmt_process_cases [where d = d and c = c])
      case (wait t)
      with w Pair False show ?thesis by (auto simp: nmt_wf_def word_less_nat_alt word_le_nat_alt)
    qed (use w Pair in \<open>simp add: nmt_wf_def\<close>)
  qed (use w Pair in \<open>simp add: canopen_nmt_process_def\<close>)
qed

lemma can_wf_tx [simp]: "can_wf (snd (tx_func fr c)) = can_wf c"
  by (simp add: tx_func_def)

lemma tx_simps [simp]:
  "store (snd (tx_func fr c)) = store c" "co_board (snd (tx_func fr c)) = co_board c"
  "s_last_do (snd (tx_func fr c)) = s_last_do c" "s_last_ao (snd (tx_func fr c)) = s_last_ao c"
  "tx_log (snd (tx_func fr c)) = tx_log c @ [fr]" "tx_results (snd (tx_func fr c)) = tx_results c"
  by (simp_all add: tx_func_def)

text \<open>All that was transmitted meanwhile carries one of the identifiers \<open>S\<close>.\<close>

definition sends :: "u32 set \<Rightarrow> can \<Rightarrow> can \<Rightarrow> bool" where
  "sends S c d \<longleftrightarrow> (\<exists>fs. tx_log d = tx_log c @ fs \<and> (\<forall>fr \<in> set fs. cob_id fr \<in> S))"

lemma sends_refl: "tx_log d = tx_log c \<Longrightarrow> sends S c d"
  by (simp add: sends_def)

lemma sends_one: "tx_log d = tx_log c @ [fr] \<Longrightarrow> cob_id fr \<in> S \<Longrightarrow> sends S c d"
  by (simp add: sends_def)

lemma sends_trans: "sends S c d \<Longrightarrow> sends S d e \<Longrightarrow> sends S c e"
  by (auto simp: sends_def)

lemma sends_mono: "sends S c d \<Longrightarrow> S \<subseteq> T \<Longrightarrow> sends T c d"
  by (auto simp: sends_def)

text \<open>The NMT operations touch nothing but the log.\<close>

definition only_log :: "can \<Rightarrow> can \<Rightarrow> bool" where
  "only_log c d \<longleftrightarrow> (\<exists>l. d = c\<lparr>tx_log := l\<rparr>)"

lemma only_log_refl [simp]: "only_log c c"
  unfolding only_log_def by (rule exI [of _ "tx_log c"]) simp

lemma only_log_tx [simp]: "only_log c (snd (tx_func fr c))"
  by (auto simp: only_log_def tx_func_def)

lemma only_log_wf: "only_log c d \<Longrightarrow> can_wf d = can_wf c"
  by (auto simp: only_log_def)

lemma cob_heartbeat [simp]: "cob_id (heartbeat_frame n b) = 0x700 + ucast n"
  by (simp add: heartbeat_frame_def)

lemma nmt_process_log:
  "only_log (snd s) (snd (canopen_nmt_process d s))"
  "sends {0x700 + ucast (nmt_node_id (fst s))} (snd s) (snd (canopen_nmt_process d s))"
  by (cases s; auto simp: canopen_nmt_process_def intro: sends_refl sends_one)+

lemma nmt_effect_log:
  "only_log (snd s) (snd (nmt_effect k s))"
  "sends {0x700 + ucast (nmt_node_id (fst s))} (snd s) (snd (nmt_effect k s))"
  by (cases k; auto simp: nmt_effect_def Let_def intro: sends_refl sends_one)+

end
