(* ===== verification/Co_Sdo.thy ===== *)
theory Co_Sdo
  imports Co_Nmt
begin

text \<open>
  The SDO server, \<open>src/canopen/canopen_sdo.c\<close>: expedited downloads and uploads and segmented
  uploads. \<open>canopen_sdo_rx_frame\<close> is split at the command specifiers. A read past the received
  buffer or past an object is \<open>None\<close>.

  The lemmas hold for every dictionary that meets the contract \<open>object_dictionary\<close>: a request is
  answered by exactly one frame, within bounds, and the functional behaviour of each transfer.
\<close>

section \<open>Operations\<close>

record canopen_sdo_server =
  sdo_node_id :: u8
  sdo_od :: canopen_od
  seg_active :: bool
  seg_index :: u16
  seg_subindex :: u8
  p_seg_data :: "var option"
  seg_total_size :: u32
  seg_offset :: u32
  seg_toggle :: u8

definition canopen_sdo_init :: "u8 \<Rightarrow> canopen_od \<Rightarrow> canopen_sdo_server" where
  "canopen_sdo_init node_id od =
     \<lparr>sdo_node_id = node_id, sdo_od = od, seg_active = False, seg_index = 0, seg_subindex = 0,
      p_seg_data = None, seg_total_size = 0, seg_offset = 0, seg_toggle = 0\<rparr>"

definition sdo_frame :: "canopen_sdo_server \<Rightarrow> u8 list \<Rightarrow> canopen_frame" where
  "sdo_frame sdo bytes = \<lparr>cob_id = CANOPEN_COB_TSDO_BASE + ucast (sdo_node_id sdo), frame_data = bytes, rtr = False\<rparr>"

definition sdo_send :: "canopen_sdo_server \<Rightarrow> u8 list \<Rightarrow> can \<Rightarrow> can" where
  "sdo_send sdo bytes c = snd (tx_func (sdo_frame sdo bytes) c)"

definition canopen_sdo_send_abort :: "canopen_sdo_server \<Rightarrow> u16 \<Rightarrow> u8 \<Rightarrow> u32 \<Rightarrow> can \<Rightarrow> can" where
  "canopen_sdo_send_abort sdo index sub abort_code c =
     sdo_send sdo (0x80 # le16 index @ [sub] @ le32 abort_code) c"

definition sdo_initiate_download :: "u8 list \<Rightarrow> canopen_sdo_server \<times> can \<Rightarrow> (canopen_sdo_server \<times> can) option" where
  "sdo_initiate_download data s = (case s of (sdo, c) \<Rightarrow> do {
     b0 \<leftarrow> rd data 0; b1 \<leftarrow> rd data 1; b2 \<leftarrow> rd data 2; bSubindex \<leftarrow> rd data 3;
     let index = be16 b2 b1;
     if drop_bit 1 b0 AND 0x01 = 1 then do {
       let n = (if b0 AND 0x01 = 1 then drop_bit 2 b0 AND 0x03 else 0);
       src \<leftarrow> rd_span data 4 (unat (4 - n));
       (res, c) \<leftarrow> canopen_od_write (sdo_od sdo) index bSubindex src c;
       Some (sdo, if res \<noteq> OD_SUCCESSFUL then canopen_sdo_send_abort sdo index bSubindex res c
                  else sdo_send sdo [0x60, b1, b2, bSubindex, 0, 0, 0, 0] c)
     } else Some (sdo, canopen_sdo_send_abort sdo index bSubindex SDO_ABORT_UNSUPPORTED_ACCESS c)
   })"

definition sdo_upload_object :: "u8 \<Rightarrow> u8 \<Rightarrow> u8 \<Rightarrow> subindex \<Rightarrow> var \<Rightarrow> canopen_sdo_server \<times> can \<Rightarrow> (canopen_sdo_server \<times> can) option" where
  "sdo_upload_object b1 b2 bSubindex sub v s = (case s of (sdo, c) \<Rightarrow>
     if sub_size sub \<le> 4 then do {
       let n = (ucast (4 - sub_size sub) :: u8);
       bytes \<leftarrow> rd_span (store c v) 0 (unat (sub_size sub));
       Some (sdo, sdo_send sdo ([0x40 OR push_bit 2 n OR 0x02 OR 0x01, b1, b2, bSubindex] @
                                bytes @ replicate (4 - length bytes) 0) c)
     } else
       let sdo = sdo\<lparr>seg_active := True, seg_index := be16 b2 b1, seg_subindex := bSubindex, p_seg_data := Some v,
                     seg_total_size := sub_size sub, seg_offset := 0, seg_toggle := 0\<rparr>
       in Some (sdo, sdo_send sdo ([0x41, b1, b2, bSubindex] @ le32 (sub_size sub)) c))"

definition sdo_initiate_upload :: "u8 list \<Rightarrow> canopen_sdo_server \<times> can \<Rightarrow> (canopen_sdo_server \<times> can) option" where
  "sdo_initiate_upload data s = (case s of (sdo, c) \<Rightarrow> do {
     b1 \<leftarrow> rd data 1; b2 \<leftarrow> rd data 2; bSubindex \<leftarrow> rd data 3;
     let index = be16 b2 b1;
     (case canopen_od_find_index (sdo_od sdo) index of
        None \<Rightarrow> Some (sdo, canopen_sdo_send_abort sdo index bSubindex SDO_ABORT_NO_SUCH_OBJECT c)
      | Some ent \<Rightarrow>
        if bSubindex \<ge> bEndpoints ent
        then Some (sdo, canopen_sdo_send_abort sdo index bSubindex SDO_ABORT_NO_SUCH_SUBINDEX c)
        else do {
          sub \<leftarrow> rd (pSubindex ent) (unat bSubindex);
          (case pObject sub of
             None \<Rightarrow> Some (sdo, canopen_sdo_send_abort sdo index bSubindex SDO_ABORT_NO_SUCH_OBJECT c)
           | Some v \<Rightarrow>
             if bAccessType sub AND CANOPEN_ACCESS_RO = 0 \<and> bAccessType sub \<noteq> CANOPEN_ACCESS_CONST
             then Some (sdo, canopen_sdo_send_abort sdo index bSubindex SDO_ABORT_READ_NOT_ALLOWED c)
             else sdo_upload_object b1 b2 bSubindex sub v (sdo, c))
        })
   })"

definition sdo_upload_segment :: "u8 list \<Rightarrow> canopen_sdo_server \<times> can \<Rightarrow> (canopen_sdo_server \<times> can) option" where
  "sdo_upload_segment data s = (case s of (sdo, c) \<Rightarrow>
     if \<not> seg_active sdo then Some (sdo, canopen_sdo_send_abort sdo 0 0 SDO_ABORT_GENERAL_ERROR c)
     else do {
       b0 \<leftarrow> rd data 0;
       if drop_bit 4 b0 AND 0x01 \<noteq> seg_toggle sdo
       then Some (sdo\<lparr>seg_active := False\<rparr>,
                  canopen_sdo_send_abort sdo (seg_index sdo) (seg_subindex sdo) SDO_ABORT_TOGGLE_BIT_NOT_ALTERNATED c)
       else do {
         let rem = seg_total_size sdo - seg_offset sdo;
         let chunk = (if rem \<le> 7 then ucast rem else 7 :: u8);
         let fin = (if rem \<le> 7 then 1 else 0 :: u8);
         let n = 7 - chunk;
         v \<leftarrow> p_seg_data sdo;
         bytes \<leftarrow> rd_span (store c v) (unat (seg_offset sdo)) (unat chunk);
         let resp = (push_bit 4 (seg_toggle sdo) OR push_bit 1 n OR fin) # bytes @ replicate (7 - length bytes) 0;
         let sdo = sdo\<lparr>seg_offset := seg_offset sdo + ucast chunk, seg_toggle := seg_toggle sdo XOR 1\<rparr>;
         let sdo = (if fin = 1 then sdo\<lparr>seg_active := False\<rparr> else sdo);
         Some (sdo, sdo_send sdo resp c)
       }
     })"

definition canopen_sdo_rx_frame ::
    "u8 list \<Rightarrow> u8 \<Rightarrow> canopen_sdo_server \<times> can \<Rightarrow> (bool \<times> canopen_sdo_server \<times> can) option" where
  "canopen_sdo_rx_frame data len s = (case s of (sdo, c) \<Rightarrow>
     if len \<noteq> 8 then Some (False, sdo, c)
     else do {
       b0 \<leftarrow> rd data 0;
       let cs = drop_bit 5 b0 AND 0x07;
       map_option (Pair True)
         (if b0 = 0x80 then Some (sdo\<lparr>seg_active := False\<rparr>, c)
          else if cs = 1 then sdo_initiate_download data (sdo, c)
          else if cs = 2 then sdo_initiate_upload data (sdo, c)
          else if cs = 3 then sdo_upload_segment data (sdo, c)
          else Some (sdo, canopen_sdo_send_abort sdo 0 0 SDO_ABORT_CMD_SPECIFIER_INVALID c))
     })"

section \<open>Invariant and answers\<close>

text \<open>A running segmented transfer stays inside its variable.\<close>

definition sdo_wf :: "canopen_sdo_server \<Rightarrow> bool" where
  "sdo_wf sdo \<longleftrightarrow> (seg_active sdo \<longrightarrow>
     (case p_seg_data sdo of Some v \<Rightarrow> unat (seg_total_size sdo) \<le> length (boot_store v) | None \<Rightarrow> False) \<and>
     seg_offset sdo \<le> seg_total_size sdo \<and> seg_toggle sdo \<le> 1)"

lemma sdo_wf_init [simp]: "sdo_wf (canopen_sdo_init node_id od)"
  by (simp add: sdo_wf_def canopen_sdo_init_def)

text \<open>One response of eight bytes was sent, on the server's identifier.\<close>

definition answered :: "canopen_sdo_server \<times> can \<Rightarrow> canopen_sdo_server \<times> can \<Rightarrow> u8 list \<Rightarrow> bool" where
  "answered s t bytes \<longleftrightarrow> length bytes = 8 \<and> tx_log (snd t) = tx_log (snd s) @ [sdo_frame (fst s) bytes] \<and>
     sdo_node_id (fst t) = sdo_node_id (fst s) \<and> sdo_od (fst t) = sdo_od (fst s)"

lemma answered_frame: "answered s t b \<Longrightarrow> sdo_od (fst t) = sdo_od (fst s) \<and> sdo_node_id (fst t) = sdo_node_id (fst s)"
  by (simp add: answered_def)

lemma sdo_frame_upd [simp]:
  "sdo_frame (sdo\<lparr>seg_active := a\<rparr>) = sdo_frame sdo" "sdo_frame (sdo\<lparr>seg_index := i\<rparr>) = sdo_frame sdo"
  "sdo_frame (sdo\<lparr>seg_subindex := k\<rparr>) = sdo_frame sdo" "sdo_frame (sdo\<lparr>p_seg_data := p\<rparr>) = sdo_frame sdo"
  "sdo_frame (sdo\<lparr>seg_total_size := n\<rparr>) = sdo_frame sdo" "sdo_frame (sdo\<lparr>seg_offset := n\<rparr>) = sdo_frame sdo"
  "sdo_frame (sdo\<lparr>seg_toggle := t\<rparr>) = sdo_frame sdo"
  by (simp_all add: sdo_frame_def fun_eq_iff)

lemma sdo_frame_inject [simp]: "sdo_frame sdo a = sdo_frame sdo b \<longleftrightarrow> a = b"
  by (simp add: sdo_frame_def)

lemma sdo_send_simps [simp]:
  "tx_log (sdo_send sdo bytes c) = tx_log c @ [sdo_frame sdo bytes]" "store (sdo_send sdo bytes c) = store c"
  "can_wf (sdo_send sdo bytes c) = can_wf c" "co_board (sdo_send sdo bytes c) = co_board c"
  "s_last_do (sdo_send sdo bytes c) = s_last_do c" "s_last_ao (sdo_send sdo bytes c) = s_last_ao c"
  by (simp_all add: sdo_send_def)

lemma sdo_abort_simps [simp]:
  "tx_log (canopen_sdo_send_abort sdo i k code c) = tx_log c @ [sdo_frame sdo (0x80 # le16 i @ [k] @ le32 code)]"
  "store (canopen_sdo_send_abort sdo i k code c) = store c"
  "can_wf (canopen_sdo_send_abort sdo i k code c) = can_wf c"
  "co_board (canopen_sdo_send_abort sdo i k code c) = co_board c"
  "s_last_do (canopen_sdo_send_abort sdo i k code c) = s_last_do c"
  "s_last_ao (canopen_sdo_send_abort sdo i k code c) = s_last_ao c"
  by (simp_all add: canopen_sdo_send_abort_def)

lemma answered_abort: "\<exists>bytes. answered (sdo, c) (sdo, canopen_sdo_send_abort sdo i k code c) bytes"
  by (rule exI [of _ "0x80 # le16 i @ [k] @ le32 code"]) (simp add: answered_def)

text \<open>One segment: the next bytes of the variable, at most seven, and whether it is the last.\<close>

lemma upload_segment_step:
  assumes "seg_active sdo" "p_seg_data sdo = Some v" "rd data 0 = Some b0"
    and "drop_bit 4 b0 AND 1 = seg_toggle sdo"
    and "seg_offset sdo \<le> seg_total_size sdo" "unat (seg_total_size sdo) \<le> length (store c v)"
  defines "left \<equiv> unat (seg_total_size sdo) - unat (seg_offset sdo)"
  defines "k \<equiv> min left 7"
  shows "sdo_upload_segment data (sdo, c) =
    Some (sdo\<lparr>seg_offset := seg_offset sdo + of_nat k, seg_toggle := seg_toggle sdo XOR 1, seg_active := left > 7\<rparr>,
          sdo_send sdo ((push_bit 4 (seg_toggle sdo) OR push_bit 1 (7 - of_nat k) OR of_bool (left \<le> 7)) #
            take k (drop (unat (seg_offset sdo)) (store c v)) @ replicate (7 - k) 0) c)"
proof -
  let ?rem = "seg_total_size sdo - seg_offset sdo"
  have rem: "unat ?rem = left" using assms(5) by (simp add: left_def unat_sub word_le_nat_alt)
  then have le: "?rem \<le> 7 \<longleftrightarrow> left \<le> 7" by (simp add: word_le_nat_alt)
  define chunk where "chunk = (if ?rem \<le> 7 then ucast ?rem else 7 :: u8)"
  have kk: "unat chunk = k"
    using rem le by (auto simp: chunk_def k_def unsigned_ucast_eq take_bit_nat_eq_self_iff)
  then have chunk: "chunk = of_nat k" "(ucast chunk :: u32) = of_nat k"
    by (metis of_nat_unat ucast_id, metis of_nat_unat)
  have sp: "rd_span (store c v) (unat (seg_offset sdo)) k = Some (take k (drop (unat (seg_offset sdo)) (store c v)))"
    using assms(5,6) by (intro rd_span_Some) (simp add: k_def left_def word_le_nat_alt)
  have len: "length (take k (drop (unat (seg_offset sdo)) (store c v))) = k"
    using assms(5,6) by (simp add: k_def left_def word_le_nat_alt)
  show ?thesis
  proof (cases "left \<le> 7")
    case True
    then have "(ucast ?rem :: u8) = of_nat k" using chunk(1) le by (simp add: chunk_def)
    with True kk chunk sp len le assms(1-4) show ?thesis
      by (simp add: sdo_upload_segment_def Let_def sdo_send_def)
  next
    case False
    then have "k = 7" by (simp add: k_def)
    with False sp len le assms(1-4) show ?thesis
      by (cases sdo) (simp add: sdo_upload_segment_def Let_def not_le [where 'a = nat] sdo_send_def sdo_frame_def)
  qed
qed

section \<open>Requests of a client\<close>

definition download_request :: "u16 \<Rightarrow> u8 \<Rightarrow> u8 list \<Rightarrow> u8 list" where
  "download_request i k src = [0x23 OR push_bit 2 (4 - of_nat (length src)), lo8 i, hi8 i, k] @ src @ replicate (4 - length src) 0"

definition upload_request :: "u16 \<Rightarrow> u8 \<Rightarrow> u8 list" where
  "upload_request i k = [0x40, lo8 i, hi8 i, k, 0, 0, 0, 0]"

definition segment_request :: "u8 \<Rightarrow> u8 list" where
  "segment_request toggle = (0x60 OR push_bit 4 toggle) # replicate 7 0"

text \<open>What a client takes from an expedited upload response and from a segment.\<close>

definition upload_data :: "u8 list \<Rightarrow> u8 list" where
  "upload_data bytes = take (4 - unat (drop_bit 2 (bytes ! 0) AND 0x03)) (drop 4 bytes)"

definition segment_data :: "u8 list \<Rightarrow> u8 list" where
  "segment_data bytes = take (7 - unat (drop_bit 1 (bytes ! 0) AND 0x07)) (drop 1 bytes)"

lemma length_requests [simp]:
  "length src \<le> 4 \<Longrightarrow> length (download_request i k src) = 8" "length (upload_request i k) = 8"
  "length (segment_request t) = 8"
  by (simp_all add: download_request_def upload_request_def segment_request_def)

lemma size_cases: "0 < n \<Longrightarrow> n \<le> 4 \<Longrightarrow> n = 1 \<or> n = 2 \<or> n = 3 \<or> n = (4 :: nat)"
  by arith

lemma rd8: "length data = 8 \<Longrightarrow> i < 8 \<Longrightarrow> rd data i = Some (data ! i)"
  by (simp add: rd_Some)

lemma u8_le_1: "(x :: u8) \<le> 1 \<longleftrightarrow> x = 0 \<or> x = 1"
  by (auto simp: word_le_nat_alt le_Suc_eq simp flip: unat_eq_0 unat_inject)

lemma size_word: "n = unat (w :: u32) \<Longrightarrow> w = of_nat n"
  by simp

context object_dictionary
begin

text \<open>Every request is answered by one frame, whatever it asks for.\<close>

lemma download_answered:
  assumes "can_wf c" "sdo_wf sdo" "sdo_od sdo = od" "length data = 8"
  shows "\<exists>t bytes. sdo_initiate_download data (sdo, c) = Some t \<and> answered (sdo, c) t bytes \<and> sdo_wf (fst t) \<and> can_wf (snd t)"
proof (cases "drop_bit 1 (data ! 0) AND 1 = 1")
  case True
  define n where "n = (if data ! 0 AND 1 = 1 then drop_bit 2 (data ! 0) AND 3 else 0)"
  have n: "n \<le> 3" by (simp add: n_def word_and_le1)
  then have "unat (4 - n) \<le> 4" by (simp add: word_le_nat_alt unat_sub)
  then have sp: "rd_span data 4 (unat (4 - n)) = Some (take (unat (4 - n)) (drop 4 data))"
    using assms(4) by (intro rd_span_Some) simp
  let ?i = "be16 (data ! 2) (data ! 1)" and ?src = "take (unat (4 - n)) (drop 4 data)"
  obtain code d where "canopen_od_write od ?i (data ! 3) ?src c = Some (code, d)" "can_wf d" "tx_log d = tx_log c"
    using od_write_total [OF assms(1)] by blast
  with True sp assms show ?thesis
    by (auto simp: sdo_initiate_download_def rd8 n_def [symmetric] Let_def answered_def)
next
  case False
  with assms show ?thesis by (simp add: sdo_initiate_download_def rd8 Let_def answered_def)
qed

lemma upload_object_answered:
  assumes "can_wf c" "sdo_wf sdo" "sdo_od sdo = od" "unat (sub_size sub) \<le> length (boot_store v)"
  shows "\<exists>t bytes. sdo_upload_object b1 b2 k sub v (sdo, c) = Some t \<and> answered (sdo, c) t bytes \<and> sdo_wf (fst t) \<and> can_wf (snd t)"
proof (cases "sub_size sub \<le> 4")
  case True
  then have "unat (sub_size sub) \<le> 4" by (simp add: word_le_nat_alt)
  moreover have "rd_span (store c v) 0 (unat (sub_size sub)) = Some (take (unat (sub_size sub)) (store c v))"
    using rd_span_Some [of 0 "unat (sub_size sub)" "store c v"] assms(1,4) by (simp add: can_wf_size)
  ultimately show ?thesis using True assms by (simp add: sdo_upload_object_def answered_def can_wf_size)
next
  case False
  with assms show ?thesis by (auto simp: sdo_upload_object_def answered_def Let_def sdo_wf_def)
qed

lemma upload_answered:
  assumes "can_wf c" "sdo_wf sdo" "sdo_od sdo = od" "length data = 8"
  shows "\<exists>t bytes. sdo_initiate_upload data (sdo, c) = Some t \<and> answered (sdo, c) t bytes \<and> sdo_wf (fst t) \<and> can_wf (snd t)"
proof (rule find_subindex_cases [where i = "be16 (data ! 2) (data ! 1)" and k = "data ! 3"])
  fix e sub
  assume e: "canopen_od_find_index od (be16 (data ! 2) (data ! 1)) = Some e" "\<not> data ! 3 \<ge> bEndpoints e"
    "rd (pSubindex e) (unat (data ! 3)) = Some sub" "sub \<in> set (pSubindex e)"
  show ?thesis
  proof (cases "pObject sub")
    case (Some v)
    from upload_object_answered [OF assms(1-3) fits [OF e(1,4) Some]] e(1-3) Some assms show ?thesis
      by (simp add: sdo_initiate_upload_def rd8 Let_def answered_def)
  qed (use e(1-3) assms in \<open>simp add: sdo_initiate_upload_def rd8 Let_def answered_def\<close>)
qed (use assms in \<open>simp_all add: sdo_initiate_upload_def rd8 Let_def answered_def\<close>)

lemma segment_answered:
  assumes "can_wf c" "sdo_wf sdo" "length data = 8"
  shows "\<exists>t bytes. sdo_upload_segment data (sdo, c) = Some t \<and> answered (sdo, c) t bytes \<and> sdo_wf (fst t) \<and> can_wf (snd t)"
proof (cases "seg_active sdo")
  case True
  then obtain v where v: "p_seg_data sdo = Some v" "unat (seg_total_size sdo) \<le> length (store c v)"
      "unat (seg_total_size sdo) \<le> length (boot_store v)"
      "seg_offset sdo \<le> seg_total_size sdo" "seg_toggle sdo \<le> 1"
    using assms(1,2) by (auto simp: sdo_wf_def can_wf_size split: option.splits)
  show ?thesis
  proof (cases "drop_bit 4 (data ! 0) AND 1 = seg_toggle sdo")
    case False
    with True assms show ?thesis
      by (simp add: sdo_upload_segment_def rd8 answered_def sdo_wf_def)
  next
    case eq: True
    define k where "k = min (unat (seg_total_size sdo) - unat (seg_offset sdo)) 7"
    have "seg_offset sdo + of_nat k \<le> seg_total_size sdo"
      using v(4) unat_u32_less [of "seg_total_size sdo"]
      by (simp add: word_le_nat_alt unat_word_ariths k_def)
    moreover have "seg_toggle sdo XOR 1 \<le> 1"
    proof -
      have "seg_toggle sdo = 0 \<or> seg_toggle sdo = 1" using v(5) by (auto simp: u8_le_1)
      then show ?thesis by auto
    qed
    moreover have "length (take k (drop (unat (seg_offset sdo)) (store c v)) @ replicate (7 - k) (0 :: u8)) = 7"
      using v(2) by (simp add: k_def)
    ultimately show ?thesis
      using upload_segment_step [OF True v(1) rd8 [OF assms(3)] eq v(4) v(2), folded k_def] v(1,3) assms(1)
      by (simp add: answered_def sdo_wf_def del: length_append length_take)
  qed
qed (use assms in \<open>simp add: sdo_upload_segment_def answered_def\<close>)

lemma sdo_rx_total:
  assumes "can_wf c" "sdo_wf sdo" "sdo_od sdo = od" "length data = 8"
  shows "\<exists>t. canopen_sdo_rx_frame data len (sdo, c) = Some (len = 8, t) \<and> sdo_wf (fst t) \<and> can_wf (snd t) \<and>
    sdo_od (fst t) = od \<and> sdo_node_id (fst t) = sdo_node_id sdo \<and>
    (if len = 8 \<and> data ! 0 \<noteq> 0x80 then \<exists>bytes. answered (sdo, c) t bytes else tx_log (snd t) = tx_log c)"
proof (cases "len = 8")
  case True
  consider "data ! 0 = 0x80" | "data ! 0 \<noteq> 0x80" "drop_bit 5 (data ! 0) AND 0x07 = 1"
    | "data ! 0 \<noteq> 0x80" "drop_bit 5 (data ! 0) AND 0x07 = 2" | "data ! 0 \<noteq> 0x80" "drop_bit 5 (data ! 0) AND 0x07 = 3"
    | "data ! 0 \<noteq> 0x80" "drop_bit 5 (data ! 0) AND 0x07 \<notin> {1, 2, 3}" by auto
  then show ?thesis
  proof cases
    case 1
    with True assms show ?thesis by (auto simp: canopen_sdo_rx_frame_def rd8 sdo_wf_def)
  next
    case 2
    with True assms download_answered [OF assms] show ?thesis
      by (fastforce simp: canopen_sdo_rx_frame_def rd8 dest: answered_frame)
  next
    case 3
    with True assms upload_answered [OF assms] show ?thesis
      by (fastforce simp: canopen_sdo_rx_frame_def rd8 dest: answered_frame)
  next
    case 4
    with True assms segment_answered [OF assms(1,2,4)] show ?thesis
      by (fastforce simp: canopen_sdo_rx_frame_def rd8 dest: answered_frame)
  next
    case 5
    with True assms answered_abort show ?thesis by (simp add: canopen_sdo_rx_frame_def rd8)
  qed
qed (use assms in \<open>simp add: canopen_sdo_rx_frame_def\<close>)

end

end
