(* ===== verification/Co_Sdo_Props.thy ===== *)
theory Co_Sdo_Props
  imports Co_Sdo
begin

text \<open>
  The SDO transfers as a client sees them: what an expedited download stores, what an expedited
  upload returns, and that a segmented upload delivers the whole object, segment by segment.
\<close>

section \<open>Encoding and decoding of the command bytes\<close>

lemma download_command:
  assumes "0 < n" "n \<le> 4"
  defines "b \<equiv> 0x23 OR push_bit 2 (4 - of_nat n) :: u8"
  shows "b \<noteq> 0x80" "drop_bit 5 b AND 7 = 1" "drop_bit 1 b AND 1 = 1" "b AND 1 = 1" "unat (4 - (drop_bit 2 b AND 3)) = n"
  using size_cases [OF assms(1,2)] by (auto simp: b_def)

lemma u32_size_cases:
  assumes "0 < w" "w \<le> (4 :: u32)"
  shows "w = 1 \<or> w = 2 \<or> w = 3 \<or> w = 4"
proof -
  have "0 < unat w" "unat w \<le> 4" using assms by (simp_all add: word_less_nat_alt word_le_nat_alt)
  then have "unat w = 1 \<or> unat w = 2 \<or> unat w = 3 \<or> unat w = 4" by arith
  then show ?thesis unfolding word_unat_eq_iff by simp
qed

lemma upload_command:
  assumes "0 < w" "w \<le> (4 :: u32)"
  shows "unat (drop_bit 2 (0x40 OR push_bit 2 (ucast (4 - w)) OR 0x02 OR 0x01 :: u8) AND 3) = 4 - unat w"
  using u32_size_cases [OF assms] by auto

lemma segment_command:
  fixes l :: bool
  assumes "0 < k" "k \<le> 7" "t \<le> 1"
  defines "b \<equiv> push_bit 4 t OR push_bit 1 (7 - of_nat k) OR of_bool l :: u8"
  shows "drop_bit 1 b AND 7 = 7 - of_nat k" "b AND 1 = of_bool l"
proof -
  have "k = 1 \<or> k = 2 \<or> k = 3 \<or> k = 4 \<or> k = 5 \<or> k = 6 \<or> k = 7" using assms(1,2) by arith
  with assms(3) show "drop_bit 1 b AND 7 = 7 - of_nat k" "b AND 1 = of_bool l"
    by (cases l; auto simp: b_def u8_le_1)+
qed

lemma segment_data_bytes:
  assumes "0 < length bs" "length bs \<le> 7" "t \<le> 1"
  shows "segment_data ((push_bit 4 t OR push_bit 1 (7 - of_nat (length bs)) OR of_bool l) # bs @ replicate (7 - length bs) 0) = bs"
proof -
  have "unat (7 - of_nat (length bs) :: u8) = 7 - length bs"
    using assms(2) by (simp add: unat_sub word_le_nat_alt)
  with segment_command(1) [OF assms, of l] assms(2) show ?thesis by (simp add: segment_data_def)
qed

lemma segment_request_simps:
  assumes "t \<le> 1"
  shows "segment_request t ! 0 \<noteq> 0x80" "drop_bit 5 (segment_request t ! 0) AND 7 = 3"
    "drop_bit 4 (segment_request t ! 0) AND 1 = t"
  using assms by (auto simp: segment_request_def u8_le_1)

lemma readable_sdo:
  assumes "readable sub"
  shows "bAccessType sub AND 0x05 \<noteq> 0"
proof
  assume 0: "bAccessType sub AND 0x05 = 0"
  have "bAccessType sub AND 0x04 = (bAccessType sub AND 0x05) AND 0x04" by (simp add: ac_simps)
  with 0 assms show False by (auto simp: readable_def)
qed

text \<open>The client's requests of a transfer, and the server run over a list of requests.\<close>

fun segment_requests :: "nat \<Rightarrow> u8 \<Rightarrow> u8 list list" where
  "segment_requests 0 t = []"
| "segment_requests (Suc m) t = segment_request t # segment_requests m (t XOR 1)"

fun serve :: "u8 list list \<Rightarrow> canopen_sdo_server \<times> can \<Rightarrow> (canopen_sdo_server \<times> can) option" where
  "serve [] s = Some s"
| "serve (r # rs) s = do { (_, s) \<leftarrow> canopen_sdo_rx_frame r 8 s; serve rs s }"

lemma upload_request_rx:
  "canopen_sdo_rx_frame (upload_request i k) 8 s = map_option (Pair True) (sdo_initiate_upload (upload_request i k) s)"
  by (simp add: canopen_sdo_rx_frame_def upload_request_def split: prod.split)

lemma segment_request_rx:
  assumes "t \<le> 1"
  shows "canopen_sdo_rx_frame (segment_request t) 8 s = map_option (Pair True) (sdo_upload_segment (segment_request t) s)"
  using segment_request_simps [OF assms]
  by (simp add: canopen_sdo_rx_frame_def rd8 split: prod.split)

section \<open>Segments\<close>

lemma segment_served:
  assumes "seg_active sdo" "p_seg_data sdo = Some v" "seg_toggle sdo \<le> 1"
    and "seg_offset sdo < seg_total_size sdo" "unat (seg_total_size sdo) \<le> length (store c v)"
  defines "left \<equiv> unat (seg_total_size sdo) - unat (seg_offset sdo)"
  defines "k \<equiv> min left 7"
  obtains r where "canopen_sdo_rx_frame (segment_request (seg_toggle sdo)) 8 (sdo, c) =
      Some (True, sdo\<lparr>seg_offset := seg_offset sdo + of_nat k, seg_toggle := seg_toggle sdo XOR 1, seg_active := left > 7\<rparr>,
            sdo_send sdo r c)"
    "segment_data r = take k (drop (unat (seg_offset sdo)) (store c v))" "r ! 0 AND 1 = of_bool (left \<le> 7)"
proof -
  let ?bs = "take k (drop (unat (seg_offset sdo)) (store c v))"
  let ?r = "(push_bit 4 (seg_toggle sdo) OR push_bit 1 (7 - of_nat k) OR of_bool (left \<le> 7)) # ?bs @ replicate (7 - k) 0"
  have k: "0 < k" "k \<le> 7" using assms(4) by (simp_all add: k_def left_def word_less_nat_alt)
  have len: "length ?bs = k" using assms(5) by (simp add: k_def left_def)
  have le: "seg_offset sdo \<le> seg_total_size sdo" using assms(4) by simp
  have "canopen_sdo_rx_frame (segment_request (seg_toggle sdo)) 8 (sdo, c) =
      Some (True, sdo\<lparr>seg_offset := seg_offset sdo + of_nat k, seg_toggle := seg_toggle sdo XOR 1, seg_active := left > 7\<rparr>,
            sdo_send sdo ?r c)"
    using upload_segment_step [OF assms(1,2) rd8 segment_request_simps(3) [OF assms(3)] le assms(5)]
    by (simp add: segment_request_rx [OF assms(3)] k_def left_def)
  moreover have "segment_data ?r = ?bs"
    using segment_data_bytes [of ?bs "seg_toggle sdo" "left \<le> 7"] k len assms(3) by simp
  moreover have "?r ! 0 AND 1 = of_bool (left \<le> 7)"
    using segment_command(2) [OF k assms(3), of "left \<le> 7"] by simp
  ultimately show thesis by (rule that)
qed

lemma segments_deliver:
  assumes "seg_active sdo" "p_seg_data sdo = Some v" "seg_toggle sdo \<le> 1"
    and "seg_offset sdo < seg_total_size sdo" "unat (seg_total_size sdo) \<le> length (store c v)"
    and "7 * m < unat (seg_total_size sdo) - unat (seg_offset sdo)"
    and "unat (seg_total_size sdo) - unat (seg_offset sdo) \<le> 7 * Suc m"
  shows "\<exists>sdo' c' resps. serve (segment_requests (Suc m) (seg_toggle sdo)) (sdo, c) = Some (sdo', c') \<and>
    tx_log c' = tx_log c @ map (sdo_frame sdo) resps \<and>
    concat (map segment_data resps) =
      take (unat (seg_total_size sdo) - unat (seg_offset sdo)) (drop (unat (seg_offset sdo)) (store c v)) \<and>
    map (\<lambda>r. r ! 0 AND 1) resps = replicate m 0 @ [1] \<and> \<not> seg_active sdo' \<and> store c' = store c"
  using assms
proof (induction m arbitrary: sdo c)
  case (0 sdo c)
  obtain r where r: "canopen_sdo_rx_frame (segment_request (seg_toggle sdo)) 8 (sdo, c) =
      Some (True, sdo\<lparr>seg_offset := seg_offset sdo + of_nat (min (unat (seg_total_size sdo) - unat (seg_offset sdo)) 7),
                      seg_toggle := seg_toggle sdo XOR 1, seg_active := unat (seg_total_size sdo) - unat (seg_offset sdo) > 7\<rparr>,
            sdo_send sdo r c)"
    "segment_data r = take (min (unat (seg_total_size sdo) - unat (seg_offset sdo)) 7) (drop (unat (seg_offset sdo)) (store c v))"
    "r ! 0 AND 1 = of_bool (unat (seg_total_size sdo) - unat (seg_offset sdo) \<le> 7)"
    using segment_served [OF "0.prems"(1-5)] by blast
  then show ?case using "0.prems"(7)
    by (intro exI [of _ "sdo\<lparr>seg_offset := seg_offset sdo + of_nat (unat (seg_total_size sdo) - unat (seg_offset sdo)),
                      seg_toggle := seg_toggle sdo XOR 1, seg_active := False\<rparr>"] exI [of _ "sdo_send sdo r c"] exI [of _ "[r]"])
      (simp add: min_absorb1)
next
  case (Suc m sdo c)
  define left where "left = unat (seg_total_size sdo) - unat (seg_offset sdo)"
  have l: "7 < left" using Suc.prems(6) by (simp add: left_def)
  obtain r where r: "canopen_sdo_rx_frame (segment_request (seg_toggle sdo)) 8 (sdo, c) =
      Some (True, sdo\<lparr>seg_offset := seg_offset sdo + 7, seg_toggle := seg_toggle sdo XOR 1, seg_active := True\<rparr>, sdo_send sdo r c)"
    "segment_data r = take 7 (drop (unat (seg_offset sdo)) (store c v))" "r ! 0 AND 1 = 0"
    by (rule segment_served [OF Suc.prems(1-5), folded left_def]) (use l in simp)
  let ?sdo = "sdo\<lparr>seg_offset := seg_offset sdo + 7, seg_toggle := seg_toggle sdo XOR 1, seg_active := True\<rparr>"
  have off: "unat (seg_offset sdo + 7) = unat (seg_offset sdo) + 7"
    using l unat_u32_less [of "seg_total_size sdo"] by (simp add: left_def unat_word_ariths)
  have "\<exists>sdo' c' resps. serve (segment_requests (Suc m) (seg_toggle ?sdo)) (?sdo, sdo_send sdo r c) = Some (sdo', c') \<and>
    tx_log c' = tx_log (sdo_send sdo r c) @ map (sdo_frame ?sdo) resps \<and>
    concat (map segment_data resps) =
      take (unat (seg_total_size ?sdo) - unat (seg_offset ?sdo)) (drop (unat (seg_offset ?sdo)) (store (sdo_send sdo r c) v)) \<and>
    map (\<lambda>r. r ! 0 AND 1) resps = replicate m 0 @ [1] \<and> \<not> seg_active sdo' \<and> store c' = store (sdo_send sdo r c)"
    by (rule Suc.IH) (use Suc.prems l off in \<open>auto simp: left_def word_less_nat_alt u8_le_1\<close>)
  then obtain sdo' c' resps where IH: "serve (segment_requests (Suc m) (seg_toggle sdo XOR 1)) (?sdo, sdo_send sdo r c) = Some (sdo', c')"
    "tx_log c' = tx_log c @ sdo_frame sdo r # map (sdo_frame sdo) resps"
    "concat (map segment_data resps) = take (left - 7) (drop (unat (seg_offset sdo) + 7) (store c v))"
    "map (\<lambda>r. r ! 0 AND 1) resps = replicate m 0 @ [1]" "\<not> seg_active sdo'" "store c' = store c"
    by (auto simp: off left_def)
  have "take left (drop (unat (seg_offset sdo)) (store c v)) =
      segment_data r @ take (left - 7) (drop (unat (seg_offset sdo) + 7) (store c v))"
    using l take_add [of 7 "left - 7" "drop (unat (seg_offset sdo)) (store c v)"] by (simp add: r(2) add.commute)
  with IH r(1,3) show ?case
    by (intro exI [of _ sdo'] exI [of _ c'] exI [of _ "r # resps"]) (simp add: left_def)
qed

section \<open>Transfers\<close>

context object_dictionary
begin

lemma sdo_download:
  assumes "can_wf c" "sdo_od sdo = od" "object i k sub v" "writable sub"
    and "length src = unat (sub_size sub)" "sub_size sub \<le> 4"
  shows "\<exists>d. canopen_sdo_rx_frame (download_request i k src) 8 (sdo, c) = Some (True, sdo, d) \<and> can_wf d \<and>
    tx_log d = tx_log c @ [sdo_frame sdo [0x60, lo8 i, hi8 i, k, 0, 0, 0, 0]] \<and>
    store d = (store c)(v := src @ drop (length src) (store c v))"
proof -
  obtain e where "0 < sub_size sub" using object_cases [OF assms(3)] by metis
  then have n: "0 < length src" "length src \<le> 4" using assms(5,6) by (simp_all add: word_less_nat_alt word_le_nat_alt)
  obtain d where d: "canopen_od_write od i k src c = Some (0, d)" "can_wf d" "tx_log d = tx_log c"
      "store d = (store c)(v := src @ drop (length src) (store c v))"
    using od_write_object [OF assms(1,3-5)] by blast
  have sp: "rd_span (download_request i k src) 4 (length src) = Some src"
    using n by (subst rd_span_Some) (simp_all add: download_request_def)
  show ?thesis
    using download_command [OF n] d sp assms(2)
    by (simp add: canopen_sdo_rx_frame_def sdo_initiate_download_def Let_def download_request_def)
qed

lemma sdo_upload:
  assumes "can_wf c" "sdo_od sdo = od" "object i k sub v" "readable sub" "sub_size sub \<le> 4"
  shows "\<exists>bytes. canopen_sdo_rx_frame (upload_request i k) 8 (sdo, c) = Some (True, sdo, sdo_send sdo bytes c) \<and>
    take 3 (drop 1 bytes) = [lo8 i, hi8 i, k] \<and> upload_data bytes = take (unat (sub_size sub)) (store c v)"
proof -
  obtain e where e: "canopen_od_find_index od i = Some e" "\<not> k \<ge> bEndpoints e" "rd (pSubindex e) (unat k) = Some sub"
    "0 < sub_size sub" "unat (sub_size sub) \<le> length (boot_store v)" using object_cases [OF assms(3)] by metis
  define bs where "bs = take (unat (sub_size sub)) (store c v)"
  have n: "0 < unat (sub_size sub)" "unat (sub_size sub) \<le> 4" using e(4) assms(5) by (simp_all add: word_less_nat_alt word_le_nat_alt)
  have len: "length bs = unat (sub_size sub)" using e(5) assms(1) by (simp add: bs_def can_wf_size)
  have sp: "rd_span (store c v) 0 (unat (sub_size sub)) = Some bs"
    using e(5) assms(1) by (subst rd_span_Some) (simp_all add: bs_def can_wf_size)
  from upload_command [OF e(4) assms(5)] n len
  have "upload_data ([0x40 OR push_bit 2 (ucast (4 - sub_size sub)) OR 0x02 OR 0x01, lo8 i, hi8 i, k] @ bs @ replicate (4 - length bs) 0) = bs"
    by (simp add: upload_data_def)
  with e(1-3) sp assms readable_sdo [OF assms(4)] show ?thesis
    unfolding upload_request_rx
    by (intro exI [of _ "[0x40 OR push_bit 2 (ucast (4 - sub_size sub)) OR 0x02 OR 0x01, lo8 i, hi8 i, k] @ bs @ replicate (4 - length bs) 0"])
      (simp add: sdo_initiate_upload_def upload_request_def Let_def sdo_upload_object_def object_def bs_def [symmetric])
qed

lemma sdo_segmented:
  assumes "can_wf c" "sdo_od sdo = od" "object i k sub v" "readable sub" "\<not> sub_size sub \<le> 4"
  shows "\<exists>sdo' c' resps. serve (upload_request i k # segment_requests ((unat (sub_size sub) + 6) div 7) 0) (sdo, c) = Some (sdo', c') \<and>
    tx_log c' = tx_log c @ sdo_frame sdo ([0x41, lo8 i, hi8 i, k] @ le32 (sub_size sub)) # map (sdo_frame sdo) resps \<and>
    concat (map segment_data resps) = take (unat (sub_size sub)) (store c v) \<and>
    map (\<lambda>r. r ! 0 AND 1) resps = replicate ((unat (sub_size sub) + 6) div 7 - 1) 0 @ [1] \<and>
    \<not> seg_active sdo' \<and> store c' = store c"
proof -
  obtain e where e: "canopen_od_find_index od i = Some e" "\<not> k \<ge> bEndpoints e" "rd (pSubindex e) (unat k) = Some sub"
    "unat (sub_size sub) \<le> length (boot_store v)" using object_cases [OF assms(3)] by metis
  define sdo1 where "sdo1 = sdo\<lparr>seg_active := True, seg_index := i, seg_subindex := k, p_seg_data := Some v,
                     seg_total_size := sub_size sub, seg_offset := 0, seg_toggle := 0\<rparr>"
  define c1 where "c1 = sdo_send sdo1 ([0x41, lo8 i, hi8 i, k] @ le32 (sub_size sub)) c"
  have n: "4 < unat (sub_size sub)" using assms(5) by (simp add: word_le_nat_alt)
  then obtain m where m: "(unat (sub_size sub) + 6) div 7 = Suc m" by (cases "(unat (sub_size sub) + 6) div 7") auto
  have rx: "canopen_sdo_rx_frame (upload_request i k) 8 (sdo, c) = Some (True, sdo1, c1)"
    using e(1-3) assms readable_sdo [OF assms(4)]
    unfolding upload_request_rx
    by (simp add: sdo_initiate_upload_def upload_request_def Let_def sdo_upload_object_def object_def sdo1_def c1_def)
  have "\<exists>sdo' c' resps. serve (segment_requests (Suc m) (seg_toggle sdo1)) (sdo1, c1) = Some (sdo', c') \<and>
    tx_log c' = tx_log c1 @ map (sdo_frame sdo1) resps \<and>
    concat (map segment_data resps) =
      take (unat (seg_total_size sdo1) - unat (seg_offset sdo1)) (drop (unat (seg_offset sdo1)) (store c1 v)) \<and>
    map (\<lambda>r. r ! 0 AND 1) resps = replicate m 0 @ [1] \<and> \<not> seg_active sdo' \<and> store c' = store c1"
    by (rule segments_deliver) (use n m e(4) assms(1) in \<open>auto simp: sdo1_def c1_def can_wf_size word_less_nat_alt\<close>)
  with rx m show ?thesis by (auto simp: sdo1_def c1_def)
qed

end

end
