(* ===== verification/Co_Pdo.thy ===== *)
theory Co_Pdo
  imports Co_Nmt
begin

text \<open>
  The PDO engine, \<open>src/canopen/canopen_pdo.c\<close>: two transmit PDOs with event and inhibit timers, two
  receive PDOs and SYNC. The pointers of \<open>canopen_automation_vars_t\<close> are those of the default
  dictionary, as the code takes them from \<open>canopen_default_od_get_vars\<close>.

  The lemmas show that every operation stays in bounds, what it sends, and that outputs follow
  received PDOs in the operational state only.
\<close>

section \<open>Operations\<close>

record canopen_tpdo_state =
  tpdo_cob_id :: u32
  event_timer_ms :: u16
  event_counter_ms :: u16
  inhibit_timer_ms :: u16
  inhibit_counter_ms :: u16

record canopen_pdo =
  pdo_node_id :: u8
  pdo_od :: canopen_od
  tpdo1 :: canopen_tpdo_state
  tpdo2 :: canopen_tpdo_state

definition canopen_pdo_init :: "u8 \<Rightarrow> canopen_od \<Rightarrow> canopen_pdo" where
  "canopen_pdo_init node_id od =
     \<lparr>pdo_node_id = node_id, pdo_od = od,
      tpdo1 = \<lparr>tpdo_cob_id = CANOPEN_COB_TPDO1_BASE + ucast node_id, event_timer_ms = 1000, event_counter_ms = 1000,
               inhibit_timer_ms = 100, inhibit_counter_ms = 0\<rparr>,
      tpdo2 = \<lparr>tpdo_cob_id = CANOPEN_COB_TPDO2_BASE + ucast node_id, event_timer_ms = 1000, event_counter_ms = 1000,
               inhibit_timer_ms = 100, inhibit_counter_ms = 0\<rparr>\<rparr>"

text \<open>The result is that of the function; \<open>None\<close> is an access out of bounds.\<close>

definition canopen_pdo_send_tpdo1 :: "canopen_pdo \<times> can \<Rightarrow> (bool \<times> canopen_pdo \<times> can) option" where
  "canopen_pdo_send_tpdo1 s = (case s of (pdo, c) \<Rightarrow>
     if inhibit_counter_ms (tpdo1 pdo) > 0 then Some (False, pdo, c)
     else do {
       c \<leftarrow> canopen_app_sync_inputs c;
       b \<leftarrow> rd (store c p_digital_inputs) 0;
       let (ok, c) = tx_func \<lparr>cob_id = tpdo_cob_id (tpdo1 pdo), frame_data = [b], rtr = False\<rparr> c;
       Some (if ok
         then (True, pdo\<lparr>tpdo1 := (tpdo1 pdo)\<lparr>inhibit_counter_ms := inhibit_timer_ms (tpdo1 pdo)\<rparr>\<rparr>, c)
         else (False, pdo, c))
     })"

definition canopen_pdo_send_tpdo2 :: "canopen_pdo \<times> can \<Rightarrow> (bool \<times> canopen_pdo \<times> can) option" where
  "canopen_pdo_send_tpdo2 s = (case s of (pdo, c) \<Rightarrow>
     if inhibit_counter_ms (tpdo2 pdo) > 0 then Some (False, pdo, c)
     else do {
       c \<leftarrow> canopen_app_sync_inputs c;
       vals \<leftarrow> those (map (\<lambda>i. read_le16 (p_analog_inputs i) (store c)) [0..<4]);
       let (ok, c) = tx_func \<lparr>cob_id = tpdo_cob_id (tpdo2 pdo), frame_data = concat (map le16 vals), rtr = False\<rparr> c;
       Some (if ok
         then (True, pdo\<lparr>tpdo2 := (tpdo2 pdo)\<lparr>inhibit_counter_ms := inhibit_timer_ms (tpdo2 pdo)\<rparr>\<rparr>, c)
         else (False, pdo, c))
     })"

text \<open>The inhibit countdown of one transmit PDO.\<close>

definition cooldown :: "u32 \<Rightarrow> canopen_tpdo_state \<Rightarrow> canopen_tpdo_state" where
  "cooldown delta_ms t =
     (if inhibit_counter_ms t > 0
      then t\<lparr>inhibit_counter_ms :=
        (if delta_ms \<ge> ucast (inhibit_counter_ms t) then 0 else inhibit_counter_ms t - ucast delta_ms)\<rparr>
      else t)"

definition event_tpdo1 :: "u32 \<Rightarrow> canopen_pdo \<times> can \<Rightarrow> (canopen_pdo \<times> can) option" where
  "event_tpdo1 delta_ms s = (case s of (pdo, c) \<Rightarrow>
     if event_timer_ms (tpdo1 pdo) > 0 then
       if delta_ms \<ge> ucast (event_counter_ms (tpdo1 pdo)) then do {
         (_, pdo, c) \<leftarrow> canopen_pdo_send_tpdo1 (pdo, c);
         Some (pdo\<lparr>tpdo1 := (tpdo1 pdo)\<lparr>event_counter_ms := event_timer_ms (tpdo1 pdo)\<rparr>\<rparr>, c)
       } else Some (pdo\<lparr>tpdo1 := (tpdo1 pdo)\<lparr>event_counter_ms := event_counter_ms (tpdo1 pdo) - ucast delta_ms\<rparr>\<rparr>, c)
     else Some (pdo, c))"

definition event_tpdo2 :: "u32 \<Rightarrow> canopen_pdo \<times> can \<Rightarrow> (canopen_pdo \<times> can) option" where
  "event_tpdo2 delta_ms s = (case s of (pdo, c) \<Rightarrow>
     if event_timer_ms (tpdo2 pdo) > 0 then
       if delta_ms \<ge> ucast (event_counter_ms (tpdo2 pdo)) then do {
         (_, pdo, c) \<leftarrow> canopen_pdo_send_tpdo2 (pdo, c);
         Some (pdo\<lparr>tpdo2 := (tpdo2 pdo)\<lparr>event_counter_ms := event_timer_ms (tpdo2 pdo)\<rparr>\<rparr>, c)
       } else Some (pdo\<lparr>tpdo2 := (tpdo2 pdo)\<lparr>event_counter_ms := event_counter_ms (tpdo2 pdo) - ucast delta_ms\<rparr>\<rparr>, c)
     else Some (pdo, c))"

definition canopen_pdo_process :: "u32 \<Rightarrow> bool \<Rightarrow> canopen_pdo \<times> can \<Rightarrow> (canopen_pdo \<times> can) option" where
  "canopen_pdo_process delta_ms is_operational s = (case s of (pdo, c) \<Rightarrow>
     let pdo = pdo\<lparr>tpdo1 := cooldown delta_ms (tpdo1 pdo), tpdo2 := cooldown delta_ms (tpdo2 pdo)\<rparr> in
     if \<not> is_operational then Some (pdo, c)
     else do { s \<leftarrow> event_tpdo1 delta_ms (pdo, c); event_tpdo2 delta_ms s })"

definition canopen_pdo_rx_rpdo ::
    "u32 \<Rightarrow> u8 list \<Rightarrow> u8 \<Rightarrow> bool \<Rightarrow> canopen_pdo \<times> can \<Rightarrow> (bool \<times> canopen_pdo \<times> can) option" where
  "canopen_pdo_rx_rpdo cob data len is_operational s = (case s of (pdo, c) \<Rightarrow>
     if \<not> is_operational then Some (False, pdo, c)
     else if cob = CANOPEN_COB_RPDO1_BASE + ucast (pdo_node_id pdo) \<and> len \<ge> 1 then do {
       d0 \<leftarrow> rd data 0;
       st \<leftarrow> copy_to p_digital_outputs [d0] (store c);
       c \<leftarrow> canopen_app_sync_outputs (c\<lparr>store := st\<rparr>);
       Some (True, pdo, c)
     }
     else if cob = CANOPEN_COB_RPDO2_BASE + ucast (pdo_node_id pdo) \<and> len \<ge> 4 then do {
       d0 \<leftarrow> rd data 0; d1 \<leftarrow> rd data 1; d2 \<leftarrow> rd data 2; d3 \<leftarrow> rd data 3;
       st \<leftarrow> copy_to (p_analog_outputs 0) (le16 (be16 d1 d0)) (store c);
       st \<leftarrow> copy_to (p_analog_outputs 1) (le16 (be16 d3 d2)) st;
       c \<leftarrow> canopen_app_sync_outputs (c\<lparr>store := st\<rparr>);
       Some (True, pdo, c)
     }
     else Some (False, pdo, c))"

definition canopen_pdo_rx_sync :: "bool \<Rightarrow> canopen_pdo \<times> can \<Rightarrow> (canopen_pdo \<times> can) option" where
  "canopen_pdo_rx_sync is_operational s = (case s of (pdo, c) \<Rightarrow>
     if \<not> is_operational then Some (pdo, c)
     else do {
       let pdo = pdo\<lparr>tpdo1 := (tpdo1 pdo)\<lparr>inhibit_counter_ms := 0\<rparr>, tpdo2 := (tpdo2 pdo)\<lparr>inhibit_counter_ms := 0\<rparr>\<rparr>;
       (_, s) \<leftarrow> canopen_pdo_send_tpdo1 (pdo, c);
       (_, s) \<leftarrow> canopen_pdo_send_tpdo2 s;
       Some s
     })"

section \<open>Input synchronisation\<close>

lemma set_input_total:
  assumes "can_wf c"
  shows "\<exists>d. canopen_set_digital_inputs v c = Some d \<and> can_wf d \<and> tx_log d = tx_log c \<and> tx_results d = tx_results c \<and>
    co_board d = co_board c \<and> adc_scans d = adc_scans c \<and> adc_count d = adc_count c \<and>
    s_last_do d = s_last_do c \<and> s_last_ao d = s_last_ao c \<and> co_app d = co_app c \<and>
    store d = (store c)(p_digital_inputs := [v])"
proof -
  have l: "length (boot_store p_digital_inputs) = 1" by (simp add: p_digital_inputs_def)
  then obtain st where st: "copy_to p_digital_inputs [v] (store c) = Some st"
    using copy_to_total [OF assms, of "[v]" p_digital_inputs] by auto
  moreover have "length (store c p_digital_inputs) = 1" using assms l by (simp add: can_wf_size)
  ultimately show ?thesis
    using can_wf_store [OF assms st] by (auto simp: canopen_set_digital_inputs_def copy_to_def)
qed

lemma set_analog_total:
  assumes "can_wf c" "i < 4"
  shows "\<exists>d. canopen_set_analog_input (of_nat i) v c = Some d \<and> can_wf d \<and> tx_log d = tx_log c \<and> tx_results d = tx_results c \<and>
    co_board d = co_board c \<and> s_last_do d = s_last_do c \<and> s_last_ao d = s_last_ao c \<and> co_app d = co_app c \<and>
    store d = (store c)(p_analog_inputs i := le16 v)"
proof -
  have l: "length (boot_store (p_analog_inputs i)) = 2" using assms(2) by simp
  then obtain st where st: "copy_to (p_analog_inputs i) (le16 v) (store c) = Some st"
    using copy_to_total [OF assms(1), of "le16 v" "p_analog_inputs i"] by auto
  moreover have "length (store c (p_analog_inputs i)) = 2" using assms l by (simp add: can_wf_size)
  moreover have "(of_nat i :: u8) < 4" "unat (of_nat i :: u8) = i" using assms(2) by (simp_all add: word_less_nat_alt)
  ultimately show ?thesis
    using can_wf_store [OF assms(1) st] by (auto simp: canopen_set_analog_input_def copy_to_def)
qed

lemma scan_all_total:
  assumes "length buf = 4" "length (ai_raw_values b) = 4"
  shows "\<exists>buf' raw. analog_inputs_scan_all adc buf b = Some (buf', b\<lparr>ai_raw_values := raw\<rparr>) \<and> length buf' = 4 \<and> length raw = 4"
proof -
  have "\<exists>t. for_n 4 (\<lambda>i buf. case adc i of Some v \<Rightarrow> wr buf i v | None \<Rightarrow> Some buf) buf = Some t \<and> length t = 4"
    by (rule for_n_invariant [where P = "\<lambda>_ t. length t = 4"]) (use assms(1) in \<open>auto simp: wr_def split: option.split\<close>)
  then obtain t where t: "for_n 4 (\<lambda>i buf. case adc i of Some v \<Rightarrow> wr buf i v | None \<Rightarrow> Some buf) buf = Some t" "length t = 4"
    by blast
  have "\<exists>r. for_n 4 (\<lambda>i raw. do { v \<leftarrow> rd t i; wr raw i v }) (ai_raw_values b) = Some r \<and> length r = 4"
    by (rule for_n_invariant [where P = "\<lambda>_ t. length t = 4"]) (use assms(2) t(2) in \<open>auto simp: wr_def rd_def\<close>)
  with t show ?thesis by (auto simp: analog_inputs_scan_all_def)
qed

text \<open>
  Outputs, their statics and the linked application are as before; and the digital inputs of the board
  are as far in step as they were.
\<close>

definition inputs_shown :: "can \<Rightarrow> bool" where
  "inputs_shown c \<longleftrightarrow> store c p_digital_inputs = [digital_inputs_read_all (co_board c)]"

definition outputs_same :: "can \<Rightarrow> can \<Rightarrow> bool" where
  "outputs_same c d \<longleftrightarrow> co_app d = co_app c \<and> s_last_do d = s_last_do c \<and> s_last_ao d = s_last_ao c \<and>
     hw (co_board d) = hw (co_board c) \<and> digital_output_states (co_board d) = digital_output_states (co_board c) \<and>
     store d p_digital_outputs = store c p_digital_outputs \<and>
     (\<forall>i < 2. store d (p_analog_outputs i) = store c (p_analog_outputs i))"

definition outputs_kept :: "can \<Rightarrow> can \<Rightarrow> bool" where
  "outputs_kept c d \<longleftrightarrow> outputs_same c d \<and> digital_input_states (co_board d) = digital_input_states (co_board c) \<and>
     (co_app c = Board_App \<longrightarrow> inputs_shown c \<longrightarrow> inputs_shown d)"

lemmas outputs_kept_defs = outputs_kept_def outputs_same_def

lemma outputs_kept_refl [simp]: "outputs_kept c c"
  by (simp add: outputs_kept_defs)

lemma outputs_kept_trans: "outputs_kept c d \<Longrightarrow> outputs_kept d e \<Longrightarrow> outputs_kept c e"
  by (simp add: outputs_kept_defs)

lemma vars_distinct [simp]:
  "p_digital_outputs \<noteq> p_digital_inputs" "p_digital_inputs \<noteq> p_digital_outputs"
  "p_analog_outputs i \<noteq> p_digital_inputs" "p_digital_outputs \<noteq> p_analog_inputs i"
  "p_digital_inputs \<noteq> p_analog_inputs i" "p_analog_inputs i \<noteq> p_digital_inputs"
  "p_analog_outputs i \<noteq> p_analog_inputs j" "p_analog_outputs i \<noteq> p_digital_outputs"
  "p_digital_outputs \<noteq> p_analog_outputs i" "p_analog_outputs 0 \<noteq> p_analog_outputs (Suc 0)"
  "p_analog_outputs (Suc 0) \<noteq> p_analog_outputs 0"
  by (simp_all add: p_digital_inputs_def p_digital_outputs_def p_analog_inputs_def p_analog_outputs_def)

text \<open>The loop that stores the four analog inputs.\<close>

lemma set_analogs_total:
  assumes "can_wf c" "length buf = 4"
  shows "\<exists>d. for_n 4 (\<lambda>i c. do { v \<leftarrow> rd buf i; canopen_set_analog_input (of_nat i) v c }) c = Some d \<and> can_wf d \<and>
    tx_log d = tx_log c \<and> tx_results d = tx_results c \<and> co_board d = co_board c \<and>
    store d p_digital_inputs = store c p_digital_inputs \<and> outputs_same c d"
proof (rule for_n_invariant [where P = "\<lambda>_ d. can_wf d \<and> tx_log d = tx_log c \<and> tx_results d = tx_results c \<and>
    co_board d = co_board c \<and> store d p_digital_inputs = store c p_digital_inputs \<and> outputs_same c d"], goal_cases)
  case (2 i d)
  then obtain e where "canopen_set_analog_input (of_nat i) (buf ! i) d = Some e" "can_wf e" "tx_log e = tx_log d"
      "tx_results e = tx_results d" "co_board e = co_board d" "s_last_do e = s_last_do d" "s_last_ao e = s_last_ao d"
      "co_app e = co_app d" "store e = (store d)(p_analog_inputs i := le16 (buf ! i))"
    using set_analog_total [of d i] by metis
  with 2 assms(2) show ?case by (simp add: rd_Some outputs_same_def)
qed (use assms in \<open>simp add: outputs_same_def\<close>)

lemma board_sync_inputs_total:
  assumes "can_wf c" "co_app c = Board_App"
  shows "\<exists>d. board_sync_inputs c = Some d \<and> can_wf d \<and> tx_log d = tx_log c \<and> tx_results d = tx_results c \<and>
    store d p_digital_inputs = [digital_inputs_read_all (co_board c)] \<and> outputs_kept c d"
proof -
  obtain c1 where c1: "canopen_set_digital_inputs (digital_inputs_read_all (co_board c)) c = Some c1" "can_wf c1"
      "tx_log c1 = tx_log c" "tx_results c1 = tx_results c" "co_board c1 = co_board c"
      "s_last_do c1 = s_last_do c" "s_last_ao c1 = s_last_ao c" "co_app c1 = co_app c"
      "store c1 = (store c)(p_digital_inputs := [digital_inputs_read_all (co_board c)])"
    using set_input_total [OF assms(1)] by blast
  obtain buf adc where scan: "adc_scans c1 (adc_count c1) = (buf, adc)" by fastforce
  have "length buf = 4" using c1(2) scan by (metis can_wf_def fst_conv)
  moreover have "length (ai_raw_values (co_board c1)) = 4" using c1(2) by (simp add: can_wf_def board_wf_def)
  ultimately obtain buf' raw where s: "analog_inputs_scan_all adc buf (co_board c1) = Some (buf', (co_board c1)\<lparr>ai_raw_values := raw\<rparr>)"
      "length buf' = 4" "length raw = 4" using scan_all_total by blast
  define c2 where "c2 = c1\<lparr>co_board := (co_board c1)\<lparr>ai_raw_values := raw\<rparr>, adc_count := adc_count c1 + 1\<rparr>"
  have "can_wf c2" using c1(2) s(3) by (simp add: c2_def can_wf_def board_wf_def)
  from set_analogs_total [OF this s(2)] obtain d where
    "for_n 4 (\<lambda>i c. do { v \<leftarrow> rd buf' i; canopen_set_analog_input (of_nat i) v c }) c2 = Some d" "can_wf d"
    "tx_log d = tx_log c2" "tx_results d = tx_results c2" "co_board d = co_board c2"
    "store d p_digital_inputs = store c2 p_digital_inputs" "outputs_same c2 d" by blast
  with c1 scan s(1) show ?thesis
    by (simp add: board_sync_inputs_def c2_def outputs_kept_defs inputs_shown_def digital_inputs_read_all_def)
qed

lemma f767_sync_inputs_total:
  assumes "can_wf c" "co_app c = F767_App io"
  shows "\<exists>d. f767_sync_inputs io c = Some d \<and> can_wf d \<and> tx_log d = tx_log c \<and> tx_results d = tx_results c \<and>
    store d p_digital_inputs = [s_hw_digital_inputs io] \<and> outputs_kept c d"
proof -
  obtain c1 where c1: "canopen_set_digital_inputs (s_hw_digital_inputs io) c = Some c1" "can_wf c1"
      "tx_log c1 = tx_log c" "tx_results c1 = tx_results c" "co_board c1 = co_board c"
      "s_last_do c1 = s_last_do c" "s_last_ao c1 = s_last_ao c" "co_app c1 = co_app c"
      "store c1 = (store c)(p_digital_inputs := [s_hw_digital_inputs io])"
    using set_input_total [OF assms(1)] by blast
  have "length (s_hw_analog_inputs io) = 4" using assms by (simp add: can_wf_def app_wf_def)
  from set_analogs_total [OF c1(2) this] c1 assms(2) show ?thesis
    by (auto simp: f767_sync_inputs_def outputs_kept_defs)
qed

lemma sync_inputs_total:
  assumes "can_wf c"
  shows "\<exists>d. canopen_app_sync_inputs c = Some d \<and> can_wf d \<and> tx_log d = tx_log c \<and> tx_results d = tx_results c \<and> outputs_kept c d \<and>
    (co_app c = Board_App \<longrightarrow> store d p_digital_inputs = [digital_inputs_read_all (co_board c)])"
proof (cases "co_app c")
  case Board_App
  with board_sync_inputs_total [OF assms] show ?thesis by (auto simp: canopen_app_sync_inputs_def)
next
  case (F767_App io)
  with f767_sync_inputs_total [OF assms F767_App] show ?thesis by (auto simp: canopen_app_sync_inputs_def)
qed (use assms in \<open>simp add: canopen_app_sync_inputs_def\<close>)

section \<open>Every operation stays in bounds\<close>

definition pdo_wf :: "u8 \<Rightarrow> canopen_pdo \<Rightarrow> bool" where
  "pdo_wf n pdo \<longleftrightarrow> pdo_node_id pdo = n \<and> tpdo_cob_id (tpdo1 pdo) = 0x180 + ucast n \<and> tpdo_cob_id (tpdo2 pdo) = 0x280 + ucast n"

definition pdo_cobs :: "u8 \<Rightarrow> u32 set" where
  "pdo_cobs n = {0x180 + ucast n, 0x280 + ucast n}"

lemma pdo_wf_init [simp]: "pdo_wf n (canopen_pdo_init n od)"
  by (simp add: pdo_wf_def canopen_pdo_init_def)

text \<open>What a transmission leaves: only PDOs are sent, and the outputs are as before.\<close>

definition pdo_step :: "u8 \<Rightarrow> can \<Rightarrow> canopen_pdo \<times> can \<Rightarrow> bool" where
  "pdo_step n c s \<longleftrightarrow> pdo_wf n (fst s) \<and> can_wf (snd s) \<and> sends (pdo_cobs n) c (snd s) \<and> outputs_kept c (snd s)"

lemma pdo_step_refl: "pdo_wf n pdo \<Longrightarrow> can_wf c \<Longrightarrow> pdo_step n c (pdo, c)"
  by (simp add: pdo_step_def sends_refl)

lemma pdo_step_trans: "pdo_step n c (pdo, d) \<Longrightarrow> pdo_step n d s \<Longrightarrow> pdo_step n c s"
  by (auto simp: pdo_step_def intro: sends_trans outputs_kept_trans)

lemma tx_result:
  "tx_func fr d = (ok, e) \<Longrightarrow> can_wf e = can_wf d \<and> outputs_kept c e = outputs_kept c d \<and> tx_log e = tx_log d @ [fr]"
  by (auto simp: tx_func_def outputs_kept_defs inputs_shown_def)

lemma send_tpdo1_total:
  assumes "can_wf c" "pdo_wf n pdo"
  shows "\<exists>r s. canopen_pdo_send_tpdo1 (pdo, c) = Some (r, s) \<and> pdo_step n c s \<and>
    (inhibit_counter_ms (tpdo1 pdo) = 0 \<longrightarrow> co_app c = Board_App \<longrightarrow> tx_log (snd s) = tx_log c @
       [\<lparr>cob_id = 0x180 + ucast n, frame_data = [digital_inputs_read_all (co_board c)], rtr = False\<rparr>])"
proof (cases "inhibit_counter_ms (tpdo1 pdo) = 0")
  case True
  obtain d where d: "canopen_app_sync_inputs c = Some d" "can_wf d" "tx_log d = tx_log c"
      "co_app c = Board_App \<longrightarrow> store d p_digital_inputs = [digital_inputs_read_all (co_board c)]" "outputs_kept c d"
    using sync_inputs_total [OF assms(1)] by blast
  have "length (store d p_digital_inputs) = 1" using d(2) by (simp add: can_wf_size p_digital_inputs_def)
  then obtain b where b: "store d p_digital_inputs = [b]" by (auto simp: length_Suc_conv)
  let ?fr = "\<lparr>cob_id = tpdo_cob_id (tpdo1 pdo), frame_data = [b], rtr = False\<rparr>"
  obtain ok e where tx: "tx_func ?fr d = (ok, e)" by fastforce
  then have "can_wf e" "outputs_kept c e" "tx_log e = tx_log c @ [?fr]" using d tx_result [OF tx, of c] by simp_all
  moreover from this(3) have "sends (pdo_cobs n) c e"
    by (rule sends_one) (use assms(2) in \<open>simp add: pdo_wf_def pdo_cobs_def\<close>)
  ultimately show ?thesis
    using True d(1,4) b tx assms(2) by (cases ok; simp add: canopen_pdo_send_tpdo1_def pdo_step_def pdo_wf_def; blast)
qed (use assms in \<open>auto simp: canopen_pdo_send_tpdo1_def pdo_step_refl word_gt_0\<close>)

lemma send_tpdo2_total:
  assumes "can_wf c" "pdo_wf n pdo"
  shows "\<exists>r s. canopen_pdo_send_tpdo2 (pdo, c) = Some (r, s) \<and> pdo_step n c s"
proof (cases "inhibit_counter_ms (tpdo2 pdo) = 0")
  case True
  obtain d where d: "canopen_app_sync_inputs c = Some d" "can_wf d" "tx_log d = tx_log c" "outputs_kept c d"
    using sync_inputs_total [OF assms(1)] by blast
  define f where "f i = the (read_le16 (p_analog_inputs i) (store d))" for i
  have f: "those (map (\<lambda>i. read_le16 (p_analog_inputs i) (store d)) [0..<4]) = Some (map f [0..<4])"
  proof (rule those_map_Some)
    fix i :: nat
    assume "i \<in> set [0..<4]"
    then show "read_le16 (p_analog_inputs i) (store d) = Some (f i)"
      using read_le16_total [OF d(2), of "p_analog_inputs i"] by (auto simp: f_def)
  qed
  let ?fr = "\<lparr>cob_id = tpdo_cob_id (tpdo2 pdo), frame_data = concat (map le16 (map f [0..<4])), rtr = False\<rparr>"
  obtain ok e where tx: "tx_func ?fr d = (ok, e)" by fastforce
  then have "can_wf e" "outputs_kept c e" "tx_log e = tx_log c @ [?fr]" using d tx_result [OF tx, of c] by simp_all
  moreover from this(3) have "sends (pdo_cobs n) c e"
    by (rule sends_one) (use assms(2) in \<open>simp add: pdo_wf_def pdo_cobs_def\<close>)
  ultimately show ?thesis
    using True d(1) f tx assms(2)
    by (cases ok; simp add: canopen_pdo_send_tpdo2_def pdo_step_def pdo_wf_def del: upt_rec_numeral; blast)
qed (use assms in \<open>auto simp: canopen_pdo_send_tpdo2_def pdo_step_refl word_gt_0\<close>)

lemma pdo_wf_upd [simp]:
  "pdo_wf n (pdo\<lparr>tpdo1 := (tpdo1 pdo)\<lparr>event_counter_ms := e\<rparr>\<rparr>) = pdo_wf n pdo"
  "pdo_wf n (pdo\<lparr>tpdo2 := (tpdo2 pdo)\<lparr>event_counter_ms := e\<rparr>\<rparr>) = pdo_wf n pdo"
  by (simp_all add: pdo_wf_def)

lemma event_tpdo1_total:
  assumes "can_wf c" "pdo_wf n pdo"
  shows "\<exists>s. event_tpdo1 delta (pdo, c) = Some s \<and> pdo_step n c s"
  using send_tpdo1_total [OF assms] pdo_step_refl [OF _ assms(1)] assms(2)
  by (auto simp: event_tpdo1_def pdo_step_def split: if_splits)

lemma event_tpdo2_total:
  assumes "can_wf c" "pdo_wf n pdo"
  shows "\<exists>s. event_tpdo2 delta (pdo, c) = Some s \<and> pdo_step n c s"
  using send_tpdo2_total [OF assms] pdo_step_refl [OF _ assms(1)] assms(2)
  by (auto simp: event_tpdo2_def pdo_step_def split: if_splits)

lemma pdo_process_total:
  assumes "can_wf c" "pdo_wf n pdo"
  shows "\<exists>s. canopen_pdo_process delta op (pdo, c) = Some s \<and> pdo_step n c s \<and> (\<not> op \<longrightarrow> snd s = c)"
proof -
  define pdo1 where "pdo1 = pdo\<lparr>tpdo1 := cooldown delta (tpdo1 pdo), tpdo2 := cooldown delta (tpdo2 pdo)\<rparr>"
  have w: "pdo_wf n pdo1" using assms(2) by (simp add: pdo1_def pdo_wf_def cooldown_def)
  obtain s where s: "event_tpdo1 delta (pdo1, c) = Some s" "pdo_step n c s" using event_tpdo1_total [OF assms(1) w] by blast
  then obtain t where "event_tpdo2 delta (fst s, snd s) = Some t" "pdo_step n (snd s) t"
    using event_tpdo2_total [of "snd s" n "fst s" delta] by (auto simp: pdo_step_def)
  with s w assms(1) show ?thesis
    by (cases s; cases t) (auto simp: canopen_pdo_process_def pdo1_def [symmetric] intro: pdo_step_trans pdo_step_refl)
qed

lemma pdo_sync_total:
  assumes "can_wf c" "pdo_wf n pdo"
  shows "\<exists>s. canopen_pdo_rx_sync op (pdo, c) = Some s \<and> pdo_step n c s \<and> (\<not> op \<longrightarrow> snd s = c)"
proof (cases op)
  case True
  define pdo1 where "pdo1 = pdo\<lparr>tpdo1 := (tpdo1 pdo)\<lparr>inhibit_counter_ms := 0\<rparr>, tpdo2 := (tpdo2 pdo)\<lparr>inhibit_counter_ms := 0\<rparr>\<rparr>"
  have w: "pdo_wf n pdo1" using assms(2) by (simp add: pdo1_def pdo_wf_def)
  obtain r s where s: "canopen_pdo_send_tpdo1 (pdo1, c) = Some (r, s)" "pdo_step n c s"
    using send_tpdo1_total [OF assms(1) w] by blast
  then obtain r' t where "canopen_pdo_send_tpdo2 (fst s, snd s) = Some (r', t)" "pdo_step n (snd s) t"
    using send_tpdo2_total [of "snd s" n "fst s"] by (auto simp: pdo_step_def)
  with s True show ?thesis
    by (cases s; cases t) (auto simp: canopen_pdo_rx_sync_def pdo1_def [symmetric] intro: pdo_step_trans)
qed (use assms in \<open>simp add: canopen_pdo_rx_sync_def pdo_step_refl\<close>)

section \<open>Outputs\<close>

definition in_range :: "u16 \<Rightarrow> bool" where
  "in_range v \<longleftrightarrow> 0 \<le> sint v \<and> sint v \<le> 4095"

text \<open>The board, under its own application, shows what the synchronisation functions last handed to it.\<close>

definition outputs_shown :: "can \<Rightarrow> bool" where
  "outputs_shown c \<longleftrightarrow> co_app c = Board_App \<and> digital_outputs_read_all (co_board c) = s_last_do c \<and>
     (\<forall>i < 2. in_range (s_last_ao c ! i) \<longrightarrow> dac_out (of_nat i) (hw (co_board c)) = Some (s_last_ao c ! i))"

text \<open>The mirrors of the example are those of the dictionary. What either application promises:\<close>

definition f767_shown :: "f767_io \<Rightarrow> can \<Rightarrow> bool" where
  "f767_shown io c \<longleftrightarrow> store c p_digital_outputs = [s_hw_digital_outputs io] \<and>
     (\<forall>i < 2. read_le16 (p_analog_outputs i) (store c) = Some (s_hw_analog_outputs io ! i))"

definition app_shown :: "can \<Rightarrow> bool" where
  "app_shown c \<longleftrightarrow> (case co_app c of No_App \<Rightarrow> True | Board_App \<Rightarrow> outputs_shown c | F767_App io \<Rightarrow> f767_shown io c)"

text \<open>The part of it that does not look at the dictionary, which synchronisation needs.\<close>

definition board_shown :: "can \<Rightarrow> bool" where
  "board_shown c \<longleftrightarrow> (co_app c = Board_App \<longrightarrow> outputs_shown c)"

lemma outputs_shown_app: "outputs_shown c \<longleftrightarrow> co_app c = Board_App \<and> app_shown c"
  by (auto simp: app_shown_def outputs_shown_def)

lemma app_board_shown: "app_shown c \<Longrightarrow> board_shown c"
  by (auto simp: app_shown_def board_shown_def)

lemma outputs_same_shown: "outputs_same c d \<Longrightarrow> app_shown c \<Longrightarrow> app_shown d"
  by (auto simp: outputs_same_def app_shown_def outputs_shown_def digital_outputs_read_all_def f767_shown_def read_le16_def
      split: can_app.splits)

lemma dac_out_write_all [simp]: "dac_out i (hw (digital_outputs_write_all v b)) = dac_out i (hw b)"
  by (simp add: digital_outputs_write_all_def emit_def split_beta Let_def)

lemma dac_out_write_raw:
  "i < 2 \<Longrightarrow> j < 2 \<Longrightarrow> dac_out (of_nat j) (hw (analog_output_write_raw (of_nat i) v b)) =
     (if i = j then Some v else dac_out (of_nat j) (hw b))"
proof -
  assume "i < 2" "j < 2"
  then have "i = 0 \<or> i = 1" "j = 0 \<or> j = 1" by arith+
  moreover have "\<not> (2 :: u8) \<le> 1" by (simp add: word_le_nat_alt)
  ultimately show ?thesis by (auto simp: analog_output_write_raw_def emit_def)
qed

lemma read_all_writes [simp]:
  "digital_outputs_read_all (digital_outputs_write_all v b) = v"
  "digital_outputs_read_all (analog_output_write_raw i w b) = digital_outputs_read_all b"
  by (simp_all add: digital_outputs_read_all_def digital_outputs_write_all_def analog_output_write_raw_def emit_def split_beta Let_def)

lemma sync_ao_shows:
  assumes "can_wf c" "i < 2"
  shows "\<exists>d v. sync_ao i c = Some d \<and> can_wf d \<and> io_frame c d \<and> (outputs_shown c \<longrightarrow> outputs_shown d) \<and> s_last_do d = s_last_do c \<and>
    read_le16 (p_analog_outputs i) (store c) = Some v \<and> s_last_ao d = (s_last_ao c)[i := v]"
proof -
  have i: "(of_nat i :: u8) < 2" "unat (of_nat i :: u8) = i" using assms(2) by (simp_all add: word_less_nat_alt)
  obtain d where d: "sync_ao i c = Some d" "can_wf d" "io_frame c d" using sync_ao_total [OF assms] by blast
  obtain v where v: "read_le16 (p_analog_outputs i) (store c) = Some v"
    using read_le16_total [OF assms(1), of "p_analog_outputs i"] assms(2) by auto
  have l: "length (s_last_ao c) = 2" using assms(1) by (simp add: can_wf_def)
  have "(outputs_shown c \<longrightarrow> outputs_shown d) \<and> s_last_do d = s_last_do c \<and> s_last_ao d = (s_last_ao c)[i := v]"
    using d(1) v i l assms(2)
    by (auto simp: sync_ao_def canopen_get_analog_output_def rd_Some Let_def outputs_shown_def nth_list_update
        dac_out_write_raw in_range_def split: if_splits)
  with d v show ?thesis by blast
qed

text \<open>After a synchronisation the outputs are those of the dictionary.\<close>

lemma board_sync_outputs_shows:
  assumes "can_wf c"
  shows "\<exists>d. board_sync_outputs c = Some d \<and> can_wf d \<and> io_frame c d \<and> (outputs_shown c \<longrightarrow> outputs_shown d) \<and>
    store c p_digital_outputs = [s_last_do d] \<and>
    (\<forall>i < 2. read_le16 (p_analog_outputs i) (store c) = Some (s_last_ao d ! i))"
proof -
  have "length (store c p_digital_outputs) = 1" using assms by (simp add: can_wf_size p_digital_outputs_def)
  then obtain v where v: "store c p_digital_outputs = [v]" by (auto simp: length_Suc_conv)
  define c1 where "c1 = (if v \<noteq> s_last_do c
      then c\<lparr>s_last_do := v, co_board := digital_outputs_write_all v (co_board c)\<rparr> else c)"
  have c1: "can_wf c1" "io_frame c c1" "outputs_shown c \<longrightarrow> outputs_shown c1" "s_last_do c1 = v"
    using assms can_wf_board [of "c\<lparr>s_last_do := v\<rparr>"] by (auto simp: c1_def io_frame_def outputs_shown_def) (simp add: can_wf_def)
  obtain x0 d0 where d0: "sync_ao 0 c1 = Some d0" "can_wf d0" "io_frame c1 d0" "outputs_shown c1 \<longrightarrow> outputs_shown d0" "s_last_do d0 = v"
      "read_le16 (p_analog_outputs 0) (store c) = Some x0" "s_last_ao d0 = (s_last_ao c1)[0 := x0]"
    using sync_ao_shows [OF c1(1), of 0] c1(2,4) by (auto simp: io_frame_def)
  obtain x1 d1 where d1: "sync_ao 1 d0 = Some d1" "can_wf d1" "io_frame d0 d1" "outputs_shown d0 \<longrightarrow> outputs_shown d1" "s_last_do d1 = v"
      "read_le16 (p_analog_outputs 1) (store c) = Some x1" "s_last_ao d1 = (s_last_ao d0)[1 := x1]"
    using sync_ao_shows [OF d0(2), of 1] c1(2) d0(3,5) by (auto simp: io_frame_def)
  have len: "length (s_last_ao c1) = 2" using c1(1) by (simp add: can_wf_def)
  have "board_sync_outputs c = Some d1"
    using v d0(1) d1(1) by (simp add: board_sync_outputs_def canopen_get_digital_outputs_def c1_def numeral_2_eq_2)
  moreover have "io_frame c d1" using c1(2) d0(3) d1(3) by (blast intro: io_frame_trans)
  moreover have "\<forall>i < 2. read_le16 (p_analog_outputs i) (store c) = Some (s_last_ao d1 ! i)"
    using d0(6,7) d1(6,7) len by (auto simp: less_Suc_eq numeral_2_eq_2)
  ultimately show ?thesis using c1(3) d0(4) d1 v by auto
qed

lemma sync_outputs_shows:
  assumes "can_wf c" "board_shown c"
  shows "\<exists>d. canopen_app_sync_outputs c = Some d \<and> can_wf d \<and> io_frame c d \<and> link d = link c \<and> app_shown d \<and>
    (co_app c = Board_App \<longrightarrow> store c p_digital_outputs = [s_last_do d] \<and>
      (\<forall>i < 2. read_le16 (p_analog_outputs i) (store c) = Some (s_last_ao d ! i)))"
proof (cases "co_app c")
  case Board_App
  with board_sync_outputs_shows [OF assms(1)] assms(2) show ?thesis
    by (auto simp: canopen_app_sync_outputs_def board_shown_def outputs_shown_app link_def)
next
  case (F767_App io)
  obtain d where d: "canopen_app_sync_outputs c = Some d" "can_wf d" "io_frame c d" "link d = link c"
    using sync_outputs_total [OF assms(1)] by blast
  with F767_App f767_sync_outputs_total [OF assms(1) F767_App] have "app_shown d"
    by (auto simp: canopen_app_sync_outputs_def app_shown_def f767_shown_def less_Suc_eq numeral_2_eq_2)
  with d F767_App show ?thesis by auto
qed (use assms in \<open>simp add: canopen_app_sync_outputs_def app_shown_def\<close>)

text \<open>A run of the output synchronisation, for what it keeps and what it shows.\<close>

lemma sync_outputs_run:
  assumes "can_wf c"
  obtains d where "canopen_app_sync_outputs c = Some d" "can_wf d" "io_frame c d" "link d = link c" "board_shown c \<longrightarrow> app_shown d"
    "outputs_shown c \<longrightarrow> outputs_shown d \<and> store c p_digital_outputs = [s_last_do d] \<and>
      (\<forall>i < 2. read_le16 (p_analog_outputs i) (store c) = Some (s_last_ao d ! i))"
proof -
  obtain d where d: "canopen_app_sync_outputs c = Some d" "can_wf d" "io_frame c d" "link d = link c"
    using sync_outputs_total [OF assms] by blast
  moreover have "co_app d = Board_App \<longleftrightarrow> co_app c = Board_App" using d(4) by (metis link_board)
  ultimately show thesis using sync_outputs_shows [OF assms] that
    by (auto simp: outputs_shown_app board_shown_def)
qed

section \<open>Receive PDOs\<close>

lemma copy_exact:
  assumes "can_wf c" "length bs = length (boot_store v)"
  shows "copy_to v bs (store c) = Some ((store c)(v := bs))" "can_wf (c\<lparr>store := (store c)(v := bs)\<rparr>)"
proof -
  show st: "copy_to v bs (store c) = Some ((store c)(v := bs))"
    using assms by (simp add: copy_to_def can_wf_size)
  show "can_wf (c\<lparr>store := (store c)(v := bs)\<rparr>)" by (rule can_wf_store [OF assms(1) st])
qed

lemma boot_sizes_io [simp]:
  "length (boot_store p_digital_outputs) = Suc 0" "length (boot_store (p_analog_outputs 0)) = 2"
  "length (boot_store (p_analog_outputs (Suc 0))) = 2"
  using analog_var_size(2) [of 0] analog_var_size(2) [of 1] by (simp_all add: p_digital_outputs_def)

lemma outputs_shown_store [simp]:
  "outputs_shown (c\<lparr>store := st\<rparr>) = outputs_shown c" "board_shown (c\<lparr>store := st\<rparr>) = board_shown c"
  "link (c\<lparr>store := st\<rparr>) = link c"
  by (simp_all add: outputs_shown_def board_shown_def link_def)

text \<open>RPDO1 sets the digital outputs.\<close>

lemma rpdo1_effect:
  assumes "can_wf c" "pdo_wf n pdo" "length data = 8" "len \<ge> 1"
  shows "\<exists>d. canopen_pdo_rx_rpdo (0x200 + ucast n) data len True (pdo, c) = Some (True, pdo, d) \<and> can_wf d \<and>
    tx_log d = tx_log c \<and> link d = link c \<and> (app_shown c \<longrightarrow> app_shown d) \<and>
    (outputs_shown c \<longrightarrow> outputs_shown d \<and> digital_outputs_read_all (co_board d) = data ! 0)"
proof -
  let ?c = "c\<lparr>store := (store c)(p_digital_outputs := [data ! 0])\<rparr>"
  have st: "copy_to p_digital_outputs [data ! 0] (store c) = Some ((store c)(p_digital_outputs := [data ! 0]))" "can_wf ?c"
    using copy_exact [OF assms(1), of "[data ! 0]" p_digital_outputs] by simp_all
  obtain d where d: "canopen_app_sync_outputs ?c = Some d" "can_wf d" "io_frame ?c d" "link d = link c" "board_shown c \<longrightarrow> app_shown d"
      "outputs_shown c \<longrightarrow> outputs_shown d \<and> [data ! 0] = [s_last_do d]"
    by (rule sync_outputs_run [OF st(2)]) auto
  from d(6) have "outputs_shown c \<longrightarrow> outputs_shown d \<and> digital_outputs_read_all (co_board d) = data ! 0"
    by (simp add: outputs_shown_def)
  with d st(1) assms(2-4) show ?thesis
    by (simp add: canopen_pdo_rx_rpdo_def pdo_wf_def rd_Some io_frame_def app_board_shown)
qed

text \<open>RPDO2 sets the analog outputs whose values the DAC can take.\<close>

lemma rpdo2_effect:
  assumes "can_wf c" "pdo_wf n pdo" "length data = 8" "len \<ge> 4"
  defines "val \<equiv> \<lambda>i. be16 (data ! (2 * i + 1)) (data ! (2 * i))"
  shows "\<exists>d. canopen_pdo_rx_rpdo (0x300 + ucast n) data len True (pdo, c) = Some (True, pdo, d) \<and> can_wf d \<and>
    tx_log d = tx_log c \<and> link d = link c \<and> (app_shown c \<longrightarrow> app_shown d) \<and> (outputs_shown c \<longrightarrow> outputs_shown d \<and>
      (\<forall>i < 2. in_range (val i) \<longrightarrow> dac_out (of_nat i) (hw (co_board d)) = Some (val i)))"
proof -
  let ?st = "(store c)(p_analog_outputs 0 := le16 (val 0))"
  let ?c1 = "c\<lparr>store := ?st\<rparr>"
  let ?c = "c\<lparr>store := ?st(p_analog_outputs 1 := le16 (val 1))\<rparr>"
  have st1: "copy_to (p_analog_outputs 0) (le16 (val 0)) (store c) = Some ?st" "can_wf ?c1"
    using copy_exact [OF assms(1), of "le16 (val 0)" "p_analog_outputs 0"] by simp_all
  have st2: "copy_to (p_analog_outputs 1) (le16 (val 1)) ?st = Some (?st(p_analog_outputs 1 := le16 (val 1)))" "can_wf ?c"
    using copy_exact [OF st1(2), of "le16 (val 1)" "p_analog_outputs 1"] by simp_all
  obtain d where d: "canopen_app_sync_outputs ?c = Some d" "can_wf d" "io_frame ?c d" "link d = link c" "board_shown c \<longrightarrow> app_shown d"
      "outputs_shown c \<longrightarrow> outputs_shown d \<and> (\<forall>i < 2. read_le16 (p_analog_outputs i) (store ?c) = Some (s_last_ao d ! i))"
    by (rule sync_outputs_run [OF st2(2)]) auto
  have "read_le16 (p_analog_outputs i) (store ?c) = Some (val i)" if "i < 2" for i
  proof -
    have "i = 0 \<or> i = 1" using that by arith
    then show ?thesis by (auto simp: read_le16_def le16_def rd_def)
  qed
  then have "outputs_shown c \<longrightarrow> outputs_shown d \<and> (\<forall>i < 2. in_range (val i) \<longrightarrow> dac_out (of_nat i) (hw (co_board d)) = Some (val i))"
    using d(6) by (auto simp: outputs_shown_def)
  moreover have "canopen_pdo_rx_rpdo (0x300 + ucast n) data len True (pdo, c) = Some (True, pdo, d)"
    using st1(1) st2(1) d(1) assms(2-4) by (simp add: canopen_pdo_rx_rpdo_def pdo_wf_def rd_Some val_def numeral_3_eq_3)
  ultimately show ?thesis using d by (simp add: io_frame_def app_board_shown)
qed

lemma rpdo_total:
  assumes "can_wf c" "pdo_wf n pdo" "length data = 8"
  shows "\<exists>r d. canopen_pdo_rx_rpdo cob data len op (pdo, c) = Some (r, pdo, d) \<and> can_wf d \<and>
    (app_shown c \<longrightarrow> app_shown d) \<and> link d = link c \<and> tx_log d = tx_log c \<and> (\<not> op \<longrightarrow> \<not> r \<and> d = c)"
proof (cases "op \<and> (cob = 0x200 + ucast n \<and> len \<ge> 1 \<or> cob = 0x300 + ucast n \<and> len \<ge> 4)")
  case True
  with rpdo1_effect [OF assms] rpdo2_effect [OF assms] show ?thesis by fastforce
next
  case False
  then have "canopen_pdo_rx_rpdo cob data len op (pdo, c) = Some (False, pdo, c)"
    using assms(2) by (auto simp: canopen_pdo_rx_rpdo_def pdo_wf_def)
  with assms show ?thesis by auto
qed

end
