(* ===== verification/Co_Node.thy ===== *)
theory Co_Node
  imports Co_Sdo_Props Co_Pdo
begin

text \<open>
  The CANopen node, \<open>src/canopen/canopen.c\<close>: initialisation, the periodic call, the dispatch of
  received frames, and the accessors that go through the NMT context. The record holds the
  contexts of the components; the pointers to the dictionary's variables are in \<open>Co_Od\<close>.

  A run of the node is a list of the calls \<open>src/main.c\<close> makes. The invariant of the node is proved
  for every call, over any dictionary that meets its contract.
\<close>

section \<open>Operations\<close>

record canopen_node =
  node_id :: u8
  node_od :: canopen_od
  node_nmt :: canopen_nmt
  node_sdo :: canopen_sdo_server
  node_pdo :: canopen_pdo

text \<open>The heartbeat time read from 0x1017, over the default in the variable.\<close>

definition read_heartbeat_ms :: "canopen_od \<Rightarrow> can \<Rightarrow> u16 option" where
  "read_heartbeat_ms od c = do {
     r \<leftarrow> canopen_od_read od 0x1017 0 2 c;
     let bytes = (case r of Inl _ \<Rightarrow> [] | Inr (bytes, _) \<Rightarrow> bytes);
     let hb_ms = bytes @ drop (length bytes) (le16 1000);
     l \<leftarrow> rd hb_ms 0; h \<leftarrow> rd hb_ms 1;
     Some (be16 h l)
   }"

text \<open>\<open>od\<close> is \<open>None\<close> for the null pointer; the inner \<open>None\<close> of the result is the return value false.\<close>

definition canopen_init :: "u8 \<Rightarrow> canopen_od option \<Rightarrow> can \<Rightarrow> ((canopen_node \<times> can) option) option" where
  "canopen_init nid od c =
     (if nid < 1 \<or> nid > 127 then Some None
      else do {
        let (od, c) = (case od of Some od \<Rightarrow> (od, c)
                       | None \<Rightarrow> (canopen_default_od_get, canopen_default_od_update_node_id nid c));
        hb_ms \<leftarrow> read_heartbeat_ms od c;
        let (nmt, c) = canopen_nmt_init nid hb_ms c;
        Some (Some (\<lparr>node_id = nid, node_od = od, node_nmt = nmt,
                     node_sdo = canopen_sdo_init nid od, node_pdo = canopen_pdo_init nid od\<rparr>, c))
      })"

definition is_operational :: "canopen_node \<Rightarrow> bool" where
  "is_operational node \<longleftrightarrow> nmt_state (node_nmt node) = NMT_STATE_OPERATIONAL"

definition canopen_process :: "u32 \<Rightarrow> canopen_node \<times> can \<Rightarrow> (canopen_node \<times> can) option" where
  "canopen_process delta_ms s = (case s of (node, c) \<Rightarrow> do {
     let (nmt, c) = canopen_nmt_process delta_ms (node_nmt node, c);
     let node = node\<lparr>node_nmt := nmt\<rparr>;
     (pdo, c) \<leftarrow> canopen_pdo_process delta_ms (is_operational node) (node_pdo node, c);
     Some (node\<lparr>node_pdo := pdo\<rparr>, c)
   })"

definition canopen_rx_frame :: "u32 \<Rightarrow> u8 list \<Rightarrow> u8 \<Rightarrow> canopen_node \<times> can \<Rightarrow> (bool \<times> canopen_node \<times> can) option" where
  "canopen_rx_frame cob data len s = (case s of (node, c) \<Rightarrow>
     if cob = CANOPEN_COB_NMT then do {
       (r, nmt, c) \<leftarrow> canopen_nmt_rx_command data len (node_nmt node, c);
       Some (r, node\<lparr>node_nmt := nmt\<rparr>, c)
     }
     else if cob = CANOPEN_COB_SYNC then do {
       (pdo, c) \<leftarrow> canopen_pdo_rx_sync (is_operational node) (node_pdo node, c);
       Some (True, node\<lparr>node_pdo := pdo\<rparr>, c)
     }
     else if cob = CANOPEN_COB_RSDO_BASE + ucast (node_id node) then
       if nmt_state (node_nmt node) = NMT_STATE_STOPPED then Some (False, node, c)
       else do {
         (r, sdo, c) \<leftarrow> canopen_sdo_rx_frame data len (node_sdo node, c);
         Some (r, node\<lparr>node_sdo := sdo\<rparr>, c)
       }
     else if cob = CANOPEN_COB_RPDO1_BASE + ucast (node_id node) \<or> cob = CANOPEN_COB_RPDO2_BASE + ucast (node_id node) then do {
       (r, pdo, c) \<leftarrow> canopen_pdo_rx_rpdo cob data len (is_operational node) (node_pdo node, c);
       Some (r, node\<lparr>node_pdo := pdo\<rparr>, c)
     }
     else Some (False, node, c))"

definition canopen_trigger_tpdo1 :: "canopen_node \<times> can \<Rightarrow> (canopen_node \<times> can) option" where
  "canopen_trigger_tpdo1 s = (case s of (node, c) \<Rightarrow>
     if is_operational node then do {
       (_, pdo, c) \<leftarrow> canopen_pdo_send_tpdo1 (node_pdo node, c);
       Some (node\<lparr>node_pdo := pdo\<rparr>, c)
     } else Some (node, c))"

definition canopen_trigger_tpdo2 :: "canopen_node \<times> can \<Rightarrow> (canopen_node \<times> can) option" where
  "canopen_trigger_tpdo2 s = (case s of (node, c) \<Rightarrow>
     if is_operational node then do {
       (_, pdo, c) \<leftarrow> canopen_pdo_send_tpdo2 (node_pdo node, c);
       Some (node\<lparr>node_pdo := pdo\<rparr>, c)
     } else Some (node, c))"

definition canopen_get_nmt_state :: "canopen_node \<Rightarrow> canopen_nmt_state" where
  "canopen_get_nmt_state node = canopen_nmt_get_state (node_nmt node)"

definition canopen_set_nmt_state :: "canopen_nmt_state \<Rightarrow> canopen_node \<Rightarrow> canopen_node" where
  "canopen_set_nmt_state state node = node\<lparr>node_nmt := canopen_nmt_set_state state (node_nmt node)\<rparr>"

section \<open>Runs\<close>

datatype canopen_call =
    Frame u32 "u8 list" u8
  | Tick u32
  | Sync_Outputs
  | Digital_Inputs u8
  | Analog_Input u8 u16
  | Trigger_TPDO1
  | Trigger_TPDO2

fun node_call :: "canopen_call \<Rightarrow> canopen_node \<times> can \<Rightarrow> (canopen_node \<times> can) option" where
  "node_call (Frame cob data len) s = map_option snd (canopen_rx_frame cob data len s)"
| "node_call (Tick delta_ms) s = canopen_process delta_ms s"
| "node_call Sync_Outputs s = map_option (Pair (fst s)) (canopen_app_sync_outputs (snd s))"
| "node_call (Digital_Inputs v) s = map_option (Pair (fst s)) (canopen_set_digital_inputs v (snd s))"
| "node_call (Analog_Input channel v) s = map_option (Pair (fst s)) (canopen_set_analog_input channel v (snd s))"
| "node_call Trigger_TPDO1 s = canopen_trigger_tpdo1 s"
| "node_call Trigger_TPDO2 s = canopen_trigger_tpdo2 s"

fun node_run :: "canopen_call list \<Rightarrow> canopen_node \<times> can \<Rightarrow> (canopen_node \<times> can) option" where
  "node_run [] s = Some s"
| "node_run (e # es) s = do { s \<leftarrow> node_call e s; node_run es s }"

text \<open>A received frame comes in a buffer of eight bytes, whatever its length says.\<close>

fun call_ok :: "canopen_call \<Rightarrow> bool" where
  "call_ok (Frame cob data len) \<longleftrightarrow> length data = 8"
| "call_ok _ \<longleftrightarrow> True"

text \<open>The time that passes in a call, as far as the node is told.\<close>

fun tick :: "canopen_call \<Rightarrow> nat" where
  "tick (Tick delta_ms) = unat delta_ms"
| "tick _ = 0"

section \<open>Invariant\<close>

definition node_wf :: "canopen_od \<Rightarrow> u8 \<Rightarrow> canopen_node \<Rightarrow> bool" where
  "node_wf od n node \<longleftrightarrow> node_id node = n \<and> node_od node = od \<and>
     nmt_node_id (node_nmt node) = n \<and> nmt_wf (node_nmt node) \<and>
     sdo_node_id (node_sdo node) = n \<and> sdo_od (node_sdo node) = od \<and> sdo_wf (node_sdo node) \<and>
     pdo_wf n (node_pdo node)"

definition node_cobs :: "u8 \<Rightarrow> u32 set" where
  "node_cobs n = {CANOPEN_COB_HEARTBEAT_BASE + ucast n, CANOPEN_COB_TSDO_BASE + ucast n,
     CANOPEN_COB_TPDO1_BASE + ucast n, CANOPEN_COB_TPDO2_BASE + ucast n}"

definition node_ok :: "canopen_od \<Rightarrow> u8 \<Rightarrow> canopen_node \<times> can \<Rightarrow> bool" where
  "node_ok od n s \<longleftrightarrow> node_wf od n (fst s) \<and> can_wf (snd s)"

text \<open>The commands addressed to the node in a frame and in a list of calls.\<close>

definition frame_command :: "u8 \<Rightarrow> u32 \<Rightarrow> u8 list \<Rightarrow> u8 \<Rightarrow> nmt_command option" where
  "frame_command n cob data len = (if cob = 0 then command_of n (take (unat len) data) else None)"

fun commands :: "u8 \<Rightarrow> canopen_call list \<Rightarrow> nmt_command list" where
  "commands n (Frame cob data len # es) =
     (case frame_command n cob data len of
        Some k \<Rightarrow> k # commands n es | None \<Rightarrow> commands n es)"
| "commands n (_ # es) = commands n es"
| "commands n [] = []"

text \<open>A frame on the heartbeat identifier of the node was sent.\<close>

definition beats :: "u8 \<Rightarrow> canopen_node \<times> can \<Rightarrow> canopen_node \<times> can \<Rightarrow> bool" where
  "beats n s t \<longleftrightarrow> (\<exists>fs. tx_log (snd t) = tx_log (snd s) @ fs \<and> (\<exists>fr \<in> set fs. cob_id fr = 0x700 + ucast n))"

lemma beats_before: "beats n s t \<Longrightarrow> sends S (snd t) (snd u) \<Longrightarrow> beats n s u"
  by (fastforce simp: beats_def sends_def)

lemma beats_after: "sends S (snd s) (snd t) \<Longrightarrow> beats n t u \<Longrightarrow> beats n s u"
  by (fastforce simp: beats_def sends_def)

lemma cobs_subset: "pdo_cobs n \<subseteq> node_cobs n" "{0x700 + ucast n} \<subseteq> node_cobs n" "0x580 + ucast n \<in> node_cobs n"
  by (auto simp: pdo_cobs_def node_cobs_def)

lemma only_log_kept: "only_log c d \<Longrightarrow> outputs_kept c d"
  by (auto simp: only_log_def outputs_kept_defs inputs_shown_def)

lemma outputs_shown_log:
  assumes "only_log c d"
  shows "app_shown c \<Longrightarrow> app_shown d" "outputs_shown c \<Longrightarrow> outputs_shown d" "link d = link c"
  using assms by (auto simp: only_log_def app_shown_def outputs_shown_def f767_shown_def link_def split: can_app.splits)

lemma outputs_kept_shown: "outputs_kept c d \<Longrightarrow> app_shown c \<Longrightarrow> app_shown d" "outputs_kept c d \<Longrightarrow> link d = link c"
  by (auto simp: outputs_kept_def outputs_same_def intro: outputs_same_shown link_cong)

section \<open>Outputs under SDO access\<close>

lemma sdo_frame_app [simp]:
  "co_app (sdo_send sdo bytes c) = co_app c" "co_app (canopen_sdo_send_abort sdo i k code c) = co_app c"
  "outputs_shown (sdo_send sdo bytes c) = outputs_shown c" "f767_shown io (sdo_send sdo bytes c) = f767_shown io c"
  "outputs_shown (canopen_sdo_send_abort sdo i k code c) = outputs_shown c"
  "f767_shown io (canopen_sdo_send_abort sdo i k code c) = f767_shown io c"
  "outputs_shown (c\<lparr>post_writes := w\<rparr>) = outputs_shown c" "f767_shown io (c\<lparr>post_writes := w\<rparr>) = f767_shown io c"
  by (simp_all add: sdo_send_def canopen_sdo_send_abort_def tx_func_def Let_def split_beta outputs_shown_def f767_shown_def)

lemma shown_upd [simp]:
  "app_shown (c\<lparr>post_writes := w\<rparr>) = app_shown c" "app_shown (sdo_send sdo bytes c) = app_shown c"
  "app_shown (canopen_sdo_send_abort sdo i k code c) = app_shown c" "board_shown (c\<lparr>post_writes := w\<rparr>) = board_shown c"
  "link (c\<lparr>post_writes := w\<rparr>) = link c" "link (sdo_send sdo bytes c) = link c"
  "link (canopen_sdo_send_abort sdo i k code c) = link c"
  by (simp_all add: app_shown_def board_shown_def link_def split: can_app.split)

text \<open>A call keeps what the linked application promises, and the inputs it mirrors.\<close>

definition shows_on :: "can \<Rightarrow> can \<Rightarrow> bool" where
  "shows_on c d \<longleftrightarrow> link d = link c \<and> (app_shown c \<longrightarrow> app_shown d)"

lemma shows_on_refl [simp]: "shows_on c c"
  by (simp add: shows_on_def)

lemma shows_on_trans: "shows_on c d \<Longrightarrow> shows_on d e \<Longrightarrow> shows_on c e"
  by (simp add: shows_on_def)

lemma shows_on_sdo [simp]:
  "shows_on c (sdo_send sdo bytes c)" "shows_on c (canopen_sdo_send_abort sdo i k code c)"
  "shows_on c (sdo_send sdo bytes d) = shows_on c d" "shows_on c (canopen_sdo_send_abort sdo i k code d) = shows_on c d"
  by (simp_all add: shows_on_def)

lemma shows_on_board:
  assumes "shows_on c d"
  shows "outputs_shown c \<Longrightarrow> outputs_shown d" "co_app c = Board_App \<Longrightarrow> co_app d = Board_App"
proof -
  have "co_app d = Board_App \<longleftrightarrow> co_app c = Board_App" using assms link_board by (metis shows_on_def)
  then show "outputs_shown c \<Longrightarrow> outputs_shown d" "co_app c = Board_App \<Longrightarrow> co_app d = Board_App"
    using assms by (auto simp: shows_on_def outputs_shown_app)
qed

lemma kept_shows_on: "outputs_kept c d \<Longrightarrow> shows_on c d"
  using outputs_kept_shown by (simp add: shows_on_def)

lemma app_shown_other:
  assumes "v \<notin> output_vars"
  shows "app_shown (c\<lparr>store := (store c)(v := bs)\<rparr>) = app_shown c"
proof -
  have "p_digital_outputs \<noteq> v" "i < 2 \<Longrightarrow> p_analog_outputs i \<noteq> v" for i
    using assms by (auto simp: output_vars_def less_Suc_eq numeral_2_eq_2)
  then show ?thesis
    by (auto simp: app_shown_def outputs_shown_def f767_shown_def read_le16_def split: can_app.split)
qed

text \<open>The setters of the inputs.\<close>

lemma input_shows_on:
  assumes "can_wf c"
  shows "\<exists>d. canopen_set_digital_inputs v c = Some d \<and> can_wf d \<and> tx_log d = tx_log c \<and> shows_on c d"
    "\<exists>d. canopen_set_analog_input ch x c = Some d \<and> can_wf d \<and> tx_log d = tx_log c \<and> shows_on c d"
proof -
  have other: "p_digital_inputs \<notin> output_vars" "p_analog_inputs i \<notin> output_vars" for i
    by (simp_all add: output_vars_def p_digital_inputs_def p_analog_inputs_def p_digital_outputs_def p_analog_outputs_def)
  obtain d where d: "canopen_set_digital_inputs v c = Some d" "can_wf d" "tx_log d = tx_log c"
    using set_input_total [OF assms] by blast
  then obtain st where "copy_to p_digital_inputs [v] (store c) = Some st" "d = c\<lparr>store := st\<rparr>"
    by (auto simp: canopen_set_digital_inputs_def bind_eq_Some_conv)
  with app_shown_other [OF other(1)] have "shows_on c d" by (auto simp: copy_to_def shows_on_def split: if_split_asm)
  with d show "\<exists>d. canopen_set_digital_inputs v c = Some d \<and> can_wf d \<and> tx_log d = tx_log c \<and> shows_on c d" by blast
  show "\<exists>d. canopen_set_analog_input ch x c = Some d \<and> can_wf d \<and> tx_log d = tx_log c \<and> shows_on c d"
  proof (cases "ch < 4")
    case True
    then have ch: "unat ch < 4" "word_of_nat (unat ch) = ch" by (simp_all add: word_less_nat_alt)
    then obtain d where d: "canopen_set_analog_input ch x c = Some d" "can_wf d" "tx_log d = tx_log c"
      using set_analog_total [OF assms, of "unat ch" x] by auto
    then obtain st where "copy_to (p_analog_inputs (unat ch)) (le16 x) (store c) = Some st" "d = c\<lparr>store := st\<rparr>"
      using True by (auto simp: canopen_set_analog_input_def bind_eq_Some_conv)
    with app_shown_other [OF other(2)] have "shows_on c d" by (auto simp: copy_to_def shows_on_def split: if_split_asm)
    with d show ?thesis by blast
  qed (use assms in \<open>simp add: canopen_set_analog_input_def\<close>)
qed

context object_dictionary
begin

lemma od_write_cases:
  assumes "canopen_od_write od i k src c = Some (code, d)"
  obtains (same) "d = c"
  | (plain) v st w where "copy_to v src (store c) = Some st" "v \<notin> output_vars" "d = c\<lparr>store := st, post_writes := w\<rparr>"
  | (sync) v st w where "copy_to v src (store c) = Some st"
      "canopen_app_sync_outputs (c\<lparr>store := st, post_writes := w\<rparr>) = Some d"
proof (rule find_subindex_cases [where i = i and k = k])
  fix e sub
  assume e: "canopen_od_find_index od i = Some e" "\<not> k \<ge> bEndpoints e" "rd (pSubindex e) (unat k) = Some sub"
    "sub \<in> set (pSubindex e)"
  show thesis
  proof (cases "d = c")
    case False
    obtain v where v: "pObject sub = Some v"
      using e assms False by (cases "pObject sub") (simp_all add: canopen_od_write_def)
    have diff: "canopen_od_write od i k src c \<noteq> Some (x, c)" for x using assms False by simp
    note run = canopen_od_write_def e(1-3) v
    have ok1: "bAccessType sub AND CANOPEN_ACCESS_WRITE_MASK \<noteq> 0" using diff [of SDO_ABORT_WRITE_NOT_ALLOWED] by (auto simp: run)
    have ok2: "\<not> (sub_size sub > 0 \<and> length src > unat (sub_size sub))"
      using diff [of SDO_ABORT_DATA_LENGTH_TOO_HIGH] ok1 by (auto simp: run)
    have ok3: "\<not> (sub_size sub > 0 \<and> length src < unat (sub_size sub))"
      using diff [of SDO_ABORT_DATA_LENGTH_TOO_SHORT] ok1 ok2 by (auto simp: run)
    note ok = ok1 ok2 ok3
    define c1 where "c1 st = (let c = c\<lparr>store := st\<rparr>
      in if s_post_write_cb c then c\<lparr>post_writes := post_writes c @ [(i, k, src)]\<rparr> else c)" for st
    have r: "canopen_od_write od i k src c = do { st \<leftarrow> copy_to v src (store c);
        e \<leftarrow> (if i = 0x6200 \<or> i = 0x6411 then canopen_app_sync_outputs (c1 st) else Some (c1 st)); Some (OD_SUCCESSFUL, e) }"
      using ok by (simp only: run option.case if_False if_True Option.bind_lunit simp_thms c1_def Let_def)
    from assms [unfolded r] obtain st where st: "copy_to v src (store c) = Some st"
        "(if i = 0x6200 \<or> i = 0x6411 then canopen_app_sync_outputs (c1 st) else Some (c1 st)) = Some d"
      by (auto simp: bind_eq_Some_conv simp del: if_split)
    define w where "w = (if s_post_write_cb c then post_writes c @ [(i, k, src)] else post_writes c)"
    have c1: "c1 st = c\<lparr>store := st, post_writes := w\<rparr>" by (simp add: c1_def w_def)
    show thesis
    proof (cases "i = 0x6200 \<or> i = 0x6411")
      case True
      with st(2) c1 that(3) [OF st(1), of w] show thesis by simp
    next
      case False
      with outputs [OF e(1,4) v] have "v \<notin> output_vars" by blast
      with False st(2) c1 that(2) [OF st(1), of w] show thesis by simp
    qed
  qed (rule that(1))
next
  assume "canopen_od_find_index od i = None"
  then show thesis using assms that(1) by (simp add: canopen_od_write_def)
next
  fix e
  assume "canopen_od_find_index od i = Some e" "k \<ge> bEndpoints e"
  then show thesis using assms that(1) by (simp add: canopen_od_write_def)
qed

lemma od_write_shows_on:
  assumes "canopen_od_write od i k src c = Some (code, d)" "can_wf c"
  shows "shows_on c d"
  using assms(1)
proof (cases rule: od_write_cases)
  case (plain v st w)
  then obtain bs where "st = (store c)(v := bs)" by (auto simp: copy_to_def split: if_split_asm)
  with plain(2,3) app_shown_other show ?thesis by (simp add: shows_on_def)
next
  case (sync v st w)
  then have "can_wf (c\<lparr>store := st, post_writes := w\<rparr>)" using can_wf_store [OF assms(2)] by (metis can_wf_upd(2) can.update_convs)
  from sync_outputs_run [OF this] obtain e where
    "canopen_app_sync_outputs (c\<lparr>store := st, post_writes := w\<rparr>) = Some e" "link e = link c" "board_shown c \<longrightarrow> app_shown e"
    by (metis outputs_shown_store(2,3) shown_upd(4,5) can.update_convs)
  with sync(2) show ?thesis using app_board_shown by (simp add: shows_on_def)
qed simp

lemma sdo_rx_shown:
  assumes "canopen_sdo_rx_frame data len (sdo, c) = Some (r, sdo', d)" "can_wf c" "sdo_od sdo = od"
  shows "shows_on c d"
proof -
  have "shows_on c d" if "sdo_initiate_download data (sdo, c) = Some (sdo', d)" for sdo' d
    using that assms(2,3) od_write_shows_on
    by (auto simp: sdo_initiate_download_def Let_def bind_eq_Some_conv split: if_splits)
  moreover have "shows_on c d" if u: "sdo_initiate_upload data (sdo, c) = Some (sdo', d)" for sdo' d
  proof -
    have obj: "shows_on c d" if "sdo_upload_object b1 b2 k sub v (sdo, c) = Some (sdo', d)" for b1 b2 k sub v
      using that assms(3) by (auto simp: sdo_upload_object_def Let_def bind_eq_Some_conv split: if_split_asm)
    obtain b1 b2 k where b: "rd data 1 = Some b1" "rd data 2 = Some b2" "rd data 3 = Some k"
      using u by (auto simp: sdo_initiate_upload_def bind_eq_Some_conv)
    show ?thesis
    proof (cases "canopen_od_find_index (sdo_od sdo) (be16 b2 b1)")
      case (Some e)
      show ?thesis
      proof (cases "bEndpoints e \<le> k")
        case False
        with u b Some obtain sub where "rd (pSubindex e) (unat k) = Some sub"
          by (auto simp: sdo_initiate_upload_def Let_def bind_eq_Some_conv)
        with u b Some False assms(3) obj show ?thesis
          by (cases "pObject sub") (auto simp: sdo_initiate_upload_def split: if_split_asm)
      qed (use u b Some assms(3) in \<open>auto simp: sdo_initiate_upload_def\<close>)
    qed (use u b assms(3) in \<open>auto simp: sdo_initiate_upload_def\<close>)
  qed
  moreover have "shows_on c d" if "sdo_upload_segment data (sdo, c) = Some (sdo', d)" for sdo' d
    using that assms(3)
    by (auto simp: sdo_upload_segment_def Let_def bind_eq_Some_conv split: if_splits)
  ultimately show ?thesis
    using assms(1,3) by (auto simp: canopen_sdo_rx_frame_def Let_def bind_eq_Some_conv split: if_splits)
qed

end

section \<open>Every call\<close>

context object_dictionary
begin

text \<open>One call: in bounds, the invariant kept, only the node's identifiers used.\<close>

definition call_keeps :: "u8 \<Rightarrow> canopen_node \<times> can \<Rightarrow> canopen_node \<times> can \<Rightarrow> bool" where
  "call_keeps n s t \<longleftrightarrow> node_ok od n t \<and> sends (node_cobs n) (snd s) (snd t) \<and>
     shows_on (snd s) (snd t)"

lemma pdo_call_keeps:
  assumes "node_ok od n (node, c)" "pdo_step n c (pdo, d)"
  shows "call_keeps n (node, c) (node\<lparr>node_pdo := pdo\<rparr>, d)"
  using assms kept_shows_on sends_mono [OF _ cobs_subset(1)]
  by (auto simp: call_keeps_def node_ok_def node_wf_def pdo_step_def)

lemma nmt_call_keeps:
  assumes "node_ok od n (node, c)" "nmt_node_id nmt = n" "nmt_wf nmt" "only_log c d" "sends {0x700 + ucast n} c d"
  shows "call_keeps n (node, c) (node\<lparr>node_nmt := nmt\<rparr>, d)"
  using assms sends_mono [OF assms(5) cobs_subset(2)] only_log_wf [OF assms(4)] kept_shows_on [OF only_log_kept [OF assms(4)]]
  by (simp add: call_keeps_def node_ok_def node_wf_def)

lemma call_keeps_trans: "call_keeps n s t \<Longrightarrow> call_keeps n t u \<Longrightarrow> call_keeps n s u"
  by (auto simp: call_keeps_def intro: sends_trans shows_on_trans)

lemma call_keeps_refl: "node_ok od n s \<Longrightarrow> call_keeps n s s"
  by (simp add: call_keeps_def sends_refl)

lemma process_keeps:
  assumes "node_ok od n (node, c)"
  shows "\<exists>t. canopen_process delta (node, c) = Some t \<and> call_keeps n (node, c) t \<and>
    node_nmt (fst t) = fst (canopen_nmt_process delta (node_nmt node, c)) \<and>
    (\<exists>fs. tx_log (snd t) = tx_log (snd (canopen_nmt_process delta (node_nmt node, c))) @ fs) \<and> outputs_kept c (snd t)"
proof -
  obtain nmt c1 where nmt: "canopen_nmt_process delta (node_nmt node, c) = (nmt, c1)" by fastforce
  let ?node = "node\<lparr>node_nmt := nmt\<rparr>"
  have k: "call_keeps n (node, c) (?node, c1)"
    using assms nmt_process_log [of "(node_nmt node, c)" delta] nmt_process_frame(1) [of delta "(node_nmt node, c)"]
      nmt_wf_process [of "(node_nmt node, c)" delta]
    by (intro nmt_call_keeps) (simp_all add: nmt node_ok_def node_wf_def)
  then have "can_wf c1" "pdo_wf n (node_pdo node)" by (simp_all add: call_keeps_def node_ok_def node_wf_def)
  then obtain pdo d where p: "canopen_pdo_process delta (is_operational ?node) (node_pdo node, c1) = Some (pdo, d)"
      "pdo_step n c1 (pdo, d)"
    using pdo_process_total [of c1 n "node_pdo node" delta "is_operational ?node"] by (metis surj_pair)
  have "call_keeps n (?node, c1) (?node\<lparr>node_pdo := pdo\<rparr>, d)"
    using k p(2) by (intro pdo_call_keeps) (simp_all add: call_keeps_def)
  with k have "call_keeps n (node, c) (?node\<lparr>node_pdo := pdo\<rparr>, d)" by (rule call_keeps_trans)
  moreover have "\<exists>fs. tx_log d = tx_log c1 @ fs" using p(2) by (auto simp: pdo_step_def sends_def)
  moreover have "outputs_kept c c1"
    using nmt_process_log [of "(node_nmt node, c)" delta] by (simp add: nmt only_log_kept)
  then have "outputs_kept c d" using p(2) by (auto simp: pdo_step_def intro: outputs_kept_trans)
  ultimately show ?thesis using nmt p(1) by (simp add: canopen_process_def)
qed

lemma rx_frame_keeps:
  assumes "node_ok od n (node, c)" "length data = 8"
  shows "\<exists>r t. canopen_rx_frame cob data len (node, c) = Some (r, t) \<and> call_keeps n (node, c) t \<and>
    node_nmt (fst t) = fst (nmt_effect (frame_command n cob data len) (node_nmt node, c)) \<and>
    (frame_command n cob data len \<in> {Some Reset_Node, Some Reset_Communication} \<longrightarrow>
       tx_log (snd t) = tx_log c @ [heartbeat_frame n 0])"
proof -
  have w: "can_wf c" "node_id node = n" "node_od node = od" "nmt_node_id (node_nmt node) = n"
    "nmt_wf (node_nmt node)" "sdo_node_id (node_sdo node) = n" "sdo_od (node_sdo node) = od" "sdo_wf (node_sdo node)"
    "pdo_wf n (node_pdo node)"
    using assms(1) by (simp_all add: node_ok_def node_wf_def)
  consider (nmt) "cob = 0" | (sync) "cob = 0x80" | (sdo) "cob = 0x600 + ucast n" "cob \<noteq> 0" "cob \<noteq> 0x80"
    | (rpdo) "cob = 0x200 + ucast n \<or> cob = 0x300 + ucast n" "cob \<noteq> 0" "cob \<noteq> 0x80" "cob \<noteq> 0x600 + ucast n"
    | (other) "cob \<noteq> 0" "cob \<noteq> 0x80" "cob \<noteq> 0x600 + ucast n" "cob \<noteq> 0x200 + ucast n" "cob \<noteq> 0x300 + ucast n"
    by blast
  moreover have none: "frame_command n cob data len = None" "nmt_effect None (node_nmt node, c) = (node_nmt node, c)" if "cob \<noteq> 0"
    using that by (simp_all add: frame_command_def nmt_effect_def)
  ultimately show ?thesis
  proof cases
    case nmt
    let ?k = "command_of n (take (unat len) data)"
    obtain nmt' d where e: "nmt_effect ?k (node_nmt node, c) = (nmt', d)" by fastforce
    have "canopen_nmt_rx_command data len (node_nmt node, c) = Some (?k \<noteq> None, nmt', d)"
      using rx_command_effect [of data len "(node_nmt node, c)"] assms(2) w(4) by (simp add: e)
    moreover have "call_keeps n (node, c) (node\<lparr>node_nmt := nmt'\<rparr>, d)"
      using assms(1) w nmt_effect_log [of "(node_nmt node, c)" ?k] nmt_effect_frame(1) [of ?k "(node_nmt node, c)"]
        nmt_wf_effect [of "(node_nmt node, c)" ?k]
      by (intro nmt_call_keeps) (simp_all add: e)
    moreover have "?k \<in> {Some Reset_Node, Some Reset_Communication} \<Longrightarrow> tx_log d = tx_log c @ [heartbeat_frame n 0]"
      using e w(4) by (auto simp: nmt_effect_def Let_def)
    ultimately show ?thesis using nmt e by (simp add: canopen_rx_frame_def frame_command_def)
  next
    case sync
    obtain pdo d where p: "canopen_pdo_rx_sync (is_operational node) (node_pdo node, c) = Some (pdo, d)" "pdo_step n c (pdo, d)"
      using pdo_sync_total [OF w(1,9), of "is_operational node"] by (metis surj_pair)
    with pdo_call_keeps [OF assms(1) p(2)] sync none show ?thesis by (auto simp: canopen_rx_frame_def)
  next
    case sdo
    show ?thesis
    proof (cases "nmt_state (node_nmt node) = NMT_STATE_STOPPED")
      case True
      with sdo w call_keeps_refl [OF assms(1)] none show ?thesis by (auto simp: canopen_rx_frame_def)
    next
      case False
      obtain t where t: "canopen_sdo_rx_frame data len (node_sdo node, c) = Some (len = 8, t)" "sdo_wf (fst t)" "can_wf (snd t)"
          "sdo_od (fst t) = od" "sdo_node_id (fst t) = n"
          "if len = 8 \<and> data ! 0 \<noteq> 0x80 then \<exists>bytes. answered (node_sdo node, c) t bytes else tx_log (snd t) = tx_log c"
        using sdo_rx_total [OF w(1,8,7) assms(2), of len] w(6) by blast
      obtain sdo' d where d: "t = (sdo', d)" by (cases t)
      from t(6) have "(\<exists>bytes. answered (node_sdo node, c) (sdo', d) bytes) \<or> tx_log d = tx_log c"
        unfolding d by (simp split: if_split_asm)
      with t d have r: "canopen_sdo_rx_frame data len (node_sdo node, c) = Some (len = 8, sdo', d)" "sdo_wf sdo'" "can_wf d"
          "sdo_od sdo' = od" "sdo_node_id sdo' = n"
          "(\<exists>bytes. answered (node_sdo node, c) (sdo', d) bytes) \<or> tx_log d = tx_log c" by simp_all
      have "sends (node_cobs n) c d"
        using r(6) w(6) cobs_subset(3) by (auto simp: answered_def sdo_frame_def intro: sends_refl sends_one)
      with r w sdo_rx_shown [OF r(1) w(1,7)] assms(1) have "call_keeps n (node, c) (node\<lparr>node_sdo := sdo'\<rparr>, d)"
        by (simp add: call_keeps_def node_ok_def node_wf_def)
      with r(1) False sdo w(2) none show ?thesis by (simp add: canopen_rx_frame_def)
    qed
  next
    case rpdo
    obtain r d where p: "canopen_pdo_rx_rpdo cob data len (is_operational node) (node_pdo node, c) = Some (r, node_pdo node, d)"
        "can_wf d" "app_shown c \<longrightarrow> app_shown d" "link d = link c" "tx_log d = tx_log c"
      using rpdo_total [OF w(1,9) assms(2)] by blast
    with assms(1) w rpdo none show ?thesis
      by (auto simp: canopen_rx_frame_def call_keeps_def node_ok_def shows_on_def intro: sends_refl)
  next
    case other
    with call_keeps_refl [OF assms(1)] w none show ?thesis by (auto simp: canopen_rx_frame_def)
  qed
qed

lemma trigger_keeps:
  assumes "node_ok od n (node, c)"
  shows "\<exists>t. canopen_trigger_tpdo1 (node, c) = Some t \<and> call_keeps n (node, c) t \<and> node_nmt (fst t) = node_nmt node"
    "\<exists>t. canopen_trigger_tpdo2 (node, c) = Some t \<and> call_keeps n (node, c) t \<and> node_nmt (fst t) = node_nmt node"
proof -
  have w: "can_wf c" "pdo_wf n (node_pdo node)" using assms by (simp_all add: node_ok_def node_wf_def)
  obtain r pdo d where 1: "canopen_pdo_send_tpdo1 (node_pdo node, c) = Some (r, pdo, d)" "pdo_step n c (pdo, d)"
    using send_tpdo1_total [OF w] by (metis surj_pair)
  obtain r' pdo' d' where 2: "canopen_pdo_send_tpdo2 (node_pdo node, c) = Some (r', pdo', d')" "pdo_step n c (pdo', d')"
    using send_tpdo2_total [OF w] by (metis surj_pair)
  show "\<exists>t. canopen_trigger_tpdo1 (node, c) = Some t \<and> call_keeps n (node, c) t \<and> node_nmt (fst t) = node_nmt node"
    using 1(1) pdo_call_keeps [OF assms 1(2)] call_keeps_refl [OF assms] by (simp add: canopen_trigger_tpdo1_def)
  show "\<exists>t. canopen_trigger_tpdo2 (node, c) = Some t \<and> call_keeps n (node, c) t \<and> node_nmt (fst t) = node_nmt node"
    using 2(1) pdo_call_keeps [OF assms 2(2)] call_keeps_refl [OF assms] by (simp add: canopen_trigger_tpdo2_def)
qed

lemma io_keeps:
  assumes "node_ok od n (node, c)" "can_wf d" "shows_on c d" "tx_log d = tx_log c"
  shows "call_keeps n (node, c) (node, d)"
  using assms by (simp add: call_keeps_def node_ok_def sends_refl)

lemma input_keeps:
  assumes "node_ok od n (node, c)"
  shows "\<exists>d. canopen_set_digital_inputs v c = Some d \<and> call_keeps n (node, c) (node, d)"
    "\<exists>d. canopen_set_analog_input ch x c = Some d \<and> call_keeps n (node, c) (node, d)"
    "\<exists>d. canopen_app_sync_outputs c = Some d \<and> call_keeps n (node, c) (node, d)"
proof -
  have w: "can_wf c" using assms by (simp_all add: node_ok_def)
  obtain d where "canopen_set_digital_inputs v c = Some d" "can_wf d" "tx_log d = tx_log c" "shows_on c d"
    using input_shows_on(1) [OF w] by blast
  with io_keeps [OF assms] show "\<exists>d. canopen_set_digital_inputs v c = Some d \<and> call_keeps n (node, c) (node, d)" by blast
  obtain d where "canopen_set_analog_input ch x c = Some d" "can_wf d" "tx_log d = tx_log c" "shows_on c d"
    using input_shows_on(2) [OF w] by blast
  with io_keeps [OF assms] show "\<exists>d. canopen_set_analog_input ch x c = Some d \<and> call_keeps n (node, c) (node, d)" by blast
  obtain d where d: "canopen_app_sync_outputs c = Some d" "can_wf d" "io_frame c d" "link d = link c" "board_shown c \<longrightarrow> app_shown d"
    by (rule sync_outputs_run [OF w])
  then have "shows_on c d" using app_board_shown by (simp add: shows_on_def)
  with d io_keeps [OF assms, of d]
  show "\<exists>d. canopen_app_sync_outputs c = Some d \<and> call_keeps n (node, c) (node, d)" by (simp add: io_frame_def)
qed

text \<open>The countdown of the heartbeat in one call: it was sent, or the timer has run down by the time passed.\<close>

definition countdown :: "u8 \<Rightarrow> nat \<Rightarrow> canopen_node \<times> can \<Rightarrow> canopen_node \<times> can \<Rightarrow> bool" where
  "countdown n dt s t \<longleftrightarrow> heartbeat_period_ms (node_nmt (fst t)) = heartbeat_period_ms (node_nmt (fst s)) \<and>
     (0 < heartbeat_period_ms (node_nmt (fst s)) \<longrightarrow> beats n s t \<or>
       unat (heartbeat_timer_ms (node_nmt (fst t))) = unat (heartbeat_timer_ms (node_nmt (fst s))) - dt \<and>
       dt < unat (heartbeat_timer_ms (node_nmt (fst s))))"

lemma countdown_same:
  assumes "node_ok od n s" "node_nmt (fst t) = node_nmt (fst s)"
  shows "countdown n 0 s t"
  using assms by (auto simp: countdown_def node_ok_def node_wf_def nmt_wf_def word_less_nat_alt)

lemma process_countdown:
  assumes "node_ok od n (node, c)" "node_nmt (fst t) = fst (canopen_nmt_process delta (node_nmt node, c))"
    "tx_log (snd t) = tx_log (snd (canopen_nmt_process delta (node_nmt node, c))) @ fs"
  shows "countdown n (unat delta) (node, c) t"
proof (cases "0 < heartbeat_period_ms (node_nmt node)")
  case True
  have id: "nmt_node_id (node_nmt node) = n" using assms(1) by (simp add: node_ok_def node_wf_def)
  from True show ?thesis
  proof (cases rule: nmt_process_cases [where d = delta and c = c])
    case beat
    with assms(2,3) id show ?thesis by (simp add: countdown_def beats_def)
  next
    case (wait t')
    with assms(2,3) show ?thesis by (simp add: countdown_def)
  qed
qed (use assms(2) in \<open>simp add: countdown_def\<close>)

lemma frame_countdown:
  assumes "node_ok od n (node, c)" "node_nmt (fst t) = fst (nmt_effect k (node_nmt node, c))"
    "k \<in> {Some Reset_Node, Some Reset_Communication} \<longrightarrow> tx_log (snd t) = tx_log c @ [heartbeat_frame n 0]"
  shows "countdown n 0 (node, c) t"
proof (cases "k \<in> {Some Reset_Node, Some Reset_Communication}")
  case True
  with assms(2,3) show ?thesis by (auto simp: countdown_def beats_def)
next
  case False
  then have "heartbeat_timer_ms (node_nmt (fst t)) = heartbeat_timer_ms (node_nmt node)"
    using assms(2) by (auto simp: nmt_effect_def Let_def split: option.splits)
  then show ?thesis
    using assms(1,2) by (auto simp: countdown_def node_ok_def node_wf_def nmt_wf_def word_less_nat_alt)
qed

lemma node_call_keeps:
  assumes "node_ok od n s" "call_ok e"
  shows "\<exists>t. node_call e s = Some t \<and> call_keeps n s t \<and> countdown n (tick e) s t \<and>
    nmt_state (node_nmt (fst t)) = foldl (\<lambda>_. after_command) (nmt_state (node_nmt (fst s))) (commands n [e])"
proof -
  obtain node c where s: "s = (node, c)" by fastforce
  note ok = assms(1) [unfolded s]
  show ?thesis
  proof (cases e)
    case (Frame cob data len)
    then have "length data = 8" using assms(2) by simp
    from rx_frame_keeps [OF ok this, of cob len] obtain r t where
      t: "canopen_rx_frame cob data len (node, c) = Some (r, t)" "call_keeps n (node, c) t"
        "node_nmt (fst t) = fst (nmt_effect (frame_command n cob data len) (node_nmt node, c))"
        "frame_command n cob data len \<in> {Some Reset_Node, Some Reset_Communication} \<longrightarrow> tx_log (snd t) = tx_log c @ [heartbeat_frame n 0]"
      by blast
    from frame_countdown [OF ok t(3,4)] t(1-3) Frame s show ?thesis by (auto split: option.split)
  next
    case (Tick delta)
    from process_keeps [OF ok, of delta] obtain t fs where
      t: "canopen_process delta (node, c) = Some t" "call_keeps n (node, c) t"
        "node_nmt (fst t) = fst (canopen_nmt_process delta (node_nmt node, c))"
        "tx_log (snd t) = tx_log (snd (canopen_nmt_process delta (node_nmt node, c))) @ fs"
      by blast
    from process_countdown [OF ok t(3,4)] t Tick s show ?thesis by simp
  next
    case Sync_Outputs
    from input_keeps(3) [OF ok] obtain d where "canopen_app_sync_outputs c = Some d" "call_keeps n (node, c) (node, d)" by blast
    with countdown_same [OF ok, of "(node, d)"] Sync_Outputs s show ?thesis by simp
  next
    case (Digital_Inputs v)
    from input_keeps(1) [OF ok] obtain d where "canopen_set_digital_inputs v c = Some d" "call_keeps n (node, c) (node, d)" by blast
    with countdown_same [OF ok, of "(node, d)"] Digital_Inputs s show ?thesis by simp
  next
    case (Analog_Input ch w)
    from input_keeps(2) [OF ok] obtain d where "canopen_set_analog_input ch w c = Some d" "call_keeps n (node, c) (node, d)" by blast
    with countdown_same [OF ok, of "(node, d)"] Analog_Input s show ?thesis by simp
  next
    case Trigger_TPDO1
    from trigger_keeps(1) [OF ok] obtain t where "canopen_trigger_tpdo1 (node, c) = Some t" "call_keeps n (node, c) t"
      "node_nmt (fst t) = node_nmt node" by blast
    with countdown_same [OF ok, of t] Trigger_TPDO1 s show ?thesis by simp
  next
    case Trigger_TPDO2
    from trigger_keeps(2) [OF ok] obtain t where "canopen_trigger_tpdo2 (node, c) = Some t" "call_keeps n (node, c) t"
      "node_nmt (fst t) = node_nmt node" by blast
    with countdown_same [OF ok, of t] Trigger_TPDO2 s show ?thesis by simp
  qed
qed

lemma commands_Cons: "commands n (e # es) = commands n [e] @ commands n es"
  by (cases e) (auto split: option.split)

lemma node_run_keeps:
  assumes "node_ok od n s" "\<forall>e \<in> set es. call_ok e"
  shows "\<exists>t. node_run es s = Some t \<and> call_keeps n s t \<and>
    nmt_state (node_nmt (fst t)) = foldl (\<lambda>_. after_command) (nmt_state (node_nmt (fst s))) (commands n es)"
  using assms
proof (induction es arbitrary: s)
  case Nil
  then show ?case by (simp add: call_keeps_refl)
next
  case (Cons e es)
  obtain t where t: "node_call e s = Some t" "call_keeps n s t"
      "nmt_state (node_nmt (fst t)) = foldl (\<lambda>_. after_command) (nmt_state (node_nmt (fst s))) (commands n [e])"
    using node_call_keeps [OF Cons.prems(1), of e] Cons.prems(2) by auto
  then have "node_ok od n t" by (simp add: call_keeps_def)
  from Cons.IH [OF this] Cons.prems(2) obtain u where "node_run es t = Some u" "call_keeps n t u"
      "nmt_state (node_nmt (fst u)) = foldl (\<lambda>_. after_command) (nmt_state (node_nmt (fst t))) (commands n es)"
    by auto
  with t show ?case by (subst commands_Cons) (auto intro: call_keeps_trans)
qed

text \<open>Once the time passed reaches the timer, a frame on the heartbeat identifier was sent.\<close>

lemma node_run_beats:
  assumes "node_ok od n s" "\<forall>e \<in> set es. call_ok e" "0 < heartbeat_period_ms (node_nmt (fst s))"
    and "unat (heartbeat_timer_ms (node_nmt (fst s))) \<le> sum_list (map tick es)" "node_run es s = Some u"
  shows "beats n s u"
  using assms
proof (induction es arbitrary: s)
  case Nil
  then show ?case by (simp add: node_ok_def node_wf_def nmt_wf_def word_less_nat_alt)
next
  case (Cons e es)
  obtain t where t: "node_call e s = Some t" "call_keeps n s t" "countdown n (tick e) s t"
    using node_call_keeps [OF Cons.prems(1), of e] Cons.prems(2) by auto
  then have ok: "node_ok od n t" "sends (node_cobs n) (snd s) (snd t)" by (simp_all add: call_keeps_def)
  have run: "node_run es t = Some u" using Cons.prems(5) t(1) by simp
  show ?case
  proof (cases "beats n s t")
    case True
    have "call_keeps n t u" using node_run_keeps [OF ok(1), of es] Cons.prems(2) run by auto
    with True show ?thesis by (auto simp: call_keeps_def intro: beats_before)
  next
    case False
    with t(3) Cons.prems(3) have "0 < heartbeat_period_ms (node_nmt (fst t))"
        "unat (heartbeat_timer_ms (node_nmt (fst t))) = unat (heartbeat_timer_ms (node_nmt (fst s))) - tick e"
      by (auto simp: countdown_def)
    with Cons.IH [OF ok(1) _ _ _ run] Cons.prems(2,4) have "beats n t u" by simp
    with ok(2) show ?thesis by (rule beats_after)
  qed
qed

end

end
