(* ===== verification/Co_Spec.thy ===== *)
theory Co_Spec
  imports Co_Node
begin

text \<open>
  The properties of the CANopen node, over the states it reaches after \<open>main\<close> has initialised the
  board and called \<open>canopen_init\<close> with the default dictionary: \<open>co_reach n\<close> for node identifier \<open>n\<close>.
  They rest on the lemmas of \<open>object_dictionary\<close>, through its interpretation on the default
  dictionary.
\<close>

section \<open>Start\<close>

text \<open>The initialisers of the statics, and the board as \<open>main\<close> leaves it before \<open>canopen_init\<close>.\<close>

definition power_on :: "can \<Rightarrow> bool" where
  "power_on c \<longleftrightarrow> can_wf c \<and> co_app c = Board_App \<and> s_last_do c = 0 \<and> s_last_ao c = [0, 0] \<and>
     (\<exists>b. co_board c = analog_outputs_init (relays_init (digital_outputs_init b)))"

inductive co_reach :: "u8 \<Rightarrow> canopen_node \<times> can \<Rightarrow> bool" for n where
  start: "power_on c \<Longrightarrow> canopen_init n None c = Some (Some s) \<Longrightarrow> co_reach n s"
| call: "co_reach n s \<Longrightarrow> call_ok e \<Longrightarrow> node_call e s = Some t \<Longrightarrow> co_reach n t"

lemma relays_init_frame [simp]: "digital_output_states (relays_init b) = digital_output_states b"
proof -
  have "digital_output_states (fold (\<lambda>i. relay_led_update (of_nat i) v) is b) = digital_output_states b" for v "is" b
    by (induction "is" arbitrary: b) (simp_all add: relay_led_update_def emit_def)
  then show ?thesis by (simp add: relays_init_def relays_set_all_def emit_def Let_def split_beta)
qed

lemma power_on_shown:
  assumes "power_on c"
  shows "outputs_shown c"
proof -
  obtain b where b: "co_board c = analog_output_write_raw 1 0 (analog_output_write_raw 0 0 (relays_init (digital_outputs_init b)))"
    using assms by (auto simp: power_on_def analog_outputs_init_def)
  have "dac_out (of_nat i) (hw (co_board c)) = Some 0" if "i < 2" for i
    using that dac_out_write_raw [of 1 i 0] dac_out_write_raw [of 0 i 0] by (auto simp: b)
  moreover have "digital_output_states (digital_outputs_init b) = 0" by (simp add: digital_outputs_init_def)
  ultimately show ?thesis
    using assms by (auto simp: outputs_shown_def power_on_def b digital_outputs_read_all_def less_Suc_eq numeral_2_eq_2
        analog_output_write_raw_def emit_def)
qed

lemma set_var_wf: "can_wf (c\<lparr>store := st\<rparr>) \<Longrightarrow> length bs = length (boot_store v) \<Longrightarrow> can_wf (c\<lparr>store := set_var v bs st\<rparr>)"
  by (auto simp: can_wf_def set_var_def)

lemma reset_wf:
  assumes "can_wf c"
  shows "can_wf (canopen_default_od_reset c)"
proof -
  have "length (boot_store (0x1001, 0)) = 1" by (simp add: boot_store_def Board_vars_def)
  moreover have "can_wf (c\<lparr>store := store c\<rparr>)" using assms by simp
  ultimately show ?thesis
    unfolding canopen_default_od_reset_def comp_def by (intro set_var_wf; simp)
qed

lemma update_node_id_wf:
  assumes "can_wf c"
  shows "can_wf (canopen_default_od_update_node_id n c)"
proof -
  have "length (boot_store (0x1400, 1)) = 4" "length (boot_store (0x1401, 1)) = 4"
    "length (boot_store (0x1800, 1)) = 4" "length (boot_store (0x1801, 1)) = 4"
    by (simp_all add: boot_store_def Board_vars_def)
  moreover have "can_wf (c\<lparr>store := store c\<rparr>)" using assms by simp
  ultimately show ?thesis
    unfolding canopen_default_od_update_node_id_def comp_def by (intro reset_wf set_var_wf; simp)
qed

lemma update_node_id_frame [simp]:
  "outputs_shown (canopen_default_od_update_node_id n c) = outputs_shown c"
  "tx_log (canopen_default_od_update_node_id n c) = tx_log c"
  "co_board (canopen_default_od_update_node_id n c) = co_board c"
  "co_app (canopen_default_od_update_node_id n c) = co_app c"
  "store (canopen_default_od_update_node_id n c) (0x1017, 0) = store c (0x1017, 0)"
  "store (canopen_default_od_update_node_id n c) p_digital_outputs = [0]"
  "store (canopen_default_od_update_node_id n c) (p_analog_outputs 0) = le16 0"
  "store (canopen_default_od_update_node_id n c) (p_analog_outputs (Suc 0)) = le16 0"
  by (simp_all add: canopen_default_od_update_node_id_def canopen_default_od_reset_def set_var_def
      p_digital_outputs_def p_analog_outputs_def)

text \<open>The rows of the default dictionary the properties look at.\<close>

lemma board_object_1017: "board_od.object 0x1017 0 (row 0x1017 0 rw 0x06 2) (0x1017, 0)"
  unfolding board_od.object_def
  by (simp add: canopen_od_find_subindex_def canopen_default_od_get_def Board_objdict_def entry_def row_def word_le_nat_alt)

lemma board_object_1008: "board_od.object 0x1008 0 (row 0x1008 0 ro 0x09 22) (0x1008, 0)"
  unfolding board_od.object_def
  by (simp add: canopen_od_find_subindex_def canopen_default_od_get_def Board_objdict_def entry_def row_def word_le_nat_alt)

lemma board_object_6411: "board_od.object 0x6411 1 (row 0x6411 1 rw 0x03 2) (0x6411, 1)"
  unfolding board_od.object_def
  by (simp add: canopen_od_find_subindex_def canopen_default_od_get_def Board_objdict_def entry_def row_def word_le_nat_alt)

lemma board_access:
  "\<forall>e \<in> set Board_objdict. \<forall>sub \<in> set (pSubindex e). bAccessType sub AND 0x04 \<noteq> 0 \<and>
     (bAccessType sub AND 0x02 \<noteq> 0 \<longrightarrow> sub_size sub \<le> 4)"
  by (simp add: Board_objdict_def entry_def row_def ro_def rw_def)

lemma board_object_access:
  assumes "board_od.object i k sub v"
  shows "readable sub" "writable sub \<Longrightarrow> sub_size sub \<le> 4"
proof -
  obtain e where "canopen_od_find_index canopen_default_od_get i = Some e" "sub \<in> set (pSubindex e)"
    using board_od.object_cases [OF assms] by metis
  then have "e \<in> set Board_objdict" "sub \<in> set (pSubindex e)" using find_index_in by (auto simp: canopen_default_od_get_def)
  with board_access show "readable sub" "writable sub \<Longrightarrow> sub_size sub \<le> 4"
    by (auto simp: readable_def writable_def)
qed

lemma heartbeat_read:
  assumes "can_wf c"
  shows "\<exists>h l. store c (0x1017, 0) = [l, h] \<and> read_heartbeat_ms canopen_default_od_get c = Some (be16 h l)"
proof -
  have "length (store c (0x1017, 0)) = 2" using assms by (simp add: can_wf_size)
  then obtain l h where lh: "store c (0x1017, 0) = [l, h]" by (auto simp: length_Suc_conv numeral_2_eq_2)
  with board_od.od_read_object [OF assms board_object_1017 board_object_access(1) [OF board_object_1017], of 2]
  show ?thesis by (simp add: read_heartbeat_ms_def row_def Let_def)
qed

lemma init_ok:
  assumes "can_wf c" "1 \<le> n" "n \<le> 127"
  shows "\<exists>s h l. canopen_init n None c = Some (Some s) \<and> node_ok canopen_default_od_get n s \<and>
    (outputs_shown c \<longrightarrow> outputs_shown (snd s)) \<and> co_board (snd s) = co_board c \<and> co_app (snd s) = co_app c \<and>
    store (snd s) p_digital_outputs = [0] \<and> store (snd s) (p_analog_outputs 0) = le16 0 \<and> store (snd s) (p_analog_outputs 1) = le16 0 \<and>
    tx_log (snd s) = tx_log c @ [heartbeat_frame n 0] \<and> nmt_state (node_nmt (fst s)) = NMT_STATE_PRE_OPERATIONAL \<and>
    store c (0x1017, 0) = [l, h] \<and> heartbeat_period_ms (node_nmt (fst s)) = be16 h l"
proof -
  let ?c = "canopen_default_od_update_node_id n c"
  have w: "can_wf ?c" by (rule update_node_id_wf [OF assms(1)])
  obtain h l where hb: "store c (0x1017, 0) = [l, h]" "read_heartbeat_ms canopen_default_od_get ?c = Some (be16 h l)"
    using heartbeat_read [OF w] by auto
  obtain nmt d where nmt: "canopen_nmt_init n (be16 h l) ?c = (nmt, d)" by fastforce
  have d: "only_log ?c d" "tx_log d = tx_log c @ [heartbeat_frame n 0]" "nmt_node_id nmt = n" "nmt_wf nmt"
      "nmt_state nmt = NMT_STATE_PRE_OPERATIONAL" "heartbeat_period_ms nmt = be16 h l"
    using nmt nmt_wf_init [of n "be16 h l" ?c] by (auto simp: canopen_nmt_init_def Let_def canopen_nmt_send_bootup_def)
  have "n \<noteq> 0" using assms(2) by (auto simp: word_le_nat_alt)
  have "can_wf d" "outputs_shown c \<longrightarrow> outputs_shown d" "co_board d = co_board c" "co_app d = co_app c"
      "store d p_digital_outputs = [0]" "store d (p_analog_outputs 0) = le16 0" "store d (p_analog_outputs 1) = le16 0"
    using only_log_wf [OF d(1)] outputs_shown_log(2) [OF d(1)] w d(1) by (auto simp: only_log_def)
  with d nmt hb \<open>n \<noteq> 0\<close> assms(2,3) show ?thesis
    by (simp add: canopen_init_def Let_def node_ok_def node_wf_def not_less canopen_sdo_init_def sdo_wf_def) 
qed

lemma co_reach_ok:
  assumes "co_reach n s"
  shows "node_ok canopen_default_od_get n s \<and> outputs_shown (snd s) \<and> 1 \<le> n \<and> n \<le> 127"
  using assms
proof (induction rule: co_reach.induct)
  case (start c s)
  then have "\<not> n < 1" "\<not> n > 127" by (auto simp: canopen_init_def split: if_splits)
  then have n: "1 \<le> n" "n \<le> 127" by (simp_all only: not_less)
  moreover from n start init_ok [of c n] power_on_shown [of c] have "node_ok canopen_default_od_get n s" "outputs_shown (snd s)"
    by (auto simp: power_on_def)
  ultimately show ?case by simp
next
  case (call s e t)
  with board_od.node_call_keeps [of n s e] shows_on_board(1) show ?case by (auto simp: board_od.call_keeps_def)
qed

lemma co_reach_run: "co_reach n s \<Longrightarrow> \<forall>e \<in> set es. call_ok e \<Longrightarrow> node_run es s = Some t \<Longrightarrow> co_reach n t"
  by (induction es arbitrary: s) (auto simp: bind_eq_Some_conv intro: co_reach.call)

text \<open>Requests that reach the SDO server through the node.\<close>

lemma sdo_cob: "(0x600 :: u32) + ucast (n :: u8) \<noteq> 0" "(0x600 :: u32) + ucast (n :: u8) \<noteq> 0x80"
proof -
  have "take_bit 32 (unat n) = unat n" using unat_u8_less [of n] by (simp add: take_bit_nat_eq_self_iff)
  then have "unat ((0x600 :: u32) + ucast n) = 0x600 + unat n"
    using unat_u8_less [of n] by (simp add: unat_word_ariths unsigned_ucast_eq)
  then have "unat ((0x600 :: u32) + ucast n) \<noteq> unat (0 :: u32)" "unat ((0x600 :: u32) + ucast n) \<noteq> unat (0x80 :: u32)"
    by simp_all
  then show "(0x600 :: u32) + ucast (n :: u8) \<noteq> 0" "(0x600 :: u32) + ucast (n :: u8) \<noteq> 0x80" by metis+
qed

lemma node_serve:
  assumes "serve rs (node_sdo node, c) = Some (sdo', d)" "nmt_state (node_nmt node) \<noteq> NMT_STATE_STOPPED"
  shows "node_run (map (\<lambda>r. Frame (0x600 + ucast (node_id node)) r 8) rs) (node, c) = Some (node\<lparr>node_sdo := sdo'\<rparr>, d)"
  using assms
proof (induction rs arbitrary: node c)
  case (Cons r rs)
  obtain x sdo1 c1 where r: "canopen_sdo_rx_frame r 8 (node_sdo node, c) = Some (x, sdo1, c1)" "serve rs (sdo1, c1) = Some (sdo', d)"
    using Cons.prems(1) by (auto simp: bind_eq_Some_conv)
  have "(0x600 :: u32) + ucast (node_id node) \<noteq> 0" "(0x600 :: u32) + ucast (node_id node) \<noteq> 0x80" by (rule sdo_cob)+
  with r Cons.prems(2) Cons.IH [of "node\<lparr>node_sdo := sdo1\<rparr>" c1] show ?case
    by (simp add: canopen_rx_frame_def)
qed simp


section \<open>Examples\<close>

text \<open>A board with its ADC returning zeros and a CAN controller that takes every frame.\<close>

definition start_can :: can where
  "start_can = \<lparr>store = boot_store, co_app = Board_App,
     co_board = analog_outputs_init (relays_init (digital_outputs_init
       \<lparr>digital_input_states = 0, digital_output_states = 0, di_debounce = replicate 8 0, relay_states = 0,
        ai_raw_values = replicate 4 0, hw = []\<rparr>)),
     s_last_do = 0, s_last_ao = [0, 0], adc_count = 0, adc_scans = (\<lambda>_. (replicate 4 0, \<lambda>_. Some 0)),
     tx_log = [], tx_results = (\<lambda>_. True), s_post_write_cb = False, post_writes = []\<rparr>"

lemma start_power_on: "power_on start_can"
proof -
  have "board_wf (co_board start_can)" by (simp add: start_can_def) (simp add: board_wf_def)
  then have "can_wf start_can" by (simp add: can_wf_def start_can_def app_wf_def)
  then show ?thesis by (auto simp: power_on_def start_can_def)
qed

text \<open>The node with identifier 5 after start-up.\<close>

lemma start_node:
  obtains s where "co_reach 5 s" "tx_log (snd s) = [heartbeat_frame 5 0]"
    "nmt_state (node_nmt (fst s)) = NMT_STATE_PRE_OPERATIONAL" "heartbeat_period_ms (node_nmt (fst s)) = 1000"
proof -
  have "can_wf start_can" using start_power_on by (simp add: power_on_def)
  from init_ok [OF this, of 5] obtain s h l where
    s: "canopen_init 5 None start_can = Some (Some s)" "tx_log (snd s) = tx_log start_can @ [heartbeat_frame 5 0]"
      "nmt_state (node_nmt (fst s)) = NMT_STATE_PRE_OPERATIONAL"
      "store start_can (0x1017, 0) = [l, h]" "heartbeat_period_ms (node_nmt (fst s)) = be16 h l"
    by auto
  have "be16 h l = 1000"
    using s(4) by (simp add: start_can_def boot_store_def Board_vars_def le16_def be16_eq_iff)
  with s start_power_on that [of s] show thesis by (auto intro: co_reach.start simp: start_can_def)
qed

section \<open>Properties\<close>

text \<open>
  C6: Every call of a running node, with any received frame of any length, any timer step and any
  results of the ADC and of the transmitter, goes through without an access out of bounds, leaves a
  well-formed state whose outputs show the values last written, and transmits on the node's own four identifiers only.
\<close>

theorem node_safe:
  assumes "co_reach n s" and "\<forall>e \<in> set es. call_ok e"
  shows "\<exists>t. node_run es s = Some t \<and> co_reach n t \<and> node_ok canopen_default_od_get n t \<and> outputs_shown (snd t) \<and>
    sends {0x700 + ucast n, 0x580 + ucast n, 0x180 + ucast n, 0x280 + ucast n} (snd s) (snd t)"
proof -
  obtain t where "node_run es s = Some t" "board_od.call_keeps n s t"
    using board_od.node_run_keeps [of n s es] co_reach_ok [OF assms(1)] assms(2) by blast
  with co_reach_run [OF assms] co_reach_ok show ?thesis by (auto simp: board_od.call_keeps_def node_cobs_def)
qed

lemma node_safe_witness:
  "\<exists>s t. co_reach 5 s \<and> node_run [Frame 0x605 (replicate 8 0xFF) 8, Tick 70000] s = Some t \<and> co_reach 5 t"
proof -
  obtain s where "co_reach 5 s" by (rule start_node)
  moreover from node_safe [OF this, of "[Frame 0x605 (replicate 8 0xFF) 8, Tick 70000]"]
  obtain t where "node_run [Frame 0x605 (replicate 8 0xFF) 8, Tick 70000] s = Some t" "co_reach 5 t" by auto
  ultimately show ?thesis by blast
qed

text \<open>
  C17: The NMT slave is that of CiA 301: after any sequence of calls the node is in the one state to
  which the commands addressed to it, in order, lead the abstract machine from the state it was in.
\<close>

theorem nmt_refines:
  assumes "co_reach n s" and "\<forall>e \<in> set es. call_ok e" and "canopen_get_nmt_state (fst s) \<noteq> NMT_STATE_INITIALISATION"
  shows "\<exists>t. node_run es s = Some t \<and>
    (\<forall>q. nmt_run (canopen_get_nmt_state (fst s)) (commands n es) q \<longleftrightarrow> q = canopen_get_nmt_state (fst t))"
proof -
  obtain t where t: "node_run es s = Some t"
      "nmt_state (node_nmt (fst t)) = foldl (\<lambda>_. after_command) (nmt_state (node_nmt (fst s))) (commands n es)"
    using board_od.node_run_keeps [of n s es] co_reach_ok [OF assms(1)] assms(2) by blast
  have run: "nmt_run q ks (foldl (\<lambda>_. after_command) q ks)" if "q \<noteq> NMT_STATE_INITIALISATION" for q ks
    using that by (induction ks arbitrary: q) (auto intro: nmt_run.halt nmt_run_step)
  have "at_rest (nmt_state (node_nmt (fst s))) = nmt_state (node_nmt (fst s))"
    using assms(3) by (cases "nmt_state (node_nmt (fst s))") (simp_all add: canopen_get_nmt_state_def canopen_nmt_get_state_def)
  with t run nmt_run_unique assms(3) show ?thesis
    by (fastforce simp: canopen_get_nmt_state_def canopen_nmt_get_state_def)
qed

lemma nmt_refines_witness:
  "\<exists>s t. co_reach 5 s \<and> node_run [Frame 0 [1, 5, 0, 0, 0, 0, 0, 0] 2, Tick 10, Frame 0 [2, 0, 0, 0, 0, 0, 0, 0] 2,
       Frame 0 [1, 9, 0, 0, 0, 0, 0, 0] 2] s = Some t \<and> canopen_get_nmt_state (fst t) = NMT_STATE_STOPPED"
proof -
  obtain s where s: "co_reach 5 s" "nmt_state (node_nmt (fst s)) = NMT_STATE_PRE_OPERATIONAL" by (rule start_node)
  let ?es = "[Frame 0 [1, 5, 0, 0, 0, 0, 0, 0] 2, Tick 10, Frame 0 [2, 0, 0, 0, 0, 0, 0, 0] 2, Frame 0 [1, 9, 0, 0, 0, 0, 0, 0] 2]"
  from s(2) have "canopen_get_nmt_state (fst s) = NMT_STATE_PRE_OPERATIONAL" by (simp add: canopen_get_nmt_state_def canopen_nmt_get_state_def)
  moreover have "commands 5 ?es = [Start, Stop]" by (simp add: frame_command_def command_of_def)
  moreover have "nmt_run NMT_STATE_PRE_OPERATIONAL [Start, Stop] NMT_STATE_STOPPED"
    by (simp add: nmt_run_step nmt_run.halt)
  moreover have "\<forall>e \<in> set ?es. call_ok e" by simp
  ultimately obtain t where "node_run ?es s = Some t" "canopen_get_nmt_state (fst t) = NMT_STATE_STOPPED"
    using nmt_refines [OF s(1), of ?es] by auto
  with s(1) show ?thesis by blast
qed

text \<open>
  The heartbeat does not stop: whatever frames arrive and whatever state the node is in, once the
  time passed to \<open>canopen_process\<close> adds up to the heartbeat period, a frame on the node's heartbeat
  identifier (the heartbeat, or the boot-up message of a reset) has been handed to the transmitter.
\<close>

theorem heartbeat_alive:
  assumes "co_reach n s" and "\<forall>e \<in> set es. call_ok e" and "0 < heartbeat_period_ms (node_nmt (fst s))"
    and "unat (heartbeat_period_ms (node_nmt (fst s))) \<le> sum_list (map tick es)"
  shows "\<exists>t fs. node_run es s = Some t \<and> tx_log (snd t) = tx_log (snd s) @ fs \<and> (\<exists>fr \<in> set fs. cob_id fr = 0x700 + ucast n)"
proof -
  have ok: "node_ok canopen_default_od_get n s" using co_reach_ok [OF assms(1)] by simp
  then have "unat (heartbeat_timer_ms (node_nmt (fst s))) \<le> unat (heartbeat_period_ms (node_nmt (fst s)))"
    by (simp add: node_ok_def node_wf_def nmt_wf_def word_le_nat_alt)
  with assms(4) have le: "unat (heartbeat_timer_ms (node_nmt (fst s))) \<le> sum_list (map tick es)" by simp
  obtain t where "node_run es s = Some t" using board_od.node_run_keeps [OF ok assms(2)] by blast
  with board_od.node_run_beats [OF ok assms(2,3) le this] show ?thesis by (auto simp: beats_def)
qed

lemma heartbeat_alive_witness:
  "\<exists>s t fs. co_reach 5 s \<and> node_run [Tick 400, Frame 0 [2, 0, 0, 0, 0, 0, 0, 0] 2, Tick 600] s = Some t \<and>
     tx_log (snd t) = tx_log (snd s) @ fs \<and> (\<exists>fr \<in> set fs. cob_id fr = 0x705)"
proof -
  obtain s where s: "co_reach 5 s" "heartbeat_period_ms (node_nmt (fst s)) = 1000" by (rule start_node)
  let ?es = "[Tick 400, Frame 0 [2, 0, 0, 0, 0, 0, 0, 0] 2, Tick 600]"
  have h: "\<forall>e \<in> set ?es. call_ok e" "0 < heartbeat_period_ms (node_nmt (fst s))"
    "unat (heartbeat_period_ms (node_nmt (fst s))) \<le> sum_list (map tick ?es)"
    by (simp_all add: s(2) word_less_nat_alt)
  from heartbeat_alive [OF s(1) h] obtain t fs where "node_run ?es s = Some t" "tx_log (snd t) = tx_log (snd s) @ fs"
    "\<exists>fr \<in> set fs. cob_id fr = 0x700 + ucast (5 :: u8)" by blast
  moreover have "(0x700 :: u32) + ucast (5 :: u8) = 0x705" by simp
  ultimately show ?thesis using s(1) by metis
qed

text \<open>
  C20: A value written to the dictionary by an expedited SDO download is what an expedited upload of
  the same object returns: both requests are accepted unless the node is stopped, the first is
  answered by the confirmation and the second by a response that holds the bytes written.
\<close>

theorem sdo_write_read:
  assumes "co_reach n s" and "canopen_get_nmt_state (fst s) \<noteq> NMT_STATE_STOPPED"
    and "canopen_od_find_subindex canopen_default_od_get i k = Some (Some sub)" and "pObject sub = Some v"
    and "bAccessType sub AND 0x02 \<noteq> 0" and "length src = unat (sub_size sub)"
  shows "\<exists>t bytes. node_run [Frame (0x600 + ucast n) (download_request i k src) 8, Frame (0x600 + ucast n) (upload_request i k) 8] s = Some t \<and>
    tx_log (snd t) = tx_log (snd s) @
      [\<lparr>cob_id = 0x580 + ucast n, frame_data = [0x60, lo8 i, hi8 i, k, 0, 0, 0, 0], rtr = False\<rparr>,
       \<lparr>cob_id = 0x580 + ucast n, frame_data = bytes, rtr = False\<rparr>] \<and>
    take 3 (drop 1 bytes) = [lo8 i, hi8 i, k] \<and> upload_data bytes = src"
proof -
  obtain node c where s: "s = (node, c)" by fastforce
  have w: "can_wf c" "node_id node = n" "sdo_od (node_sdo node) = canopen_default_od_get" "sdo_node_id (node_sdo node) = n"
    using co_reach_ok [OF assms(1)] by (simp_all add: s node_ok_def node_wf_def)
  have obj: "board_od.object i k sub v" "writable sub" "readable sub" "sub_size sub \<le> 4"
    using assms(3-5) board_object_access [of i k sub v] by (simp_all add: board_od.object_def writable_def)
  obtain d where d: "canopen_sdo_rx_frame (download_request i k src) 8 (node_sdo node, c) = Some (True, node_sdo node, d)" "can_wf d"
      "tx_log d = tx_log c @ [sdo_frame (node_sdo node) [0x60, lo8 i, hi8 i, k, 0, 0, 0, 0]]"
      "store d = (store c)(v := src @ drop (length src) (store c v))"
    using board_od.sdo_download [OF w(1,3) obj(1,2) assms(6) obj(4)] by blast
  obtain bytes where b: "canopen_sdo_rx_frame (upload_request i k) 8 (node_sdo node, d) = Some (True, node_sdo node, sdo_send (node_sdo node) bytes d)"
      "take 3 (drop 1 bytes) = [lo8 i, hi8 i, k]" "upload_data bytes = take (unat (sub_size sub)) (store d v)"
    using board_od.sdo_upload [OF d(2) w(3) obj(1,3,4)] by blast
  have "serve [download_request i k src, upload_request i k] (node_sdo node, c) = Some (node_sdo node, sdo_send (node_sdo node) bytes d)"
    using d(1) b(1) by simp
  from node_serve [OF this] assms(2) have "node_run [Frame (0x600 + ucast n) (download_request i k src) 8, Frame (0x600 + ucast n) (upload_request i k) 8] s =
      Some (node, sdo_send (node_sdo node) bytes d)"
    by (simp add: s w(2) canopen_get_nmt_state_def canopen_nmt_get_state_def)
  moreover have "upload_data bytes = src" using b(3) d(4) assms(6) by simp
  ultimately show ?thesis using b(2) d(3) by (auto simp: s sdo_frame_def w(4))
qed

lemma sdo_write_read_witness:
  "\<exists>s t bytes. co_reach 5 s \<and>
     node_run [Frame 0x605 (download_request 0x6411 1 [0x34, 0x02]) 8, Frame 0x605 (upload_request 0x6411 1) 8] s = Some t \<and>
     frame_data (last (tx_log (snd t))) = bytes \<and> upload_data bytes = [0x34, 0x02]"
proof -
  obtain s where s: "co_reach 5 s" "nmt_state (node_nmt (fst s)) = NMT_STATE_PRE_OPERATIONAL" by (rule start_node)
  have st: "canopen_get_nmt_state (fst s) \<noteq> NMT_STATE_STOPPED"
    using s(2) by (simp add: canopen_get_nmt_state_def canopen_nmt_get_state_def)
  have o: "canopen_od_find_subindex canopen_default_od_get 0x6411 1 = Some (Some (row 0x6411 1 rw 0x03 2))"
    "pObject (row 0x6411 1 rw 0x03 2) = Some (0x6411, 1)" "bAccessType (row 0x6411 1 rw 0x03 2) AND 0x02 \<noteq> 0"
    "length [0x34, 0x02 :: u8] = unat (sub_size (row 0x6411 1 rw 0x03 2))"
    using board_object_6411 by (simp_all add: board_od.object_def row_def rw_def)
  have 5: "(0x600 :: u32) + ucast (5 :: u8) = 0x605" by simp
  from sdo_write_read [OF s(1) st o, unfolded 5] obtain t bytes where
    "node_run [Frame 0x605 (download_request 0x6411 1 [0x34, 0x02]) 8, Frame 0x605 (upload_request 0x6411 1) 8] s = Some t"
    "frame_data (last (tx_log (snd t))) = bytes" "upload_data bytes = [0x34, 0x02]" by auto
  with s(1) show ?thesis by blast
qed

text \<open>
  C18: A segmented SDO upload delivers the whole object: after the initiation, which reports the size,
  as many segment requests with alternating toggle bit as the size needs are each answered by one
  segment; their data is the object's bytes in order, and only the last is marked as the last.
\<close>

theorem sdo_segmented_upload:
  assumes "co_reach n s" and "canopen_get_nmt_state (fst s) \<noteq> NMT_STATE_STOPPED"
    and "canopen_od_find_subindex canopen_default_od_get i k = Some (Some sub)" and "pObject sub = Some v"
    and "4 < unat (sub_size sub)"
  defines "m \<equiv> (unat (sub_size sub) + 6) div 7"
  defines "requests \<equiv> upload_request i k # segment_requests m 0"
  shows "\<exists>t resps. node_run (map (\<lambda>r. Frame (0x600 + ucast n) r 8) requests) s = Some t \<and>
    tx_log (snd t) = tx_log (snd s) @
      map (\<lambda>bytes. \<lparr>cob_id = 0x580 + ucast n, frame_data = bytes, rtr = False\<rparr>)
        (([0x41, lo8 i, hi8 i, k] @ le32 (sub_size sub)) # resps) \<and>
    concat (map segment_data resps) = take (unat (sub_size sub)) (store (snd s) v) \<and>
    map (\<lambda>r. r ! 0 AND 1) resps = replicate (m - 1) 0 @ [1] \<and> \<not> seg_active (node_sdo (fst t))"
proof -
  obtain node c where s: "s = (node, c)" by fastforce
  have w: "can_wf c" "node_id node = n" "sdo_od (node_sdo node) = canopen_default_od_get" "sdo_node_id (node_sdo node) = n"
    using co_reach_ok [OF assms(1)] by (simp_all add: s node_ok_def node_wf_def)
  have obj: "board_od.object i k sub v" "readable sub" "\<not> sub_size sub \<le> 4"
    using assms(3-5) board_object_access [of i k sub v] by (simp_all add: board_od.object_def word_le_nat_alt)
  obtain sdo' c' resps where r: "serve requests (node_sdo node, c) = Some (sdo', c')"
      "tx_log c' = tx_log c @ sdo_frame (node_sdo node) ([0x41, lo8 i, hi8 i, k] @ le32 (sub_size sub)) # map (sdo_frame (node_sdo node)) resps"
      "concat (map segment_data resps) = take (unat (sub_size sub)) (store c v)"
      "map (\<lambda>r. r ! 0 AND 1) resps = replicate (m - 1) 0 @ [1]" "\<not> seg_active sdo'"
    using board_od.sdo_segmented [OF w(1,3) obj] unfolding requests_def m_def by blast
  have "node_run (map (\<lambda>r. Frame (0x600 + ucast n) r 8) requests) s = Some (node\<lparr>node_sdo := sdo'\<rparr>, c')"
    using node_serve [OF r(1)] assms(2) by (simp add: s w(2) canopen_get_nmt_state_def canopen_nmt_get_state_def)
  moreover have "sdo_frame (node_sdo node) = (\<lambda>bytes. \<lparr>cob_id = 0x580 + ucast n, frame_data = bytes, rtr = False\<rparr>)"
    by (simp add: sdo_frame_def w(4) fun_eq_iff)
  ultimately show ?thesis using r(2-5) by (auto simp: s)
qed

lemma sdo_segmented_upload_witness:
  "\<exists>s t resps. co_reach 5 s \<and> node_run (map (\<lambda>r. Frame 0x605 r 8) (upload_request 0x1008 0 # segment_requests 4 0)) s = Some t \<and>
     map frame_data (drop (length (tx_log (snd s)) + 1) (tx_log (snd t))) = resps \<and>
     concat (map segment_data resps) = take 22 (store (snd s) (0x1008, 0))"
proof -
  obtain s where s: "co_reach 5 s" "nmt_state (node_nmt (fst s)) = NMT_STATE_PRE_OPERATIONAL" by (rule start_node)
  have st: "canopen_get_nmt_state (fst s) \<noteq> NMT_STATE_STOPPED"
    using s(2) by (simp add: canopen_get_nmt_state_def canopen_nmt_get_state_def)
  have o: "canopen_od_find_subindex canopen_default_od_get 0x1008 0 = Some (Some (row 0x1008 0 ro 0x09 22))"
    "pObject (row 0x1008 0 ro 0x09 22) = Some (0x1008, 0)" "4 < unat (sub_size (row 0x1008 0 ro 0x09 22))"
    using board_object_1008 by (simp_all add: board_od.object_def row_def)
  have 22: "sub_size (row 0x1008 0 ro 0x09 22) = 22" "(unat (22 :: u32) + 6) div 7 = 4" by (simp_all add: row_def)
  have 5: "(0x600 :: u32) + ucast (5 :: u8) = 0x605" by simp
  from sdo_segmented_upload [OF s(1) st o, unfolded 5 22] obtain t resps where
    "node_run (map (\<lambda>r. Frame 0x605 r 8) (upload_request 0x1008 0 # segment_requests 4 0)) s = Some t"
    "map frame_data (drop (length (tx_log (snd s)) + 1) (tx_log (snd t))) = resps"
    "concat (map segment_data resps) = take 22 (store (snd s) (0x1008, 0))" by (auto simp: comp_def)
  with s(1) show ?thesis by blast
qed



text \<open>
  A write-only object (access 0x03) is read by an SDO upload: the server tests the access against the
  mask 0x05, in which write-only has bit 0, where \<open>canopen_od_read\<close> tests the read permission and refuses.
\<close>

theorem write_only_uploaded:
  assumes "canopen_od_find_index (sdo_od sdo) i = Some e" "\<not> k \<ge> bEndpoints e" "rd (pSubindex e) (unat k) = Some sub"
    and "pObject sub = Some v" "bAccessType sub = 0x03"
  shows "canopen_od_read (sdo_od sdo) i k sz c = Some (Inl 0x06010001)"
    and "sdo_initiate_upload (upload_request i k) (sdo, c) = sdo_upload_object (lo8 i) (hi8 i) k sub v (sdo, c)"
  using assms by (simp_all add: canopen_od_read_def sdo_initiate_upload_def upload_request_def Let_def)

text \<open>
  The board writes its outputs on change only: when the values of the dictionary are those written last,
  synchronisation does nothing, whatever the outputs show, for instance after a Modbus write.
\<close>

theorem repeated_value_ignored:
  assumes "co_app c = Board_App" "store c p_digital_outputs = [s_last_do c]" "length (s_last_ao c) = 2"
    and "\<forall>i < 2. read_le16 (p_analog_outputs i) (store c) = Some (s_last_ao c ! i)"
  shows "canopen_app_sync_outputs c = Some c"
proof -
  have "sync_ao i c = Some c" if "i < 2" for i
  proof -
    have "(of_nat i :: u8) < 2" "unat (of_nat i :: u8) = i" using that by (simp_all add: word_less_nat_alt)
    with that assms(3,4) show ?thesis by (simp add: sync_ao_def canopen_get_analog_output_def rd_Some)
  qed
  from this [of 0] this [of 1] assms(1,2) show ?thesis
    by (simp add: canopen_app_sync_outputs_def board_sync_outputs_def canopen_get_digital_outputs_def numeral_2_eq_2)
qed

end
