(* ===== verification/Can_Driver.thy ===== *)
theory Can_Driver
  imports Co_Spec
begin

text \<open>
  The two CAN drivers of \<open>src/can_driver.c\<close>, and the receive loop of \<open>src/main.c\<close> that feeds the node.
  For the driver of the hardware the HAL is the records \<open>can_hal\<close> and \<open>can_setup\<close> of functions over an
  environment: whether the transmit mailbox takes a message, what the receive FIFO holds, and whether
  a configuration is accepted. Clocks and pins are left to the HAL. The driver of the host has the same functions over its statics, here with the prefix \<open>stub\<close>.
\<close>

section \<open>Operations\<close>

record can_tx_header =
  tx_StdId :: u32
  tx_ExtId :: u32
  tx_remote :: bool
  tx_DLC :: u32

record can_rx_header =
  rx_StdId :: u32
  rx_remote :: bool
  rx_DLC :: u32

record 'h can_hal =
  HAL_CAN_AddTxMessage :: "can_tx_header \<Rightarrow> u8 list \<Rightarrow> 'h \<Rightarrow> bool \<times> 'h"
  HAL_CAN_GetRxFifoFillLevel :: "'h \<Rightarrow> u32"
  HAL_CAN_GetRxMessage :: "'h \<Rightarrow> (can_rx_header \<times> u8 list) option \<times> 'h"

text \<open>Prescaler and the two segments in time quanta; \<open>None\<close> is the return value false.\<close>

definition can_bit_timing :: "bool \<Rightarrow> u32 \<Rightarrow> (nat \<times> nat \<times> nat) option" where
  "can_bit_timing stm32f7 baudrate =
     (if stm32f7 then
        if baudrate = 500000 then Some (6, 13, 4)
        else if baudrate = 250000 then Some (12, 13, 4)
        else if baudrate = 1000000 then Some (3, 13, 4) else None
      else
        if baudrate = 500000 then Some (6, 10, 3)
        else if baudrate = 250000 then Some (12, 10, 3)
        else if baudrate = 1000000 then Some (3, 10, 3) else None)"

text \<open>
  Setting the controller up: the HAL calls take the structures the driver fills and say whether they
  were accepted. Segments and jump width are in time quanta.
\<close>

record can_init =
  Prescaler :: nat
  TimeSeg1 :: nat
  TimeSeg2 :: nat
  SyncJumpWidth :: nat
  NormalMode :: bool
  TimeTriggeredMode :: bool
  AutoBusOff :: bool
  AutoWakeUp :: bool
  AutoRetransmission :: bool
  ReceiveFifoLocked :: bool
  TransmitFifoPriority :: bool

record can_filter =
  FilterBank :: u32
  FilterIdMask :: bool
  FilterScale32 :: bool
  FilterIdHigh :: u32
  FilterIdLow :: u32
  FilterMaskIdHigh :: u32
  FilterMaskIdLow :: u32
  FilterFIFOAssignment :: u32
  FilterActivation :: bool
  SlaveStartFilterBank :: u32

record 'h can_setup =
  HAL_CAN_Init :: "can_init \<Rightarrow> 'h \<Rightarrow> bool \<times> 'h"
  HAL_CAN_ConfigFilter :: "can_filter \<Rightarrow> 'h \<Rightarrow> bool \<times> 'h"
  HAL_CAN_Start :: "'h \<Rightarrow> bool \<times> 'h"
  HAL_CAN_ActivateNotification :: "'h \<Rightarrow> bool \<times> 'h"
  HAL_CAN_Stop :: "'h \<Rightarrow> bool \<times> 'h"

definition can_driver_init :: "'h can_setup \<Rightarrow> bool \<Rightarrow> u32 \<Rightarrow> 'h \<Rightarrow> bool \<times> 'h" where
  "can_driver_init hal stm32f7 baudrate h =
     (case can_bit_timing stm32f7 baudrate of
        None \<Rightarrow> (False, h)
      | Some (prescaler, seg1, seg2) \<Rightarrow>
          HAL_CAN_Init hal \<lparr>Prescaler = prescaler, TimeSeg1 = seg1, TimeSeg2 = seg2, SyncJumpWidth = 1, NormalMode = True,
            TimeTriggeredMode = False, AutoBusOff = True, AutoWakeUp = False, AutoRetransmission = True,
            ReceiveFifoLocked = False, TransmitFifoPriority = False\<rparr> h)"

definition accept_filter :: can_filter where
  "accept_filter = \<lparr>FilterBank = 0, FilterIdMask = True, FilterScale32 = True, FilterIdHigh = 0, FilterIdLow = 0,
     FilterMaskIdHigh = 0, FilterMaskIdLow = 0, FilterFIFOAssignment = 0, FilterActivation = True, SlaveStartFilterBank = 14\<rparr>"

definition can_driver_filter_config :: "'h can_setup \<Rightarrow> u8 \<Rightarrow> 'h \<Rightarrow> bool \<times> 'h" where
  "can_driver_filter_config hal n h = HAL_CAN_ConfigFilter hal accept_filter h"

definition can_driver_start :: "'h can_setup \<Rightarrow> 'h \<Rightarrow> bool \<times> 'h" where
  "can_driver_start hal h =
     (case HAL_CAN_Start hal h of (ok, h) \<Rightarrow> if \<not> ok then (False, h) else HAL_CAN_ActivateNotification hal h)"

definition can_driver_stop :: "'h can_setup \<Rightarrow> 'h \<Rightarrow> 'h" where
  "can_driver_stop hal h = snd (HAL_CAN_Stop hal h)"

text \<open>The result is 0 or -1.\<close>

definition can_driver_transmit :: "'h can_hal \<Rightarrow> canopen_frame \<Rightarrow> 'h \<Rightarrow> int \<times> 'h" where
  "can_driver_transmit hal frame h =
     (let tx_header = \<lparr>tx_StdId = cob_id frame AND 0x7FF, tx_ExtId = 0, tx_remote = rtr frame,
                       tx_DLC = of_nat (length (frame_data frame))\<rparr>;
          (ok, h) = HAL_CAN_AddTxMessage hal tx_header (frame_data frame) h
      in (if ok then 0 else - 1, h))"

text \<open>The frame received, in a buffer of eight bytes, and its length; \<open>None\<close> is the return value false.\<close>

definition can_driver_receive :: "'h can_hal \<Rightarrow> 'h \<Rightarrow> (canopen_frame \<times> u8) option \<times> 'h" where
  "can_driver_receive hal h =
     (if HAL_CAN_GetRxFifoFillLevel hal h = 0 then (None, h)
      else case HAL_CAN_GetRxMessage hal h of
        (None, h) \<Rightarrow> (None, h)
      | (Some (rx_header, data), h) \<Rightarrow>
        (Some (\<lparr>cob_id = rx_StdId rx_header, frame_data = data, rtr = rx_remote rx_header\<rparr>, ucast (rx_DLC rx_header)), h))"

text \<open>The receive loop of \<open>main\<close>; as long as frames keep coming it goes on.\<close>

partial_function (option) service_can ::
    "'h can_hal \<Rightarrow> 'h \<Rightarrow> canopen_node \<times> can \<Rightarrow> ((canopen_node \<times> can) \<times> 'h) option" where
  "service_can hal h s =
     (case can_driver_receive hal h of
        (None, h) \<Rightarrow> Some (s, h)
      | (Some (frame, len), h) \<Rightarrow>
        canopen_rx_frame (cob_id frame) (frame_data frame) len s \<bind> (\<lambda>(_, s). service_can hal h s))"

text \<open>
  The host driver. A frame in its queue carries its length beside the data; \<open>s_mock_tx_last\<close> is \<open>Some\<close>
  when \<open>s_mock_tx_has_last\<close> is set.
\<close>

record can_stub =
  s_mock_rx_queue :: "(canopen_frame \<times> u8) list"
  s_mock_rx_head :: u8
  s_mock_rx_tail :: u8
  s_mock_tx_last :: "canopen_frame option"

definition stub_driver_init :: "can_stub \<Rightarrow> bool \<times> can_stub" where
  "stub_driver_init s = (True, s\<lparr>s_mock_rx_head := 0, s_mock_rx_tail := 0, s_mock_tx_last := None\<rparr>)"

definition stub_driver_transmit :: "canopen_frame \<Rightarrow> can_stub \<Rightarrow> int \<times> can_stub" where
  "stub_driver_transmit frame s = (0, s\<lparr>s_mock_tx_last := Some frame\<rparr>)"

text \<open>The queue has 16 entries; the outer option is the bounds check.\<close>

definition stub_driver_receive :: "can_stub \<Rightarrow> ((canopen_frame \<times> u8) option \<times> can_stub) option" where
  "stub_driver_receive s =
     (if s_mock_rx_head s = s_mock_rx_tail s then Some (None, s)
      else do {
        frame \<leftarrow> rd (s_mock_rx_queue s) (unat (s_mock_rx_tail s));
        Some (Some frame, s\<lparr>s_mock_rx_tail := (s_mock_rx_tail s + 1) mod 16\<rparr>)
      })"

section \<open>Properties\<close>

text \<open>The bit rates the driver accepts are met exactly by the peripheral clocks of 54 and 42 MHz.\<close>

lemma can_bit_rate:
  assumes "can_bit_timing stm32f7 baudrate = Some (prescaler, seg1, seg2)"
  shows "prescaler * (1 + seg1 + seg2) * unat baudrate = (if stm32f7 then 54000000 else 42000000)"
  using assms by (auto simp: can_bit_timing_def split: if_splits)

text \<open>
  The controller compares identifiers in the layout of its receive register: the standard identifier
  from bit 21, the extension below it, then the extended-frame flag and the remote flag in bits 2 and 1.
  A 32-bit filter in mask mode passes a frame that agrees with the identifier of the filter wherever
  the mask is set.
\<close>

definition rx_register :: "u32 \<Rightarrow> u32 \<Rightarrow> bool \<Rightarrow> bool \<Rightarrow> u32" where
  "rx_register stdid exid ide remote = push_bit 21 stdid OR push_bit 3 exid OR push_bit 2 (of_bool ide) OR push_bit 1 (of_bool remote)"

definition filter_passes :: "can_filter \<Rightarrow> u32 \<Rightarrow> bool" where
  "filter_passes f r \<longleftrightarrow> FilterActivation f \<and> FilterIdMask f \<and> FilterScale32 f \<and>
     (let m = push_bit 16 (FilterMaskIdHigh f) OR FilterMaskIdLow f
      in r AND m = (push_bit 16 (FilterIdHigh f) OR FilterIdLow f) AND m)"

text \<open>The filter the driver configures passes extended and remote frames too, not only the standard ones.\<close>

lemma accept_filter_passes_all: "filter_passes accept_filter (rx_register stdid exid ide remote)"
  by (simp add: filter_passes_def accept_filter_def)

text \<open>
  Bringing the controller up with the rate of \<open>main\<close> succeeds when the HAL accepts the calls, and any
  other rate is refused before the HAL is called.
\<close>

lemma can_bring_up:
  assumes "\<And>i h. fst (HAL_CAN_Init hal i h)" and "\<And>f h. fst (HAL_CAN_ConfigFilter hal f h)"
    and "\<And>h. fst (HAL_CAN_Start hal h)" and "\<And>h. fst (HAL_CAN_ActivateNotification hal h)"
  shows "fst (can_driver_init hal f7 500000 h) \<and> fst (can_driver_filter_config hal 1 h) \<and> fst (can_driver_start hal h)"
    and "baudrate \<notin> {500000, 250000, 1000000} \<Longrightarrow> can_driver_init hal f7 baudrate h = (False, h)"
  using assms(1,2) assms(3) [of h] assms(4)
  by (auto simp: can_driver_init_def can_bit_timing_def can_driver_filter_config_def can_driver_start_def split: prod.split)

text \<open>An identifier of the node goes out unchanged.\<close>

lemma transmit_id:
  assumes "cob_id fr \<in> node_cobs n" and "n \<le> 127"
  shows "cob_id fr AND 0x7FF = cob_id fr"
proof -
  have m: "(0x7FF :: u32) = mask 11" by (simp add: mask_eq_exp_minus_1)
  have "unat n \<le> 127" using assms(2) by (simp add: word_le_nat_alt)
  moreover have "take_bit 32 (unat n) = unat n" using unat_u8_less [of n] by (simp add: take_bit_nat_eq_self_iff)
  ultimately have "unat (cob_id fr) < 2 ^ 11"
    using assms(1) by (auto simp: node_cobs_def unat_word_ariths unsigned_ucast_eq)
  then have "unat (take_bit 11 (cob_id fr)) = unat (cob_id fr)"
    by (simp add: unsigned_take_bit_eq take_bit_nat_eq_self_iff)
  then show ?thesis by (simp add: m take_bit_eq_mask [symmetric])
qed

text \<open>
  What the node relies on: message buffers of eight bytes, and a FIFO that empties when nothing new
  arrives; \<open>left\<close> bounds the frames still to come.
\<close>

locale can_fifo =
  fixes hal :: "'h can_hal" and left :: "'h \<Rightarrow> nat"
  assumes buffer: "HAL_CAN_GetRxMessage hal h = (Some (hdr, data), h') \<Longrightarrow> length data = 8"
    and drains: "HAL_CAN_GetRxFifoFillLevel hal h \<noteq> 0 \<Longrightarrow> HAL_CAN_GetRxMessage hal h = (Some m, h') \<Longrightarrow> left h' < left h"
begin

lemma receive_buffer: "can_driver_receive hal h = (Some (frame, len), h') \<Longrightarrow> length (frame_data frame) = 8 \<and> left h' < left h"
  using buffer drains by (auto simp: can_driver_receive_def split: if_splits prod.splits option.splits)

text \<open>The receive loop ends, and its frames are calls of the node.\<close>

lemma service_is_run:
  fixes f :: "'h \<Rightarrow> nat"
  assumes total: "\<And>s e. P s \<Longrightarrow> call_ok e \<Longrightarrow> \<exists>t. node_call e s = Some t \<and> P t" and "P s"
    and f: "\<And>h. f (snd (HAL_CAN_GetRxMessage hal h)) \<le> f h"
  shows "\<exists>es t h'. service_can hal h s = Some (t, h') \<and> node_run es s = Some t \<and>
    (\<forall>e \<in> set es. call_ok e \<and> tick e = 0) \<and> P t \<and> f h' \<le> f h"
  using assms(2)
proof (induction "left h" arbitrary: h s rule: less_induct)
  case less
  obtain r h1 where rec: "can_driver_receive hal h = (r, h1)" by fastforce
  have le: "f h1 \<le> f h"
    using rec f [of h] by (auto simp: can_driver_receive_def split: if_split_asm prod.split_asm option.split_asm)
  show ?case
  proof (cases r)
    case None
    with rec le less.prems show ?thesis by (auto simp: service_can.simps [of hal h] intro!: exI [of _ "[]"])
  next
    case (Some m)
    obtain frame len where m: "m = (frame, len)" by fastforce
    from receive_buffer [of h frame len h1] rec Some m have fr: "length (frame_data frame) = 8" "left h1 < left h" by simp_all
    let ?e = "Frame (cob_id frame) (frame_data frame) len"
    obtain t where "node_call ?e s = Some t" "P t" using total [OF less.prems, of ?e] fr(1) by auto
    then obtain b where t: "canopen_rx_frame (cob_id frame) (frame_data frame) len s = Some (b, t)" by auto
    from less.hyps [OF fr(2) \<open>P t\<close>] obtain es u h' where
      u: "service_can hal h1 t = Some (u, h')" "node_run es t = Some u" "\<forall>e \<in> set es. call_ok e \<and> tick e = 0" "P u" "f h' \<le> f h1" by blast
    have "service_can hal h s = Some (u, h')"
      using rec Some m t u(1) by (subst service_can.simps) simp
    moreover have "node_run (?e # es) s = Some u" using t u(2) by simp
    ultimately show ?thesis using u(3-5) fr(1) le by (intro exI [of _ "?e # es"] exI [of _ u] exI [of _ h']) simp
  qed
qed

end

text \<open>A FIFO given as the list of the messages in it, and transmission that always succeeds.\<close>

definition list_hal :: "(can_rx_header \<times> u8 list) list can_hal" where
  "list_hal = \<lparr>HAL_CAN_AddTxMessage = (\<lambda>_ _ h. (True, h)), HAL_CAN_GetRxFifoFillLevel = (\<lambda>h. of_bool (h \<noteq> [])),
     HAL_CAN_GetRxMessage = (\<lambda>h. case h of [] \<Rightarrow> (None, []) | (hdr, data) # h \<Rightarrow> (Some (hdr, take 8 (data @ replicate 8 0)), h))\<rparr>"

interpretation list_fifo: can_fifo list_hal length
  by unfold_locales (auto simp: list_hal_def split: list.splits)

text \<open>The loop leaves the FIFO empty.\<close>

lemma list_service_empties: "service_can list_hal fifo s = Some (t, h') \<Longrightarrow> h' = []"
proof (induction fifo arbitrary: s)
  case Nil
  then show ?case by (subst (asm) service_can.simps) (simp add: can_driver_receive_def list_hal_def)
next
  case (Cons m fifo)
  obtain hdr data where m: "m = (hdr, data)" by fastforce
  from Cons.prems obtain u where "service_can list_hal fifo u = Some (t, h')"
    by (subst (asm) service_can.simps) (auto simp: can_driver_receive_def m list_hal_def bind_eq_Some_conv)
  then show ?case by (rule Cons.IH)
qed

text \<open>
  The receive loop of \<open>main\<close> ends on any content of the FIFO and leaves the node in a reachable state.
\<close>

theorem service_returns:
  assumes "co_reach n s"
  shows "\<exists>t. service_can list_hal fifo s = Some (t, []) \<and> co_reach n t"
proof -
  have total: "\<exists>t. node_call e s = Some t \<and> co_reach n t" if "co_reach n s" "call_ok e" for s e
    using board_od.node_call_keeps [of n s e] co_reach_ok [OF that(1)] that(2) co_reach.call [OF that] by blast
  from list_fifo.service_is_run [of "co_reach n" s "\<lambda>_. 0" fifo, OF total assms] obtain t h' where
    t: "service_can list_hal fifo s = Some (t, h')" "co_reach n t" by blast
  then show ?thesis using list_service_empties by blast
qed

text \<open>
  \<open>HAL_CAN_MODULE_ENABLED\<close> is tested in \<open>src/can_driver.c\<close> before any header that defines it is included,
  so the host driver is what every build contains. It takes every frame for transmission and never
  delivers one: nothing puts a frame into its queue.
\<close>

theorem stub_receives_nothing:
  assumes "snd (stub_driver_init s) = s0"
  shows "stub_driver_receive (fold (\<lambda>frame s. snd (stub_driver_transmit frame s)) frames s0) =
    Some (None, fold (\<lambda>frame s. snd (stub_driver_transmit frame s)) frames s0)"
proof -
  have "s_mock_rx_head s0 = 0 \<and> s_mock_rx_tail s0 = 0" using assms by (auto simp: stub_driver_init_def)
  then have "s_mock_rx_head (fold (\<lambda>frame s. snd (stub_driver_transmit frame s)) frames s0) = 0 \<and>
    s_mock_rx_tail (fold (\<lambda>frame s. snd (stub_driver_transmit frame s)) frames s0) = 0"
    by (induction frames arbitrary: s0) (simp_all add: stub_driver_transmit_def)
  then show ?thesis by (simp add: stub_driver_receive_def)
qed

end
