(* ===== verification/Analog_Volt.thy ===== *)
theory Analog_Volt
  imports Complex_Main Board_IO
begin

text \<open>
  The conversions between volts and converter steps in \<open>src/analog_io.c\<close>. A float is a real number that
  single precision can hold, and each operation of the code rounds its exact result to the nearest one,
  ties to even: \<open>rnd32\<close>. Infinities, negative zeros and NaN do not come up for the values used here.
\<close>

section \<open>Single precision\<close>

text \<open>The exponent of the last place of 24 binary digits, and rounding to a whole number of units of it.\<close>

definition last_place :: "real \<Rightarrow> int" where
  "last_place x = max \<lfloor>log 2 \<bar>x\<bar>\<rfloor> (- 126) - 23"

definition round_even :: "real \<Rightarrow> int" where
  "round_even m =
     (let n = \<lfloor>m\<rfloor>; d = m - of_int n
      in if d < 1 / 2 then n else if d > 1 / 2 then n + 1 else if even n then n else n + 1)"

definition rnd32 :: "real \<Rightarrow> real" where
  "rnd32 x = of_int (round_even (x / 2 powr of_int (last_place x))) * 2 powr of_int (last_place x)"

lemma round_even_near: "\<bar>of_int (round_even m) - m\<bar> \<le> 1 / 2"
  unfolding round_even_def Let_def by (simp add: abs_le_iff)

lemma rnd32_near: "\<bar>rnd32 x - x\<bar> \<le> 2 powr of_int (last_place x) / 2"
proof -
  let ?u = "2 powr of_int (last_place x) :: real"
  have "rnd32 x - x = (of_int (round_even (x / ?u)) - x / ?u) * ?u" by (simp add: rnd32_def left_diff_distrib)
  then have "\<bar>rnd32 x - x\<bar> = \<bar>of_int (round_even (x / ?u)) - x / ?u\<bar> * ?u" by (simp add: abs_mult)
  also have "\<dots> \<le> 1 / 2 * ?u" by (intro mult_right_mono round_even_near) simp
  finally show ?thesis by simp
qed

lemma rnd32_0 [simp]: "rnd32 0 = 0"
  by (simp add: rnd32_def round_even_def)

text \<open>Above the subnormal range the relative error is at most \<open>2 ^ -24\<close>.\<close>

lemma rnd32_rel:
  assumes "x = 0 \<or> 2 powr - 126 \<le> \<bar>x\<bar>"
  shows "\<exists>d. \<bar>d\<bar> \<le> 1 / 2 ^ 24 \<and> rnd32 x = x * (1 + d)"
proof (cases "x = 0")
  case True
  then show ?thesis by (intro exI [of _ 0]) simp
next
  case False
  with assms have pos: "0 < \<bar>x\<bar>" and big: "2 powr - 126 \<le> \<bar>x\<bar>" by auto
  have "- 126 \<le> log 2 \<bar>x\<bar>" using big pos by (simp add: le_log_iff)
  then have e: "last_place x = \<lfloor>log 2 \<bar>x\<bar>\<rfloor> - 23" by (simp add: last_place_def le_floor_iff)
  have "2 powr of_int \<lfloor>log 2 \<bar>x\<bar>\<rfloor> \<le> \<bar>x\<bar>" using pos by (simp add: powr_le_iff)
  then have "2 powr of_int (last_place x) \<le> \<bar>x\<bar> / 2 ^ 23" by (simp add: e powr_diff powr_numeral field_simps)
  with rnd32_near [of x] have "\<bar>rnd32 x - x\<bar> \<le> \<bar>x\<bar> / 2 ^ 24" by simp
  then have "\<bar>(rnd32 x - x) / x\<bar> \<le> 1 / 2 ^ 24" using pos by (simp add: field_simps)
  moreover have "rnd32 x = x * (1 + (rnd32 x - x) / x)" using False by (simp add: field_simps)
  ultimately show ?thesis by blast
qed

section \<open>Conversions\<close>

definition analog_input_read_voltage :: "board \<Rightarrow> u8 \<Rightarrow> real" where
  "analog_input_read_voltage b channel =
     (if channel \<ge> 4 then 0
      else let v_adc = rnd32 (rnd32 (real (unat (ai_raw_values b ! unat channel)) / 4095) * rnd32 3.3)
           in rnd32 (v_adc * 3))"

definition analog_input_read_eng_unit :: "board \<Rightarrow> u8 \<Rightarrow> real" where
  "analog_input_read_eng_unit b channel = analog_input_read_voltage b channel"

text \<open>The value written; the cast to 16 bits cuts the fraction off.\<close>

definition voltage_raw :: "real \<Rightarrow> u16" where
  "voltage_raw voltage =
     (let voltage = (if voltage < 0 then 0 else voltage);
          voltage = (if voltage > 10 then 10 else voltage);
          v_dac = rnd32 (voltage / 3);
          raw = (of_int \<lfloor>rnd32 (rnd32 (v_dac / rnd32 3.3) * 4095)\<rfloor> :: u16)
      in if raw > 4095 then 4095 else raw)"

definition analog_output_write_voltage :: "u8 \<Rightarrow> real \<Rightarrow> board \<Rightarrow> board" where
  "analog_output_write_voltage channel voltage = analog_output_write_raw channel (voltage_raw voltage)"

datatype aio_status = AIO_OK | AIO_ERROR | AIO_INVALID_CHANNEL

definition analog_output_write_eng_unit :: "u8 \<Rightarrow> real \<Rightarrow> board \<Rightarrow> aio_status \<times> board" where
  "analog_output_write_eng_unit channel val b =
     (if channel \<ge> 2 then (AIO_INVALID_CHANNEL, b) else (AIO_OK, analog_output_write_voltage channel val b))"

lemma voltage_raw_0: "voltage_raw 0 = 0"
  by (simp add: voltage_raw_def)

lemma write_zero_volts [simp]: "analog_output_write_voltage channel 0 = analog_output_write_raw channel 0"
  by (simp add: analog_output_write_voltage_def voltage_raw_0)

section \<open>Errors of a computation\<close>

text \<open>\<open>x\<close> is \<open>y\<close> up to \<open>k\<close> parts in \<open>2 ^ 24\<close>.\<close>

definition near :: "real \<Rightarrow> real \<Rightarrow> real \<Rightarrow> bool" where
  "near k x y \<longleftrightarrow> 0 \<le> y \<and> (1 - k / 2 ^ 24) * y \<le> x \<and> x \<le> (1 + k / 2 ^ 24) * y"

lemma near_refl: "0 \<le> y \<Longrightarrow> near 0 y y"
  by (simp add: near_def)

lemma near_scale:
  assumes "near k x y" and "0 \<le> c"
  shows "near k (x * c) (y * c)"
  using assms mult_right_mono [of "(1 - k / 2 ^ 24) * y" x c] mult_right_mono [of x "(1 + k / 2 ^ 24) * y" c]
  by (simp add: near_def mult.assoc)

text \<open>A factor that is itself off by one part.\<close>

lemma near_factor:
  assumes n: "near k x y" and k: "0 \<le> k" "k \<le> 1000" and c: "1 - 1 / 2 ^ 23 \<le> c" "c \<le> 1 + 1 / 2 ^ 23"
  shows "near (k + 3) (x * c) y"
proof -
  have y: "0 \<le> y" and lo: "(1 - k / 2 ^ 24) * y \<le> x" and hi: "x \<le> (1 + k / 2 ^ 24) * y" using n by (simp_all add: near_def)
  have c0: "0 \<le> c" using c(1) by simp
  have x0: "0 \<le> (1 - k / 2 ^ 24) * y" using k y by simp
  have "x * c \<le> (1 + k / 2 ^ 24) * y * (1 + 1 / 2 ^ 23)" using hi c c0 x0 lo by (intro mult_mono) auto
  also have "\<dots> = (1 + k / 2 ^ 24) * (1 + 1 / 2 ^ 23) * y" by simp
  also have "\<dots> \<le> (1 + (k + 3) / 2 ^ 24) * y" using k by (intro mult_right_mono y) (simp add: field_simps)
  finally have 1: "x * c \<le> (1 + (k + 3) / 2 ^ 24) * y" .
  have "(1 - (k + 3) / 2 ^ 24) * y \<le> (1 - k / 2 ^ 24) * (1 - 1 / 2 ^ 23) * y"
    using k by (intro mult_right_mono y) (simp add: field_simps)
  also have "\<dots> = (1 - k / 2 ^ 24) * y * (1 - 1 / 2 ^ 23)" by simp
  also have "\<dots> \<le> x * c" using lo c x0 by (intro mult_mono) auto
  finally show ?thesis using 1 y by (simp add: near_def)
qed

lemma near_rnd32:
  assumes n: "near k x y" and k: "0 \<le> k" "k \<le> 1000" and y: "y = 0 \<or> 1 / 2 ^ 100 \<le> y"
  shows "near (k + 3) (rnd32 x) y"
proof -
  have "x = 0 \<or> 2 powr - 126 \<le> \<bar>x\<bar>"
  proof (cases "y = 0")
    case False
    then have "1 / 2 ^ 100 \<le> y" using y by simp
    moreover have "1 / 2 \<le> 1 - k / 2 ^ 24" using k by simp
    ultimately have "1 / 2 * (1 / 2 ^ 100) \<le> (1 - k / 2 ^ 24) * y" by (intro mult_mono) auto
    also have "\<dots> \<le> x" using n by (simp add: near_def)
    finally have "1 / 2 ^ 101 \<le> x" by simp
    moreover have "2 powr - 126 \<le> (1 / 2 ^ 101 :: real)" by (simp add: powr_minus powr_realpow divide_simps)
    ultimately show ?thesis by simp
  qed (use n in \<open>simp add: near_def\<close>)
  from rnd32_rel [OF this] obtain d where d: "\<bar>d\<bar> \<le> 1 / 2 ^ 24" "rnd32 x = x * (1 + d)" by blast
  have "1 - 1 / 2 ^ 23 \<le> 1 + d" "1 + d \<le> 1 + 1 / 2 ^ 23" using d(1) by (simp_all add: abs_le_iff)
  from near_factor [OF n k this] d(2) show ?thesis by simp
qed

text \<open>The reference voltage as the code has it.\<close>

lemma ref_voltage:
  obtains c where "rnd32 3.3 = 3.3 * c" and "1 - 1 / 2 ^ 24 \<le> c" and "c \<le> 1 + 1 / 2 ^ 24"
proof -
  have "2 powr - 126 \<le> (1 :: real)" by (simp add: powr_minus)
  then have "(3.3 :: real) = 0 \<or> 2 powr - 126 \<le> \<bar>3.3 :: real\<bar>" by simp
  from rnd32_rel [OF this] obtain d where "\<bar>d\<bar> \<le> 1 / 2 ^ 24" "rnd32 3.3 = 3.3 * (1 + d)" by blast
  then show thesis using that [of "1 + d"] by (simp add: abs_le_iff)
qed

lemma near_ref:
  assumes "near k x y" and "0 \<le> k" "k \<le> 1000"
  shows "near (k + 3) (x * rnd32 3.3) (y * 3.3)" and "near (k + 3) (x / rnd32 3.3) (y / 3.3)"
proof -
  obtain c where c: "rnd32 3.3 = 3.3 * c" "1 - 1 / 2 ^ 24 \<le> c" "c \<le> 1 + 1 / 2 ^ 24" by (rule ref_voltage)
  have "near (k + 3) (x * c * 3.3) (y * 3.3)" using c(2,3) by (intro near_scale near_factor assms) simp_all
  moreover have "x * c * 3.3 = x * rnd32 3.3" unfolding c(1) by simp
  ultimately show "near (k + 3) (x * rnd32 3.3) (y * 3.3)" by (simp only:)
  have "1 - 1 / 2 ^ 23 \<le> 1 / c" "1 / c \<le> 1 + 1 / 2 ^ 23" using c(2,3) by (simp_all add: field_simps)
  then have "near (k + 3) (x * (1 / c) * (1 / 3.3)) (y * (1 / 3.3))" by (intro near_scale near_factor assms) simp_all
  moreover have "x * (1 / c) * (1 / 3.3) = x / rnd32 3.3" "y * (1 / 3.3) = y / 3.3" unfolding c(1) by simp_all
  ultimately show "near (k + 3) (x / rnd32 3.3) (y / 3.3)" by (simp only:)
qed

section \<open>Properties\<close>

text \<open>The steps of \<open>analog_output_write_voltage\<close> before the cast.\<close>

definition dac_steps :: "real \<Rightarrow> real" where
  "dac_steps v = rnd32 (rnd32 (rnd32 (v / 3) / rnd32 3.3) * 4095)"

lemma dac_steps_near:
  assumes "near k v w" and "0 \<le> k" "k \<le> 900" and "w = 0 \<or> 1 / 2 ^ 80 \<le> w"
  shows "near (k + 12) (dac_steps v) (w / 9.9 * 4095)"
proof -
  have "near k (v / 3) (w / 3)" using near_scale [OF assms(1), of "1 / 3"] by simp
  then have "near (k + 3) (rnd32 (v / 3)) (w / 3)" by (rule near_rnd32) (use assms in auto)
  then have "near (k + 3 + 3) (rnd32 (v / 3) / rnd32 3.3) (w / 3 / 3.3)" by (rule near_ref) (use assms in auto)
  then have "near (k + 3 + 3 + 3) (rnd32 (rnd32 (v / 3) / rnd32 3.3)) (w / 3 / 3.3)" by (rule near_rnd32) (use assms in auto)
  then have "near (k + 3 + 3 + 3) (rnd32 (rnd32 (v / 3) / rnd32 3.3) * 4095) (w / 3 / 3.3 * 4095)" by (rule near_scale) simp
  then have "near (k + 3 + 3 + 3 + 3) (dac_steps v) (w / 3 / 3.3 * 4095)"
    unfolding dac_steps_def by (rule near_rnd32) (use assms in auto)
  moreover have "k + 3 + 3 + 3 + 3 = k + 12" "w / 3 / 3.3 * 4095 = w / 9.9 * 4095" by simp_all
  ultimately show ?thesis by (simp only:)
qed

lemma voltage_raw_steps:
  assumes "0 \<le> v" "v \<le> 10" and "0 \<le> dac_steps v" "dac_steps v < 65536"
  shows "unat (voltage_raw v) = min 4095 (nat \<lfloor>dac_steps v\<rfloor>)"
proof -
  have "\<lfloor>dac_steps v\<rfloor> < 65536" "0 \<le> \<lfloor>dac_steps v\<rfloor>" using assms(3,4) by linarith+
  then have u: "unat (of_int \<lfloor>dac_steps v\<rfloor> :: u16) = nat \<lfloor>dac_steps v\<rfloor>" by (simp add: unsigned_of_int take_bit_int_eq_self)
  have "voltage_raw v = (if (of_int \<lfloor>dac_steps v\<rfloor> :: u16) > 4095 then 4095 else of_int \<lfloor>dac_steps v\<rfloor>)"
    using assms(1,2) by (simp add: voltage_raw_def dac_steps_def)
  with u show ?thesis by (auto simp: word_less_nat_alt)
qed

text \<open>
  A voltage between 0 and 10 is written as the step of a 12-bit converter whose full scale is 9.9 volts,
  cut off, with an error of rounding of less than a hundredth of a step; from 9.9 volts on it is the
  last step, and never more than that.
\<close>

theorem voltage_accuracy:
  assumes "0 \<le> v" "v \<le> 10" and "v = 0 \<or> 1 / 2 ^ 80 \<le> v"
  shows "real (unat (voltage_raw v)) \<le> v / 9.9 * 4095 + 1 / 100 \<and>
    min 4095 (v / 9.9 * 4095) - 101 / 100 \<le> real (unat (voltage_raw v)) \<and> voltage_raw v \<le> 4095"
proof -
  let ?w = "v / 9.9 * 4095"
  have "near 12 (dac_steps v) ?w" using dac_steps_near [OF near_refl [OF assms(1)], of] assms by simp
  moreover have "0 \<le> ?w" "?w \<le> 4137" using assms(1,2) by simp_all
  ultimately have z: "0 \<le> dac_steps v" "?w - 1 / 100 \<le> dac_steps v" "dac_steps v \<le> ?w + 1 / 100"
    by (auto simp: near_def left_diff_distrib distrib_right)
  moreover have "dac_steps v < 65536" using z(3) \<open>?w \<le> 4137\<close> by simp
  ultimately have u: "unat (voltage_raw v) = min 4095 (nat \<lfloor>dac_steps v\<rfloor>)" using voltage_raw_steps assms(1,2) by blast
  have "real (unat (voltage_raw v)) = min 4095 (real (nat \<lfloor>dac_steps v\<rfloor>))" by (simp only: u of_nat_min of_nat_numeral)
  moreover have "real (nat \<lfloor>dac_steps v\<rfloor>) \<le> dac_steps v" "dac_steps v - 1 \<le> real (nat \<lfloor>dac_steps v\<rfloor>)" using z(1) by linarith+
  ultimately have "real (unat (voltage_raw v)) \<le> ?w + 1 / 100" "min 4095 ?w - 101 / 100 \<le> real (unat (voltage_raw v))"
    using z(2,3) by linarith+
  moreover have "voltage_raw v \<le> 4095" using u by (simp add: word_le_nat_alt)
  ultimately show ?thesis by blast
qed

text \<open>
  The divider was meant to bring 10 volts to the 3.3 volts of the reference; at its ratio of a third that
  takes 9.9 volts. The last tenth of a volt is cut off: from a little over 9.9 volts on an output is
  driven to the last step.
\<close>

lemma last_step:
  assumes "9.901 \<le> v"
  shows "voltage_raw v = 4095"
proof -
  define w where "w = (if v > 10 then 10 else v)"
  have w: "9.901 \<le> w" "w \<le> 10" "voltage_raw v = voltage_raw w" using assms by (auto simp: w_def voltage_raw_def)
  moreover have "near 12 (dac_steps w) (w / 9.9 * 4095)" using dac_steps_near [OF near_refl, of w] w(1) by simp
  ultimately have s: "4095 \<le> dac_steps w" "dac_steps w < 65536" by (auto simp: near_def left_diff_distrib distrib_right)
  then have "unat (voltage_raw w) = min 4095 (nat \<lfloor>dac_steps w\<rfloor>)" using w by (intro voltage_raw_steps) auto
  moreover have "4095 \<le> nat \<lfloor>dac_steps w\<rfloor>" using s(1) by linarith
  ultimately have "unat (voltage_raw w) = unat (4095 :: u16)" by simp
  then show ?thesis using w(3) by (simp only: unat_inject)
qed

theorem full_scale: "9.92 \<le> v \<Longrightarrow> voltage_raw v = 4095"
  by (rule last_step) simp

text \<open>The voltage of an input, in terms of the value it holds.\<close>

lemma input_voltage_near:
  assumes "channel < 4"
  shows "near 12 (analog_input_read_voltage b channel) (real (unat (ai_raw_values b ! unat channel)) * 9.9 / 4095)"
proof -
  define n r where "n = unat (ai_raw_values b ! unat channel)" and "r = real n"
  let ?c = "rnd32 3.3" and ?v = "analog_input_read_voltage b channel"
  have r: "r = 0 \<or> 1 \<le> r" "0 \<le> r" by (auto simp: r_def)
  have "\<not> 4 \<le> channel" using assms by simp
  then have v: "?v = rnd32 (rnd32 (rnd32 (r / 4095) * ?c) * 3)"
    by (simp add: analog_input_read_voltage_def r_def n_def)
  have "near (0 + 3) (rnd32 (r / 4095)) (r / 4095)" by (rule near_rnd32) (use r near_refl in auto)
  then have "near (0 + 3 + 3) (rnd32 (r / 4095) * ?c) (r / 4095 * 3.3)" by (rule near_ref) simp_all
  then have "near (0 + 3 + 3 + 3) (rnd32 (rnd32 (r / 4095) * ?c)) (r / 4095 * 3.3)" by (rule near_rnd32) (use r in auto)
  then have "near (0 + 3 + 3 + 3) (rnd32 (rnd32 (r / 4095) * ?c) * 3) (r / 4095 * 3.3 * 3)" by (rule near_scale) simp
  then have "near (0 + 3 + 3 + 3 + 3) ?v (r / 4095 * 3.3 * 3)" unfolding v by (rule near_rnd32) (use r in auto)
  moreover have "r / 4095 * 3.3 * 3 = r * 9.9 / 4095" by simp
  ultimately show ?thesis by (simp add: r_def n_def)
qed

text \<open>
  C40: Writing the voltage that an input shows gives the same step or the one below: the conversions are
  inverse to one another up to the fraction that is cut off. A value past the 12 bits of the converter,
  which \<open>analog_inputs_scan_all\<close> can leave in an input when a conversion times out, gives the last step.
  An input that holds a value of the converter shows at most 9.91 volts.
\<close>

theorem voltage_roundtrip:
  assumes "channel < 4" and "ai_raw_values b ! unat channel = raw"
  shows "(raw \<le> 4095 \<longrightarrow> unat (voltage_raw (analog_input_read_voltage b channel)) \<in> {unat raw - 1, unat raw} \<and>
      analog_input_read_voltage b channel \<le> 9.91) \<and>
    (raw > 4095 \<longrightarrow> voltage_raw (analog_input_read_voltage b channel) = 4095)"
proof -
  define n r where "n = unat raw" and "r = real n"
  let ?v = "analog_input_read_voltage b channel"
  have nv: "near 12 ?v (r * 9.9 / 4095)" using input_voltage_near [OF assms(1), of b, unfolded assms(2)] by (simp only: r_def n_def)
  have "unat (voltage_raw ?v) \<in> {unat raw - 1, unat raw} \<and> ?v \<le> 9.91" if "raw \<le> 4095"
  proof -
    have n: "n \<le> 4095" using that by (simp add: n_def word_le_nat_alt)
    then have r: "r = 0 \<or> 1 \<le> r" "r \<le> 4095" "0 \<le> r" by (auto simp: r_def)
    then have volts: "0 \<le> ?v" "?v \<le> 9.91" using nv by (auto simp: near_def)
    have "near 24 (dac_steps ?v) r" using dac_steps_near [OF nv] r by auto
    then have s: "0 \<le> dac_steps ?v" "r - 1 / 100 \<le> dac_steps ?v" "dac_steps ?v \<le> r + 1 / 100"
      using r by (auto simp: near_def left_diff_distrib distrib_right)
    have "unat (voltage_raw ?v) = min 4095 (nat \<lfloor>dac_steps ?v\<rfloor>)" using volts s r by (intro voltage_raw_steps) auto
    moreover have "nat \<lfloor>dac_steps ?v\<rfloor> = n - 1 \<or> nat \<lfloor>dac_steps ?v\<rfloor> = n" using s unfolding r_def by linarith
    ultimately have "unat (voltage_raw ?v) = unat raw - 1 \<or> unat (voltage_raw ?v) = unat raw"
      using n by (auto simp: n_def)
    with volts(2) show ?thesis by blast
  qed
  moreover have "voltage_raw ?v = 4095" if "raw > 4095"
  proof (rule last_step)
    have "4096 \<le> n" using that by (simp add: n_def word_less_nat_alt)
    then have "4096 \<le> r" by (simp add: r_def)
    then have "9.902 \<le> r * 9.9 / 4095" by simp
    moreover have "(1 - 12 / 2 ^ 24) * (r * 9.9 / 4095) \<le> ?v" using nv by (simp add: near_def)
    ultimately show "9.901 \<le> ?v" by simp
  qed
  ultimately show ?thesis by blast
qed

lemma voltage_roundtrip_witness:
  "unat (voltage_raw (analog_input_read_voltage \<lparr>digital_input_states = 0, digital_output_states = 0, di_debounce = [],
     relay_states = 0, ai_raw_values = [0, 2048, 4095, 7], hw = []\<rparr> 1)) \<in> {2047, 2048}"
  using voltage_roundtrip [of 1 "\<lparr>digital_input_states = 0, digital_output_states = 0, di_debounce = [],
     relay_states = 0, ai_raw_values = [0, 2048, 4095, 7], hw = []\<rparr>" 2048] by simp

end
