(* ===== verification/Firmware.thy ===== *)
theory Firmware
  imports Master_Rtu Ethernet Can_Driver Analog_Volt
begin

text \<open>
  The whole firmware, \<open>src/main.c\<close>: initialisation, one round of the endless loop with the demo of the
  master, and the yield pump that keeps the rest of the board running while the master waits. The
  state of the ports has everything else in its environment: the record \<open>firmware\<close> with the CANopen
  node, the Ethernet port and the outside world. Slave and node share one board; the copy in the slave
  is the current one, and calls of the node work on it. The hardware is the record \<open>machine\<close> of
  functions over the world. Interrupts of the initialisation are taken after it.
\<close>

section \<open>State\<close>

record 'e machine =
  uart_transmit :: "usart \<Rightarrow> u8 list \<Rightarrow> u32 \<Rightarrow> 'e \<Rightarrow> bool \<times> irq list \<times> 'e"
  uart_clock :: "usart \<Rightarrow> 'e \<Rightarrow> u32 \<times> (nat \<Rightarrow> u32) \<times> irq list \<times> 'e"
  pending_irqs :: "'e \<Rightarrow> irq list \<times> systick \<times> 'e"
  bxcan :: "'e can_hal"
  eth_frames :: "'e \<Rightarrow> u8 list list \<times> 'e"
  di_port :: "'e \<Rightarrow> u32"

record 'e firmware =
  g_canopen_node :: canopen_node
  g_can :: can
  g_eth :: ethernet
  s_last_yield_tick :: u32
  world :: 'e

type_synonym 'e ports = "'e firmware serial"

text \<open>The statics of the demo and the two times that \<open>main\<close> keeps.\<close>

record demo =
  master_demo_ok_count :: u32
  master_demo_err_count :: u32
  master_demo_last_status :: modbus_status
  master_demo_last_exception :: u8
  master_demo_last_regs :: "u16 list"
  master_demo_write_value :: u16
  master_demo_diag_echo :: u16
  master_demo_seq :: u16

record 'e app =
  app_ports :: "'e ports"
  last_scan_tick :: u32
  master_demo_last_run :: u32
  app_demo :: demo

text \<open>The hardware as the ports see it.\<close>

definition port_hal :: "'e machine \<Rightarrow> 'e firmware hal" where
  "port_hal m =
     \<lparr>HAL_UART_Transmit = (\<lambda>u data t h. case uart_transmit m u data t (world h) of (ok, irqs, w) \<Rightarrow> (ok, irqs, h\<lparr>world := w\<rparr>)),
      t35_readings = (\<lambda>u h. case uart_clock m u (world h) of (start, time, irqs, w) \<Rightarrow> (start, time, irqs, h\<lparr>world := w\<rparr>)),
      poll_irqs = (\<lambda>h. case pending_irqs m (world h) of (irqs, k, w) \<Rightarrow> (irqs, k, h\<lparr>world := w\<rparr>)),
      yield_cb = None\<rparr>"

section \<open>Parts of the state\<close>

definition on_slave :: "(slave \<Rightarrow> slave) \<Rightarrow> 'e ports \<Rightarrow> 'e ports" where
  "on_slave f p = p\<lparr>local_slave := f (local_slave p)\<rparr>"

definition on_board :: "(board \<Rightarrow> board) \<Rightarrow> 'e ports \<Rightarrow> 'e ports" where
  "on_board f = on_slave (\<lambda>s. s\<lparr>s_board := f (s_board s)\<rparr>)"

text \<open>The node and its variables, on the board; and putting them back.\<close>

definition the_node :: "'e ports \<Rightarrow> canopen_node \<times> can" where
  "the_node p = (g_canopen_node (env p), (g_can (env p))\<lparr>co_board := s_board (local_slave p)\<rparr>)"

definition put_node :: "canopen_node \<times> can \<Rightarrow> 'e ports \<Rightarrow> 'e ports" where
  "put_node s p = p\<lparr>local_slave := (local_slave p)\<lparr>s_board := co_board (snd s)\<rparr>,
     env := (env p)\<lparr>g_canopen_node := fst s, g_can := snd s\<rparr>\<rparr>"

definition on_node :: "(canopen_node \<times> can \<Rightarrow> (canopen_node \<times> can) option) \<Rightarrow> 'e ports \<Rightarrow> 'e ports option" where
  "on_node f p = do { s \<leftarrow> f (the_node p); Some (put_node s p) }"

definition on_can :: "(can \<Rightarrow> can option) \<Rightarrow> 'e ports \<Rightarrow> 'e ports option" where
  "on_can f = on_node (\<lambda>(node, c). do { c \<leftarrow> f c; Some (node, c) })"

section \<open>Services of the loop and of the pump\<close>

definition serve_can :: "'e machine \<Rightarrow> 'e ports \<Rightarrow> 'e ports option" where
  "serve_can m p = do {
     (s, w) \<leftarrow> service_can (bxcan m) (world (env p)) (the_node p);
     let p = put_node s p;
     Some (p\<lparr>env := (env p)\<lparr>world := w\<rparr>\<rparr>)
   }"

definition serve_rs485 :: "'e machine \<Rightarrow> 'e ports \<Rightarrow> 'e ports option" where
  "serve_rs485 m p = do {
     (k, p) \<leftarrow> next_round (port_hal m) p;
     rs485_process default_hooks (port_hal m) k p
   }"

definition serve_rs232 :: "'e machine \<Rightarrow> 'e ports \<Rightarrow> 'e ports option" where
  "serve_rs232 m p = do {
     (k, p) \<leftarrow> next_round (port_hal m) p;
     rs232_process default_hooks (port_hal m) k p
   }"

definition serve_ethernet :: "'e machine \<Rightarrow> 'e ports \<Rightarrow> 'e ports option" where
  "serve_ethernet m p = do {
     let (frames, w) = eth_frames m (world (env p));
     (e, s) \<leftarrow> ethernet_process default_hooks (modbus_tcp_init 1) frames (g_eth (env p), local_slave p);
     Some (p\<lparr>local_slave := s, env := (env p)\<lparr>g_eth := e, world := w\<rparr>\<rparr>)
   }"

definition master_yield_pump :: "'e machine \<Rightarrow> 'e ports \<Rightarrow> 'e ports option" where
  "master_yield_pump m p = do {
     let now = sys_tick p;
     let delta = now - s_last_yield_tick (env p);
     let p = p\<lparr>env := (env p)\<lparr>s_last_yield_tick := now\<rparr>\<rparr>;
     p \<leftarrow> serve_can m p;
     p \<leftarrow> (if delta > 0 then on_node (canopen_process delta) p else Some p);
     p \<leftarrow> on_can canopen_app_sync_outputs p;
     p \<leftarrow> serve_rs232 m p;
     serve_ethernet m p
   }"

text \<open>The master on the RS485 port, with the pump as its yield callback.\<close>

definition fw_hal :: "'e machine \<Rightarrow> 'e firmware hal" where
  "fw_hal m = modbus_master_rtu_set_yield_callback (Some (master_yield_pump m)) (port_hal m)"

section \<open>The demo\<close>

definition outcome_status :: "'a outcome \<Rightarrow> modbus_status" where
  "outcome_status r = (case r of Inl st \<Rightarrow> st | Inr _ \<Rightarrow> MODBUS_OK)"

text \<open>Status and exception code after a call, and the error count when it failed.\<close>

definition demo_note :: "'a outcome \<Rightarrow> u8 \<Rightarrow> demo \<Rightarrow> demo" where
  "demo_note r ex d = d\<lparr>master_demo_last_status := outcome_status r, master_demo_last_exception := ex\<rparr>"

definition demo_error :: "demo \<Rightarrow> demo" where
  "demo_error d = d\<lparr>master_demo_err_count := master_demo_err_count d + 1\<rparr>"

definition demo_regs :: "nat \<Rightarrow> u16 list \<Rightarrow> demo \<Rightarrow> demo option" where
  "demo_regs n regs d = for_n n (\<lambda>i d. do {
     v \<leftarrow> rd regs i; l \<leftarrow> wr (master_demo_last_regs d) i v; Some (d\<lparr>master_demo_last_regs := l\<rparr>) }) d"

definition master_demo_run :: "'w master \<Rightarrow> demo \<times> 'w \<Rightarrow> (demo \<times> 'w) option" where
  "master_demo_run m s = (case s of (d, w) \<Rightarrow> do {
     (r, ex, w) \<leftarrow> modbus_master_read_holding_registers m 2 0 2 w;
     let d = demo_note r ex d;
     (case r of Inl _ \<Rightarrow> Some (demo_error d, w)
      | Inr regs \<Rightarrow> do {
     d \<leftarrow> demo_regs 2 regs d;
     let d = d\<lparr>master_demo_write_value := master_demo_seq d, master_demo_seq := master_demo_seq d + 1\<rparr>;
     (r, ex, w) \<leftarrow> modbus_master_write_single_register m 2 0 (master_demo_write_value d) w;
     let d = demo_note r ex d;
     (case r of Inl _ \<Rightarrow> Some (demo_error d, w)
      | Inr _ \<Rightarrow> do {
     (r, ex, w) \<leftarrow> modbus_master_read_holding_registers m 2 0 1 w;
     let d = demo_note r ex d;
     (case r of Inl _ \<Rightarrow> Some (demo_error d, w)
      | Inr regs \<Rightarrow> do {
     d \<leftarrow> demo_regs 1 regs d;
     (r, ex, w) \<leftarrow> modbus_master_diag_query_data m 2 0xA5A5 w;
     let d = demo_note r ex d;
     (case r of Inl _ \<Rightarrow> Some (demo_error d, w)
      | Inr echo \<Rightarrow>
        if echo \<noteq> 0xA5A5 then Some (demo_error d, w)
        else Some (d\<lparr>master_demo_diag_echo := echo, master_demo_ok_count := master_demo_ok_count d + 1\<rparr>, w)) }) }) }) })"

section \<open>Start and loop\<close>

text \<open>
  Scanning the inputs. What \<open>analog_inputs_scan_all\<close> meets is \<open>adc_scans\<close> of the node's variables, as for
  its other calls.
\<close>

definition publish_analog :: "u16 list \<Rightarrow> 'e ports \<Rightarrow> 'e ports option" where
  "publish_analog ai_buf = for_n 4 (\<lambda>i p. do {
     v \<leftarrow> rd ai_buf i;
     let p = on_slave (modbus_write_holding_register (100 + of_nat i) v) p;
     on_can (canopen_set_analog_input (of_nat i) v) p
   })"

definition scan_inputs :: "'e machine \<Rightarrow> u32 \<Rightarrow> 'e ports \<Rightarrow> 'e ports option" where
  "scan_inputs m delta_ms p = do {
     let p = on_board (digital_inputs_scan (di_port m (world (env p)))) p;
     let di = digital_inputs_read_all (s_board (local_slave p));
     p \<leftarrow> on_can (canopen_set_digital_inputs di) p;
     let c = g_can (env p);
     let (ai_buf, adc) = adc_scans c (adc_count c);
     (ai_buf, b) \<leftarrow> analog_inputs_scan_all adc ai_buf (s_board (local_slave p));
     let p = on_board (\<lambda>_. b) (p\<lparr>env := (env p)\<lparr>g_can := c\<lparr>adc_count := adc_count c + 1\<rparr>\<rparr>\<rparr>);
     p \<leftarrow> publish_analog ai_buf p;
     let p = on_slave (modbus_sync_inputs default_hooks) p;
     on_node (canopen_process delta_ms) p
   }"

definition main_init :: "'e ports \<Rightarrow> 'e ports option" where
  "main_init p = do {
     let p = on_board (\<lambda>b. analog_outputs_init (relays_init (digital_outputs_init b))) p;
     let p = rs232_init 115200 (rs485_init 115200 p);
     let p = p\<lparr>env := (env p)\<lparr>g_eth := ethernet_init (g_eth (env p))\<rparr>\<rparr>;
     let p = on_slave (modbus_rtu_init 1) p;
     let p = p\<lparr>s_waiting := False, s_frame_ready := False, s_frame_len := 0\<rparr>;
     r \<leftarrow> canopen_init 1 None (snd (the_node p));
     let p = (case r of Some s \<Rightarrow> put_node s p | None \<Rightarrow> p);
     let p = rs232_set_rx_callback True (rs485_set_rx_callback True p);
     let p = p\<lparr>env := (env p)\<lparr>g_eth := ethernet_set_rx_callback True (g_eth (env p))\<rparr>\<rparr>;
     Some (on_board (\<lambda>b. analog_output_write_voltage 1 0 (analog_output_write_voltage 0 0 b)) p)
   }"

definition fw_master :: "'e machine \<Rightarrow> 'e ports master" where
  "fw_master m = \<lparr>s_transport = Some (rtu_transport default_hooks (fw_hal m)), s_timeout_ms = 500\<rparr>"

definition main_iteration :: "'e machine \<Rightarrow> 'e app \<Rightarrow> 'e app option" where
  "main_iteration m s = do {
     (_, p) \<leftarrow> next_round (port_hal m) (app_ports s);
     let now = sys_tick p;
     (s, p) \<leftarrow> (if now - last_scan_tick s \<ge> 10
       then do { p \<leftarrow> scan_inputs m (now - last_scan_tick s) p; Some (s\<lparr>last_scan_tick := now\<rparr>, p) }
       else Some (s, p));
     p \<leftarrow> serve_can m p;
     p \<leftarrow> on_can canopen_app_sync_outputs p;
     p \<leftarrow> serve_rs485 m p;
     (s, p) \<leftarrow> (if now - master_demo_last_run s \<ge> 2000
       then do {
         (d, p) \<leftarrow> master_demo_run (fw_master m) (app_demo s, p);
         Some (s\<lparr>master_demo_last_run := now, app_demo := d\<rparr>, p)
       } else Some (s, p));
     p \<leftarrow> serve_rs232 m p;
     p \<leftarrow> serve_ethernet m p;
     Some (s\<lparr>app_ports := p\<rparr>)
   }"

primrec main_loop :: "'e machine \<Rightarrow> nat \<Rightarrow> 'e app \<Rightarrow> 'e app option" where
  "main_loop m 0 s = Some s"
| "main_loop m (Suc n) s = do { s \<leftarrow> main_iteration m s; main_loop m n s }"

end
