(* ===== verification/Firmware_Props.thy ===== *)
theory Firmware_Props
  imports Firmware
begin

text \<open>
  The firmware keeps running: every service, the pump, the demo and with them every round of the main
  loop come to their end in a well-formed state. \<open>machine_ok\<close> is what is asked of the hardware. The
  locale \<open>machine_env\<close> gives \<open>polling_env\<close>, the contract of the RS485 master, for the hardware with
  the pump as yield callback.
\<close>

section \<open>Hardware\<close>

text \<open>
  The clock runs during a busy wait, a busy wait or a transmission takes at most \<open>D\<close> milliseconds, and
  polling sees at most one SysTick interrupt at a time and eventually one: \<open>quiet\<close> bounds the rounds
  left. CAN messages come in buffers of eight bytes, and reading drains the FIFO: \<open>left\<close> bounds its
  content and what still arrives.
\<close>

definition machine_ok :: "'e machine \<Rightarrow> ('e \<Rightarrow> nat) \<Rightarrow> ('e \<Rightarrow> nat) \<Rightarrow> nat \<Rightarrow> bool" where
  "machine_ok m quiet left D \<longleftrightarrow>
     (\<forall>u w. case uart_clock m u w of (start, time, irqs, w') \<Rightarrow>
        (\<exists>i. 40000 \<le> time i - start) \<and> ticks irqs \<le> D \<and> (ticks irqs = 0 \<longrightarrow> quiet w' \<le> quiet w)) \<and>
     (\<forall>u data t w. case uart_transmit m u data t w of (ok, irqs, w') \<Rightarrow>
        ticks irqs \<le> D \<and> (ticks irqs = 0 \<longrightarrow> quiet w' \<le> quiet w)) \<and>
     (\<forall>w. case pending_irqs m w of (irqs, k, w') \<Rightarrow> ticks irqs \<le> 1 \<and> (ticks irqs = 0 \<longrightarrow> quiet w' < quiet w)) \<and>
     (\<forall>w. case HAL_CAN_GetRxMessage (bxcan m) w of (msg, w') \<Rightarrow> quiet w' \<le> quiet w \<and>
        (case msg of Some (hdr, data) \<Rightarrow>
           length data = 8 \<and> (HAL_CAN_GetRxFifoFillLevel (bxcan m) w \<noteq> 0 \<longrightarrow> left w' < left w) | None \<Rightarrow> True)) \<and>
     (\<forall>w. quiet (snd (eth_frames m w)) \<le> quiet w) \<and>
     4 * D + 501 < 2 ^ 32"

text \<open>The node in the environment of the ports.\<close>

definition fw_ok :: "'e firmware \<Rightarrow> bool" where
  "fw_ok h \<longleftrightarrow> node_ok canopen_default_od_get 1 (g_canopen_node h, g_can h) \<and> co_app (g_can h) = Board_App"

definition live :: "'e ports \<Rightarrow> bool" where
  "live p \<longleftrightarrow> serial_wf 40000 p \<and> fw_ok (env p)"

text \<open>
  The heartbeat under observation: since the log was \<open>L\<close>, a frame on the heartbeat identifier was sent,
  or at most \<open>k\<close> milliseconds remain of the period \<open>P\<close>; a period 0 is no heartbeat.
\<close>

definition watched :: "canopen_frame list \<Rightarrow> u16 \<Rightarrow> nat \<Rightarrow> 'e firmware \<Rightarrow> bool" where
  "watched L P k h \<longleftrightarrow> heartbeat_period_ms (node_nmt (g_canopen_node h)) = P \<and>
     (\<exists>fs. tx_log (g_can h) = L @ fs \<and>
        (P = 0 \<or> (\<exists>fr \<in> set fs. cob_id fr = 0x701) \<or> unat (heartbeat_timer_ms (node_nmt (g_canopen_node h))) \<le> k))"

lemma watched_upd [simp]:
  "watched L P k (h\<lparr>world := w\<rparr>) = watched L P k h" "watched L P k (h\<lparr>g_eth := e\<rparr>) = watched L P k h"
  "watched L P k (h\<lparr>s_last_yield_tick := t\<rparr>) = watched L P k h"
  by (simp_all add: watched_def)

lemma watched_adc [simp]: "watched L P k (h\<lparr>g_can := (g_can h)\<lparr>adc_count := n\<rparr>\<rparr>) = watched L P k h"
  by (simp add: watched_def)

lemma watched_start: "watched (tx_log (g_can h)) (heartbeat_period_ms (node_nmt (g_canopen_node h)))
    (unat (heartbeat_timer_ms (node_nmt (g_canopen_node h)))) h"
  by (simp add: watched_def)

lemma watched_mono: "watched L P k h \<Longrightarrow> k \<le> k' \<Longrightarrow> watched L P k' h"
  by (auto simp: watched_def intro: le_trans)

lemma fw_ok_upd [simp]:
  "fw_ok (h\<lparr>world := w\<rparr>) = fw_ok h" "fw_ok (h\<lparr>g_eth := e\<rparr>) = fw_ok h" "fw_ok (h\<lparr>s_last_yield_tick := t\<rparr>) = fw_ok h"
  by (simp_all add: fw_ok_def)

lemma the_node_ok: "live p \<Longrightarrow> node_ok canopen_default_od_get 1 (the_node p)"
  using slave_wfD(12) [OF serial_wfD(3) [of 40000 p]]
  by (auto simp: live_def fw_ok_def the_node_def node_ok_def intro!: can_wf_board)

lemma live_app: "live p \<Longrightarrow> co_app (snd (the_node p)) = Board_App"
  by (simp add: live_def fw_ok_def the_node_def)

lemma put_node_live:
  "live p \<Longrightarrow> node_ok canopen_default_od_get 1 s \<Longrightarrow> co_app (snd s) = Board_App \<Longrightarrow> live (put_node s p)"
  using serial_wfD(3) [of 40000 p]
  by (auto simp: live_def fw_ok_def put_node_def node_ok_def can_wf_def)

lemma on_slave_live: "live p \<Longrightarrow> (\<And>s. slave_wf s \<Longrightarrow> slave_wf (f s)) \<Longrightarrow> live (on_slave f p)"
  using serial_wfD(3) [of 40000 p] by (auto simp: live_def on_slave_def)

section \<open>Services\<close>

abbreviation keeps_watch :: "'e ports \<Rightarrow> 'e ports \<Rightarrow> bool" where
  "keeps_watch p q \<equiv> \<forall>L P k. watched L P k (env p) \<longrightarrow> watched L P k (env q)"

text \<open>Time that passes in a step, in which the observation of the heartbeat stays true.\<close>

definition passes :: "('e \<Rightarrow> nat) \<Rightarrow> nat \<Rightarrow> 'e ports \<Rightarrow> 'e ports \<Rightarrow> bool" where
  "passes quiet n p q \<longleftrightarrow> s_waiting q = s_waiting p \<and> rs485_de q = rs485_de p \<and> sys_tick q = sys_tick p + of_nat n \<and>
     (n = 0 \<longrightarrow> quiet (world (env q)) \<le> quiet (world (env p))) \<and>
     keeps_watch p q"

lemma passes_trans: "passes quiet n p q \<Longrightarrow> passes quiet k q r \<Longrightarrow> passes quiet (n + k) p r"
  by (auto simp: passes_def)

lemma put_node_simps [simp]:
  "the_node (put_node s p) = s" "put_node s (put_node t p) = put_node s p" "sys_tick (put_node s p) = sys_tick p"
  "local_slave (put_node s p) = (local_slave p)\<lparr>s_board := co_board (snd s)\<rparr>"
  by (simp_all add: put_node_def the_node_def prod_eq_iff)

lemma put_node_passes:
  "node_nmt (fst s) = node_nmt (g_canopen_node (env p)) \<Longrightarrow> tx_log (snd s) = tx_log (g_can (env p)) \<Longrightarrow> passes quiet 0 p (put_node s p)"
  by (simp add: passes_def watched_def put_node_def)

lemma on_slave_passes [simp]: "passes quiet 0 p (on_slave f p)"
  by (simp add: passes_def on_slave_def)

text \<open>A call of the node keeps it well formed, and its time counts towards the next heartbeat.\<close>

lemma node_call_live:
  assumes "live p" "call_ok e"
  shows "\<exists>t. node_call e (the_node p) = Some t \<and> live (put_node t p) \<and> passes quiet 0 p (put_node t p) \<and>
    (\<forall>L P k. watched L P k (env p) \<longrightarrow> watched L P (k - tick e) (env (put_node t p)))"
proof -
  from board_od.node_call_keeps [OF the_node_ok [OF assms(1)] assms(2)] obtain t where
    t: "node_call e (the_node p) = Some t" "board_od.call_keeps 1 (the_node p) t" "board_od.countdown 1 (tick e) (the_node p) t" by blast
  then have ok: "node_ok canopen_default_od_get 1 t" "co_app (snd t) = Board_App"
    using shows_on_board(2) [OF _ live_app [OF assms(1)]] by (auto simp: board_od.call_keeps_def)
  obtain fs where fs: "tx_log (snd t) = tx_log (g_can (env p)) @ fs"
    using t(2) by (auto simp: board_od.call_keeps_def sends_def the_node_def)
  have w: "watched L P (k - tick e) (env (put_node t p))" if "watched L P k (env p)" for L P k
  proof -
    from that obtain gs where gs: "tx_log (g_can (env p)) = L @ gs"
        "heartbeat_period_ms (node_nmt (g_canopen_node (env p))) = P"
        "P = 0 \<or> (\<exists>fr \<in> set gs. cob_id fr = 0x701) \<or> unat (heartbeat_timer_ms (node_nmt (g_canopen_node (env p)))) \<le> k"
      by (auto simp: watched_def)
    have beat: "\<exists>fr \<in> set fs. cob_id fr = 0x701" if "beats 1 (the_node p) t"
      using that fs by (auto simp: beats_def the_node_def)
    have "P = 0 \<or> (\<exists>fr \<in> set (gs @ fs). cob_id fr = 0x701) \<or> unat (heartbeat_timer_ms (node_nmt (fst t))) \<le> k - tick e"
      using gs(2,3) t(3) beat by (auto simp: board_od.countdown_def the_node_def word_gt_0)
    moreover have "heartbeat_period_ms (node_nmt (fst t)) = P" using gs(2) t(3) by (simp add: board_od.countdown_def the_node_def)
    ultimately show ?thesis using gs(1) fs by (simp add: watched_def put_node_def)
  qed
  moreover have "passes quiet 0 p (put_node t p)"
    using watched_mono [OF w diff_le_self] by (simp add: passes_def) (simp add: put_node_def)
  ultimately show ?thesis using t(1) put_node_live [OF assms(1) ok] by blast
qed

lemma process_live:
  assumes "live p"
  shows "\<exists>q. on_node (canopen_process delta) p = Some q \<and> live q \<and> passes quiet 0 p q \<and>
    (\<forall>L P k. watched L P k (env p) \<longrightarrow> watched L P (k - unat delta) (env q))"
  using node_call_live [OF assms, of "Tick delta" quiet] by (auto simp: on_node_def)

lemma on_can_live:
  assumes "live p" and "\<And>s. node_call e s = map_option (Pair (fst s)) (f (snd s))" "call_ok e"
  shows "\<exists>q. on_can f p = Some q \<and> live q \<and> passes quiet 0 p q"
  using node_call_live [OF assms(1,3), of quiet] by (auto simp: assms(2) on_can_def on_node_def split_beta)

lemma sync_live: "live p \<Longrightarrow> \<exists>q. on_can canopen_app_sync_outputs p = Some q \<and> live q \<and> passes quiet 0 p q"
  by (rule on_can_live [where e = Sync_Outputs]) simp_all

locale machine_env =
  fixes m :: "'e machine" and quiet :: "'e \<Rightarrow> nat" and left :: "'e \<Rightarrow> nat" and D :: nat
  assumes machine: "machine_ok m quiet left D"
begin

lemma clock_facts:
  assumes "uart_clock m u w = (start, time, irqs, w')"
  shows "\<exists>i. 40000 \<le> time i - start" "ticks irqs \<le> D" "ticks irqs = 0 \<longrightarrow> quiet w' \<le> quiet w"
proof -
  have "\<forall>u w. case uart_clock m u w of (start, time, irqs, w') \<Rightarrow>
      (\<exists>i. 40000 \<le> time i - start) \<and> ticks irqs \<le> D \<and> (ticks irqs = 0 \<longrightarrow> quiet w' \<le> quiet w)"
    using machine unfolding machine_ok_def by (elim conjE)
  from spec [OF spec [OF this, of u], of w] assms
  show "\<exists>i. 40000 \<le> time i - start" "ticks irqs \<le> D" "ticks irqs = 0 \<longrightarrow> quiet w' \<le> quiet w" by simp_all
qed

lemma transmit_facts:
  assumes "uart_transmit m u data t w = (ok, irqs, w')"
  shows "ticks irqs \<le> D" "ticks irqs = 0 \<longrightarrow> quiet w' \<le> quiet w"
proof -
  have "\<forall>u data t w. case uart_transmit m u data t w of (ok, irqs, w') \<Rightarrow>
      ticks irqs \<le> D \<and> (ticks irqs = 0 \<longrightarrow> quiet w' \<le> quiet w)"
    using machine unfolding machine_ok_def by (elim conjE)
  from spec [OF spec [OF spec [OF spec [OF this, of u], of data], of t], of w] assms show "ticks irqs \<le> D" "ticks irqs = 0 \<longrightarrow> quiet w' \<le> quiet w" by simp_all
qed

lemma pending_facts:
  assumes "pending_irqs m w = (irqs, k, w')"
  shows "ticks irqs \<le> 1" "ticks irqs = 0 \<longrightarrow> quiet w' < quiet w"
proof -
  have "\<forall>w. case pending_irqs m w of (irqs, k, w') \<Rightarrow> ticks irqs \<le> 1 \<and> (ticks irqs = 0 \<longrightarrow> quiet w' < quiet w)"
    using machine unfolding machine_ok_def by (elim conjE)
  from spec [OF this, of w] assms show "ticks irqs \<le> 1" "ticks irqs = 0 \<longrightarrow> quiet w' < quiet w" by simp_all
qed

lemma can_facts:
  assumes "HAL_CAN_GetRxMessage (bxcan m) w = (msg, w')"
  shows "quiet w' \<le> quiet w"
    and "msg = Some (hdr, data) \<Longrightarrow> length data = 8"
    and "msg = Some x \<Longrightarrow> HAL_CAN_GetRxFifoFillLevel (bxcan m) w \<noteq> 0 \<Longrightarrow> left w' < left w"
proof -
  have "\<forall>w. case HAL_CAN_GetRxMessage (bxcan m) w of (msg, w') \<Rightarrow> quiet w' \<le> quiet w \<and>
        (case msg of Some (hdr, data) \<Rightarrow>
           length data = 8 \<and> (HAL_CAN_GetRxFifoFillLevel (bxcan m) w \<noteq> 0 \<longrightarrow> left w' < left w) | None \<Rightarrow> True)"
    using machine unfolding machine_ok_def by (elim conjE)
  from spec [OF this, of w] assms
  show "quiet w' \<le> quiet w" "msg = Some (hdr, data) \<Longrightarrow> length data = 8"
    "msg = Some x \<Longrightarrow> HAL_CAN_GetRxFifoFillLevel (bxcan m) w \<noteq> 0 \<Longrightarrow> left w' < left w" by (auto split: prod.splits)
qed

lemma eth_fact: "quiet (snd (eth_frames m w)) \<le> quiet w"
proof -
  have "\<forall>w. quiet (snd (eth_frames m w)) \<le> quiet w" using machine unfolding machine_ok_def by (elim conjE)
  then show ?thesis ..
qed

lemma short: "4 * D + 501 < 2 ^ 32"
  using machine unfolding machine_ok_def by (elim conjE)

end

sublocale machine_env \<subseteq> port: serial_env default_hooks "port_hal m" 40000
  by unfold_locales (use clock_facts(1) in \<open>auto simp: port_hal_def split: prod.splits\<close>)

sublocale machine_env \<subseteq> fifo: can_fifo "bxcan m" left
  by unfold_locales (use can_facts in blast)+

context machine_env
begin

lemma serve_can_live:
  assumes "live p"
  shows "\<exists>q. serve_can m p = Some q \<and> live q \<and> passes quiet 0 p q"
proof -
  let ?I = "\<lambda>s. live (put_node s p) \<and> passes quiet 0 p (put_node s p)"
  have "quiet (snd (HAL_CAN_GetRxMessage (bxcan m) w)) \<le> quiet w" for w using can_facts(1) by (metis prod.collapse)
  moreover have "\<exists>t. node_call e s = Some t \<and> ?I t" if "?I s" "call_ok e" for e s
  proof -
    from node_call_live [OF conjunct1 [OF that(1)] that(2), of quiet] obtain t where
      "node_call e s = Some t" "live (put_node t p)" "passes quiet 0 (put_node s p) (put_node t p)" by auto
    with that(1) passes_trans [of quiet 0 p "put_node s p" 0 "put_node t p"] show ?thesis by auto
  qed
  moreover have "?I (the_node p)"
    using put_node_live [OF assms the_node_ok [OF assms] live_app [OF assms]] put_node_passes [of "the_node p" p] by (simp add: the_node_def)
  ultimately obtain t w where t: "service_can (bxcan m) (world (env p)) (the_node p) = Some (t, w)"
      "?I t" "quiet w \<le> quiet (world (env p))"
    using fifo.service_is_run [of ?I "the_node p" quiet "world (env p)"] by blast
  then show ?thesis by (simp add: serve_can_def Let_def live_def passes_def)
qed

lemma next_round_live:
  assumes "live p"
  shows "\<exists>k q n. next_round (port_hal m) p = Some (k, q) \<and> live q \<and> passes quiet n p q \<and> n \<le> 1 \<and>
    (n = 0 \<longrightarrow> quiet (world (env q)) < quiet (world (env p)))"
proof -
  obtain irqs k w where r: "pending_irqs m (world (env p)) = (irqs, k, w)" by (metis surj_pair)
  let ?p = "p\<lparr>env := (env p)\<lparr>world := w\<rparr>\<rparr>"
  have "serial_wf 40000 ?p" using assms by (simp add: live_def)
  from take_irqs_total [OF this, of irqs] obtain q where
    q: "take_irqs irqs ?p = Some q" "serial_wf 40000 q" "irq_frame ?p q" "sys_tick q = sys_tick p + of_nat (ticks irqs)" by auto
  have "live q" "passes quiet (ticks irqs) p q" "ticks irqs = 0 \<longrightarrow> quiet (world (env q)) < quiet (world (env p))"
    using q assms pending_facts [OF r] by (auto simp: live_def irq_frame_def passes_def)
  with q(1) r pending_facts(1) [OF r] show ?thesis by (auto simp: next_round_def port_hal_def)
qed

lemma served_passes:
  assumes "served (port_hal m) u p q" "s_waiting q = s_waiting p" "rs485_de q = rs485_de p"
  shows "\<exists>n \<le> 2 * D. passes quiet n p q \<and> (fw_ok (env p) \<longrightarrow> fw_ok (env q))"
proof (cases "env q = env p \<and> sys_tick q = sys_tick p")
  case True
  with assms show ?thesis by (intro exI [of _ 0]) (simp add: passes_def)
next
  case False
  obtain start time irqs w where c: "uart_clock m u (world (env p)) = (start, time, irqs, w)" by (metis surj_pair)
  from False assms(1) c obtain data ok irqs' w' where
    t: "uart_transmit m u data 50 w = (ok, irqs', w')" "env q = (env p)\<lparr>world := w'\<rparr>"
      "sys_tick q = sys_tick p + of_nat (ticks irqs + ticks irqs')"
    by (fastforce simp: served_def port_hal_def split: prod.splits)
  with clock_facts [OF c] transmit_facts [OF t(1)] assms(2,3) show ?thesis
    by (intro exI [of _ "ticks irqs + ticks irqs'"]) (auto simp: passes_def)
qed

lemma serve_rs232_live:
  assumes "live p"
  shows "\<exists>q n. serve_rs232 m p = Some q \<and> live q \<and> passes quiet n p q \<and> n \<le> 2 * D + 1"
proof -
  obtain k q n where q: "next_round (port_hal m) p = Some (k, q)" "live q" "passes quiet n p q" "n \<le> 1"
    using next_round_live [OF assms] by blast
  obtain r where r: "rs232_process default_hooks (port_hal m) k q = Some r" "serial_wf 40000 r"
      "rs485_de r = rs485_de q" "s_waiting r = s_waiting q" "served (port_hal m) USART1 q r"
    using port.rs232_process_total [of q k] q(2) by (auto simp: live_def)
  obtain n' where "n' \<le> 2 * D" "passes quiet n' q r" "fw_ok (env r)"
    using served_passes [OF r(5,4,3)] q(2) by (auto simp: live_def)
  with q r passes_trans [OF q(3), of n' r] show ?thesis by (auto simp: serve_rs232_def live_def)
qed

lemma serve_rs485_live:
  assumes "live p" "\<not> rs485_de p"
  shows "\<exists>q n. serve_rs485 m p = Some q \<and> live q \<and> passes quiet n p q \<and> n \<le> 2 * D + 1"
proof -
  obtain k q n where q: "next_round (port_hal m) p = Some (k, q)" "live q" "passes quiet n p q" "n \<le> 1"
    using next_round_live [OF assms(1)] by blast
  obtain r where r: "rs485_process default_hooks (port_hal m) k q = Some r" "serial_wf 40000 r"
      "\<not> rs485_de r" "s_waiting r = s_waiting q" "served (port_hal m) USART2 q r"
    using port.rs485_process_total [of q k] q(2,3) assms(2) by (auto simp: live_def passes_def)
  obtain n' where "n' \<le> 2 * D" "passes quiet n' q r" "fw_ok (env r)"
    using served_passes [OF r(5,4)] r(3) q(2,3) assms(2) by (auto simp: live_def passes_def)
  with q r passes_trans [OF q(3), of n' r] show ?thesis by (auto simp: serve_rs485_def live_def)
qed

lemma serve_ethernet_live:
  assumes "live p"
  shows "\<exists>q. serve_ethernet m p = Some q \<and> live q \<and> passes quiet 0 p q"
proof -
  obtain frames w where f: "eth_frames m (world (env p)) = (frames, w)" by fastforce
  obtain e s where "ethernet_process default_hooks (modbus_tcp_init 1) frames (g_eth (env p), local_slave p) = Some (e, s)" "slave_wf s"
    using ethernet_process_total [of "local_slave p"] assms serial_wfD(3) by (metis live_def)
  with f assms eth_fact [of "world (env p)"] show ?thesis
    by (simp add: serve_ethernet_def live_def passes_def)
qed

text \<open>The pump comes back, with everything well formed, within the time of one response on RS232.\<close>

lemma pump_live:
  assumes "live p"
  shows "\<exists>q n. master_yield_pump m p = Some q \<and> live q \<and> passes quiet n p q \<and> n \<le> 2 * D + 1"
proof -
  let ?p = "p\<lparr>env := (env p)\<lparr>s_last_yield_tick := sys_tick p\<rparr>\<rparr>" and ?d = "sys_tick p - s_last_yield_tick (env p)"
  have p: "live ?p" "passes quiet 0 p ?p" using assms by (simp_all add: live_def passes_def)
  obtain q1 where q1: "serve_can m ?p = Some q1" "live q1" "passes quiet 0 ?p q1" using serve_can_live [OF p(1)] by blast
  obtain q2 where q2: "(if ?d > 0 then on_node (canopen_process ?d) q1 else Some q1) = Some q2" "live q2" "passes quiet 0 q1 q2"
    using process_live [OF q1(2), of ?d quiet] q1(2) by (cases "?d > 0") (auto simp: passes_def)
  obtain q3 where q3: "on_can canopen_app_sync_outputs q2 = Some q3" "live q3" "passes quiet 0 q2 q3" using sync_live [OF q2(2)] by blast
  obtain q4 n where q4: "serve_rs232 m q3 = Some q4" "live q4" "passes quiet n q3 q4" "n \<le> 2 * D + 1"
    using serve_rs232_live [OF q3(2)] by blast
  obtain q5 where q5: "serve_ethernet m q4 = Some q5" "live q5" "passes quiet 0 q4 q5" using serve_ethernet_live [OF q4(2)] by blast
  have "passes quiet n p q5"
    using passes_trans [OF passes_trans [OF passes_trans [OF passes_trans [OF passes_trans [OF p(2) q1(3)] q2(3)] q3(3)] q4(3)] q5(3)]
    by simp
  with q1(1) q2(1) q3(1) q4 q5 show ?thesis
    by (auto simp: master_yield_pump_def Let_def)
qed

lemma fw_hal_simps [simp]:
  "HAL_UART_Transmit (fw_hal m) = HAL_UART_Transmit (port_hal m)" "t35_readings (fw_hal m) = t35_readings (port_hal m)"
  "poll_irqs (fw_hal m) = poll_irqs (port_hal m)" "run_yield (fw_hal m) = master_yield_pump m"
  by (simp_all add: fw_hal_def modbus_master_rtu_set_yield_callback_def run_yield_def fun_eq_iff)

end

sublocale machine_env \<subseteq> poll: polling_env default_hooks "fw_hal m" 40000 "\<lambda>h. fw_ok h \<and> watched L P k h"
    "\<lambda>h. quiet (world h)" "2 * D + 1" for L P k
proof unfold_locales
  fix h :: "'e firmware" and u data t
  assume "fw_ok h \<and> watched L P k h"
  let ?J = "\<lambda>h. fw_ok h \<and> watched L P k h"
  show "?J (snd (snd (HAL_UART_Transmit (fw_hal m) u data t h)))" "?J (snd (snd (snd (t35_readings (fw_hal m) u h))))"
    "?J (snd (snd (poll_irqs (fw_hal m) h)))"
    using \<open>?J h\<close> by (simp_all add: port_hal_def split: prod.splits)
  show "ticks (fst (poll_irqs (fw_hal m) h)) \<le> 1"
    "ticks (fst (poll_irqs (fw_hal m) h)) = 0 \<Longrightarrow> quiet (world (snd (snd (poll_irqs (fw_hal m) h)))) < quiet (world h)"
    using pending_facts by (auto simp: port_hal_def split: prod.splits)
next
  fix p :: "'e ports"
  assume "serial_wf 40000 p" and J: "fw_ok (env p) \<and> watched L P k (env p)"
  then have "live p" by (simp add: live_def)
  from pump_live [OF this] J show "\<exists>q n. run_yield (fw_hal m) p = Some q \<and> serial_wf 40000 q \<and> (fw_ok (env q) \<and> watched L P k (env q)) \<and>
      s_waiting q \<and> rs485_de q = rs485_de p \<and> sys_tick q = sys_tick p + of_nat n \<and> n \<le> 2 * D + 1 \<and>
      (n = 0 \<longrightarrow> quiet (world (env q)) \<le> quiet (world (env p)))" if "s_waiting p"
    using that by (fastforce simp: live_def passes_def)
qed (use port.clock_runs in auto)

section \<open>Publishing the inputs\<close>

lemma the_node_slave:
  "s_board (f (local_slave p)) = s_board (local_slave p) \<Longrightarrow> the_node (on_slave f p) = the_node p"
  by (simp add: on_slave_def the_node_def)

lemma local_on_slave [simp]: "local_slave (on_slave f p) = f (local_slave p)"
  by (simp add: on_slave_def)

lemma on_can_Some: "f (snd (the_node p)) = Some c \<Longrightarrow> on_can f p = Some (put_node (fst (the_node p), c) p)"
  by (simp add: on_can_def on_node_def split_beta)

text \<open>What one call of \<open>analog_inputs_scan_all\<close> returns: the delivered conversions are in the buffer.\<close>

lemma scan_all_values:
  assumes "length buf = 4" "length (ai_raw_values b) = 4"
  shows "\<exists>buf' raw. analog_inputs_scan_all adc buf b = Some (buf', b\<lparr>ai_raw_values := raw\<rparr>) \<and> length buf' = 4 \<and>
    length raw = 4 \<and> (\<forall>i < 4. \<forall>v. adc i = Some v \<longrightarrow> buf' ! i = v)"
proof -
  have "\<exists>t. for_n 4 (\<lambda>i buf. case adc i of Some v \<Rightarrow> wr buf i v | None \<Rightarrow> Some buf) buf = Some t \<and>
      (length t = 4 \<and> (\<forall>i < 4. \<forall>v. adc i = Some v \<longrightarrow> t ! i = v))"
    by (rule for_n_invariant [where P = "\<lambda>n t. length t = 4 \<and> (\<forall>i < n. \<forall>v. adc i = Some v \<longrightarrow> t ! i = v)"])
      (use assms(1) in \<open>auto simp: wr_def nth_list_update less_Suc_eq split: option.split\<close>)
  then obtain t where t: "for_n 4 (\<lambda>i buf. case adc i of Some v \<Rightarrow> wr buf i v | None \<Rightarrow> Some buf) buf = Some t"
      "length t = 4" "\<forall>i < 4. \<forall>v. adc i = Some v \<longrightarrow> t ! i = v" by blast
  have "\<exists>r. for_n 4 (\<lambda>i raw. do { v \<leftarrow> rd t i; wr raw i v }) (ai_raw_values b) = Some r \<and> length r = 4"
    by (rule for_n_invariant [where P = "\<lambda>_ t. length t = 4"]) (use assms(2) t(2) in \<open>auto simp: wr_def rd_def\<close>)
  with t show ?thesis by (auto simp: analog_inputs_scan_all_def)
qed

lemma publish_live:
  assumes "live p" "length buf = 4"
  shows "\<exists>q. publish_analog buf p = Some q \<and> live q \<and> passes quiet 0 p q \<and> s_board (local_slave q) = s_board (local_slave p) \<and>
    (\<forall>i < 4. holding_regs (local_slave q) ! (100 + i) = buf ! i) \<and>
    (inputs_shown (snd (the_node p)) \<longrightarrow> inputs_shown (snd (the_node q)))"
  unfolding publish_analog_def
proof (rule for_n_invariant [where P = "\<lambda>n q. live q \<and> passes quiet 0 p q \<and> s_board (local_slave q) = s_board (local_slave p) \<and>
    (\<forall>i < n. holding_regs (local_slave q) ! (100 + i) = buf ! i) \<and>
    (inputs_shown (snd (the_node p)) \<longrightarrow> inputs_shown (snd (the_node q)))"], goal_cases)
  case 1
  then show ?case using assms by (simp add: passes_def)
next
  case (2 i q)
  let ?q = "on_slave (modbus_write_holding_register (100 + of_nat i) (buf ! i)) q"
  have wf: "slave_wf s \<Longrightarrow> slave_wf (modbus_write_holding_register a v s)" for a v s
    by (simp add: modbus_write_holding_register_def modbus_regs_write_def slave_wf_def)
  then have lq: "live ?q" using 2 on_slave_live by blast
  have a: "unat (100 + of_nat i :: u16) = 100 + i" using 2(1) by (simp add: unat_word_ariths unat_of_nat)
  have len: "length (holding_regs (local_slave q)) = 256" using 2(2) slave_wfD(1) serial_wfD(3) by (metis live_def)
  have node: "the_node ?q = the_node q" by (rule the_node_slave) (simp add: modbus_write_holding_register_def)
  have "can_wf (snd (the_node q))" using the_node_ok [of q] 2(2) by (simp add: node_ok_def)
  from set_analog_total [OF this 2(1), of "buf ! i"] obtain d where
    d: "canopen_set_analog_input (of_nat i) (buf ! i) (snd (the_node q)) = Some d" "can_wf d"
      "co_board d = co_board (snd (the_node q))" "co_app d = co_app (snd (the_node q))" "tx_log d = tx_log (snd (the_node q))" "store d = (store (snd (the_node q)))(p_analog_inputs i := le16 (buf ! i))" by blast
  let ?r = "put_node (fst (the_node q), d) ?q"
  have r: "do { v \<leftarrow> rd buf i; let p = on_slave (modbus_write_holding_register (100 + of_nat i) v) q;
      on_can (canopen_set_analog_input (of_nat i) v) p } = Some ?r"
    using d(1) assms(2) 2(1) on_can_Some [of "canopen_set_analog_input (of_nat i) (buf ! i)" ?q d] by (simp add: rd_Some node Let_def)
  have "live ?r" using put_node_live [OF lq] the_node_ok [of q] live_app [of q] 2(2) d(2,4) by (simp add: node_ok_def)
  moreover have "passes quiet 0 q ?r"
    using passes_trans [OF on_slave_passes put_node_passes [of "(fst (the_node q), d)" ?q quiet]] d(5) by (simp add: the_node_def on_slave_def)
  then have "passes quiet 0 p ?r" using passes_trans [of quiet 0 p q 0 ?r] 2(2) by simp
  moreover have "s_board (local_slave ?r) = s_board (local_slave p)" using 2(2) d(3) by (simp add: the_node_def)
  moreover have "\<forall>j < Suc i. holding_regs (local_slave ?r) ! (100 + j) = buf ! j"
    using 2 len a by (auto simp: modbus_write_holding_register_def modbus_regs_write_def word_le_nat_alt nth_list_update less_Suc_eq)
  moreover have "inputs_shown (snd (the_node p)) \<longrightarrow> inputs_shown (snd (the_node ?r))"
    using 2(2) d(3,6) by (simp add: inputs_shown_def)
  ultimately show ?case using r by blast
qed

text \<open>
  A scan: the debounced inputs and the conversions delivered are what both protocols show.
\<close>

definition published :: "(nat \<Rightarrow> u16 option) \<Rightarrow> u8 \<Rightarrow> 'e ports \<Rightarrow> bool" where
  "published adc di q \<longleftrightarrow> digital_inputs_read_all (s_board (local_slave q)) = di \<and>
     (\<forall>i < 8. modbus_bit_read (discrete_bits (local_slave q)) (of_nat i) = drop_bit i di AND 1) \<and>
     store (g_can (env q)) p_digital_inputs = [di] \<and>
     (\<forall>i < 4. input_regs (local_slave q) ! i = holding_regs (local_slave q) ! (100 + i)) \<and>
     (\<forall>i < 4. \<forall>v. adc i = Some v \<longrightarrow> input_regs (local_slave q) ! i = v)"

lemma scan_inputs_live:
  assumes "live p"
  shows "\<exists>q. scan_inputs m delta p = Some q \<and> live q \<and> passes quiet 0 p q \<and>
    (\<forall>L P k. watched L P k (env p) \<longrightarrow> watched L P (k - unat delta) (env q)) \<and>
    published (snd (adc_scans (g_can (env p)) (adc_count (g_can (env p)))))
      (digital_inputs_read_all (digital_inputs_scan (di_port m (world (env p))) (s_board (local_slave p)))) q"
proof -
  define di where "di = digital_inputs_read_all (digital_inputs_scan (di_port m (world (env p))) (s_board (local_slave p)))"
  define p1 where "p1 = on_board (digital_inputs_scan (di_port m (world (env p)))) p"
  have p1: "live p1" "passes quiet 0 p p1" "digital_inputs_read_all (s_board (local_slave p1)) = di"
      "g_can (env p1) = g_can (env p)"
    unfolding p1_def on_board_def using assms
    by (auto intro!: on_slave_live slave_wf_board board_wf_ops dest: slave_wfD(12)) (simp_all add: di_def on_slave_def)
  have w: "can_wf (snd (the_node p1))" "node_wf canopen_default_od_get 1 (fst (the_node p1))"
    using the_node_ok [OF p1(1)] by (simp_all add: node_ok_def)
  from set_input_total [OF w(1), of di] obtain c where
    c: "canopen_set_digital_inputs di (snd (the_node p1)) = Some c" "can_wf c" "co_board c = co_board (snd (the_node p1))"
      "co_app c = co_app (snd (the_node p1))" "tx_log c = tx_log (snd (the_node p1))" "adc_scans c = adc_scans (snd (the_node p1))" "adc_count c = adc_count (snd (the_node p1))"
      "store c = (store (snd (the_node p1)))(p_digital_inputs := [di])" by blast
  define p2 where "p2 = put_node (fst (the_node p1), c) p1"
  have b2: "s_board (local_slave p2) = s_board (local_slave p1)" using c(3) by (simp add: p2_def the_node_def)
  have p2: "on_can (canopen_set_digital_inputs di) p1 = Some p2" "live p2" "passes quiet 0 p1 p2" "g_can (env p2) = c"
    using on_can_Some [where f = "canopen_set_digital_inputs di", OF c(1)] put_node_live [OF p1(1), of "(fst (the_node p1), c)"] w(2) c(2,4,5) live_app [OF p1(1)]
      put_node_passes [of "(fst (the_node p1), c)" p1 quiet]
    by (simp_all add: p2_def node_ok_def the_node_def) (simp add: put_node_def)
  obtain buf adc where scans: "adc_scans (g_can (env p)) (adc_count (g_can (env p))) = (buf, adc)" by fastforce
  have c_scans: "adc_scans c (adc_count c) = (buf, adc)" using c(6,7) scans p1(4) by (simp add: the_node_def)
  have "length buf = 4" using c(2) c_scans by (metis can_wf_def fst_conv)
  moreover have bw: "board_wf (s_board (local_slave p2))" using p2(2) slave_wfD(12) serial_wfD(3) by (metis live_def)
  ultimately obtain buf' raw where s: "analog_inputs_scan_all adc buf (s_board (local_slave p2)) =
      Some (buf', (s_board (local_slave p2))\<lparr>ai_raw_values := raw\<rparr>)" "length buf' = 4" "length raw = 4"
      "\<forall>i < 4. \<forall>v. adc i = Some v \<longrightarrow> buf' ! i = v"
    using scan_all_values [of buf "s_board (local_slave p2)" adc] by (auto simp: board_wf_def)
  define p3 where "p3 = on_board (\<lambda>_. (s_board (local_slave p2))\<lparr>ai_raw_values := raw\<rparr>)
      (p2\<lparr>env := (env p2)\<lparr>g_can := c\<lparr>adc_count := adc_count c + 1\<rparr>\<rparr>\<rparr>)"
  have "board_wf ((s_board (local_slave p2))\<lparr>ai_raw_values := raw\<rparr>)" using bw s(3) by (simp add: board_wf_def)
  then have p3: "live p3" "passes quiet 0 p2 p3" "digital_inputs_read_all (s_board (local_slave p3)) = di"
      "inputs_shown (snd (the_node p3))"
    using p2(2,4) p1(3) b2 c(2,8) serial_wfD(3) [of 40000 p2]
    by (auto simp: p3_def on_board_def on_slave_def live_def fw_ok_def node_ok_def passes_def inputs_shown_def the_node_def
        digital_inputs_read_all_def)
  obtain p4 where p4: "publish_analog buf' p3 = Some p4" "live p4" "passes quiet 0 p3 p4" "s_board (local_slave p4) = s_board (local_slave p3)"
      "\<forall>i < 4. holding_regs (local_slave p4) ! (100 + i) = buf' ! i" "inputs_shown (snd (the_node p4))"
    using publish_live [OF p3(1) s(2), of quiet] p3(4) by blast
  define p5 where "p5 = on_slave (modbus_sync_inputs default_hooks) p4"
  have wf4: "slave_wf (local_slave p4)" using p4(2) serial_wfD(3) by (metis live_def)
  have node5: "the_node p5 = the_node p4" unfolding p5_def by (rule the_node_slave) (simp add: modbus_app_sync_inputs_def)
  have bits: "modbus_bit_read (discrete_bits (refresh_discrete (local_slave p4))) (of_nat i) = drop_bit i di AND 1" if "i < 8" for i
    using refresh_discrete_bits [OF wf4, of "of_nat i"] that p4(4) p3(3)
    by (simp add: word_less_nat_alt unat_of_nat bit_value digital_inputs_read_all_def)
  have p5: "live p5" "passes quiet 0 p4 p5" "holding_regs (local_slave p5) = holding_regs (local_slave p4)"
      "s_board (local_slave p5) = s_board (local_slave p4)"
      "\<forall>i < 8. modbus_bit_read (discrete_bits (local_slave p5)) (of_nat i) = drop_bit i di AND 1"
      "\<forall>i < 4. input_regs (local_slave p5) ! i = holding_regs (local_slave p4) ! (100 + i)"
    unfolding p5_def using p4(2,4) p3(3) wf4 slave_wfD(1,2,4) [OF wf4]
    by (auto intro!: on_slave_live simp: modbus_app_sync_inputs_def bits mirror_analog_regs)
  from board_od.process_keeps [of 1 "fst (the_node p5)" "snd (the_node p5)" delta] the_node_ok [OF p5(1)] obtain t where
    t: "canopen_process delta (the_node p5) = Some t" "outputs_kept (snd (the_node p5)) (snd t)"
    by (auto simp: board_od.call_keeps_def)
  let ?q = "put_node t p5"
  from node_call_live [OF p5(1), of "Tick delta" quiet] t(1) have
    q: "live ?q" "passes quiet 0 p5 ?q" "\<And>L P k. watched L P k (env p5) \<Longrightarrow> watched L P (k - unat delta) (env ?q)" by auto
  have "scan_inputs m delta p = Some ?q"
    using p2(1) s(1) p4(1) t(1) c_scans p2(4)
    by (simp add: scan_inputs_def Let_def p1_def [symmetric] p1(3) p3_def [simplified, symmetric] p5_def [symmetric] on_node_def)
  moreover have p5': "passes quiet 0 p p5"
    using passes_trans [OF passes_trans [OF passes_trans [OF passes_trans [OF p1(2) p2(3)] p3(2)] p4(3)] p5(2)] by simp
  moreover have "passes quiet 0 p ?q" using passes_trans [OF p5' q(2)] by simp
  moreover have "watched L P (k - unat delta) (env ?q)" if "watched L P k (env p)" for L P k
    using that p5' q(3) by (simp add: passes_def)
  moreover have "published adc di ?q"
  proof -
    have d: "digital_inputs_read_all (co_board (snd t)) = di"
      using t(2) p5(4) p4(4) p3(3) by (simp add: outputs_kept_def digital_inputs_read_all_def the_node_def)
    moreover have "inputs_shown (snd t)" using t(2) p4(6) live_app [OF p4(2)] by (simp add: outputs_kept_def node5)
    ultimately have "store (snd t) p_digital_inputs = [di]" by (simp add: inputs_shown_def)
    moreover have "g_can (env ?q) = snd t" by (simp add: put_node_def)
    ultimately show ?thesis using d p5(3,5,6) p4(5) s(4) by (simp add: published_def)
  qed
  ultimately show ?thesis using scans q(1) by (auto simp: di_def)
qed

end
