(* ===== verification/Bus.thy ===== *)
theory Bus
  imports Master_Rtu
begin

text \<open>
  Two stations on one RS485 line: this board, whose master speaks through its serial port, and a
  slave of the same firmware. The environment \<open>far\<close> of the port carries the other slave and the
  bytes it has put on the line; bytes arrive as USART interrupts, time as SysTick interrupts. On
  this hardware the locales \<open>serial_env\<close> and \<open>waiting_env\<close> are interpreted here, and \<open>master_link\<close>,
  which gives the end-to-end behaviour of the master's calls, in \<open>Bus_Link\<close>.
\<close>

section \<open>What a request does to the slave id and the tables\<close>

lemma sync_id [simp]:
  "modbus_slave_id (modbus_sync_registers default_hooks s) = modbus_slave_id s"
  by (simp add: default_sync)

lemma exc_id: "exc fc code s = Some (tx, n, t) \<Longrightarrow> t = s"
  by (auto simp: exc_def)

lemma dispatch_id:
  assumes "pdu_dispatch default_hooks fc a q rx s = Some (tx, n, t)"
  shows "modbus_slave_id t = modbus_slave_id s"
proof -
  have
    "pdu_read_bits fc a q rx s = Some (tx, n, t) \<Longrightarrow> ?thesis"
    "pdu_read_regs fc a q rx s = Some (tx, n, t) \<Longrightarrow> ?thesis"
    "pdu_write_coil default_hooks fc a q rx s = Some (tx, n, t) \<Longrightarrow> ?thesis"
    "pdu_write_reg default_hooks fc a q rx s = Some (tx, n, t) \<Longrightarrow> ?thesis"
    "pdu_write_coils default_hooks fc a q rx s = Some (tx, n, t) \<Longrightarrow> ?thesis"
    "pdu_write_regs default_hooks fc a q rx s = Some (tx, n, t) \<Longrightarrow> ?thesis"
    "pdu_exception_status fc rx s = Some (tx, n, t) \<Longrightarrow> ?thesis"
    "pdu_read_file fc rx s = Some (tx, n, t) \<Longrightarrow> ?thesis"
    "pdu_write_file fc rx s = Some (tx, n, t) \<Longrightarrow> ?thesis"
    "pdu_mask_write default_hooks fc a rx s = Some (tx, n, t) \<Longrightarrow> ?thesis"
    "pdu_read_fifo fc rx s = Some (tx, n, t) \<Longrightarrow> ?thesis"
    "pdu_read_write_regs default_hooks fc rx s = Some (tx, n, t) \<Longrightarrow> ?thesis"
    "pdu_device_id fc rx s = Some (tx, n, t) \<Longrightarrow> ?thesis"
    "exc fc 0x01 s = Some (tx, n, t) \<Longrightarrow> ?thesis"
    by (auto simp: pdu_read_bits_def pdu_read_regs_def pdu_write_coil_def pdu_write_reg_def pdu_write_coils_def
        pdu_write_regs_def pdu_exception_status_def pdu_read_file_def pdu_write_file_def pdu_mask_write_def
        pdu_read_fifo_def pdu_read_write_regs_def pdu_device_id_def echo5_def Let_def dest!: exc_id
        split: if_splits bind_splits sum.splits option.splits)
  with assms show ?thesis
    unfolding pdu_dispatch_def by (simp split: if_splits)
qed

lemma rtu_serve_id:
  "rtu_serve default_hooks pdu bc s = Some (st, tx, n, t) \<Longrightarrow> modbus_slave_id t = modbus_slave_id s"
  by (auto simp: rtu_serve_def modbus_pdu_process_def Let_def dest: dispatch_id split: if_splits bind_splits)

lemma rtu_process_id:
  "modbus_rtu_process default_hooks rx s = Some (st, tx, t) \<Longrightarrow> modbus_slave_id t = modbus_slave_id s"
  by (auto simp: modbus_rtu_process_def modbus_diag_note_comm_error_def noted_def [symmetric] Let_def dest!: rtu_serve_id
      split: if_splits bind_splits prod.splits)

text \<open>What the slave answers to a request PDU, with the frame taken off, and its state after.\<close>

definition slave_answer :: "u8 list \<Rightarrow> slave \<Rightarrow> u8 list \<times> slave" where
  "slave_answer pdu s =
     (case modbus_rtu_process default_hooks (rtu_frame (modbus_slave_id s) pdu) s of
        Some (_, tx, t) \<Rightarrow> (take (length tx - 3) (drop 1 tx), t) | None \<Rightarrow> ([], s))"

lemma take_drop_frame: "resp \<noteq> [] \<Longrightarrow> take (length (rtu_frame a resp) - 3) (drop 1 (rtu_frame a resp)) = resp"
  by (simp add: rtu_frame_def rtu_seal_def)

lemma slave_answer_frame:
  assumes "slave_wf s" and "pdu \<noteq> []" and "length pdu \<le> 253" and "slave_answer pdu s = (resp, t)"
  shows "modbus_rtu_process default_hooks (rtu_frame (modbus_slave_id s) pdu) s =
      Some (MODBUS_OK, if resp = [] then [] else rtu_frame (modbus_slave_id s) resp, t)"
    and "slave_wf t" and "modbus_slave_id t = modbus_slave_id s" and "length resp \<le> 253"
proof -
  define b where "b = (modbus_slave_id s = 0)"
  obtain tx n u where serve: "rtu_serve default_hooks pdu b (noted s) = Some (MODBUS_OK, tx, n, u)"
    "slave_wf u" "n \<le> length tx" "n \<le> 253"
    using dflt.rtu_serve_total [of "noted s" pdu b] assms by auto
  obtain r where r: "resets_events pdu = Some r" using resets_events_Some [OF assms(2)] by blast
  define v where "v = rtu_bookkeeping (hd pdu) r b tx n u"
  have v: "slave_wf v" "modbus_slave_id v = modbus_slave_id s"
    using serve(2) rtu_serve_id [OF serve(1)] by (simp_all add: v_def)
  have p: "modbus_rtu_process default_hooks (rtu_frame (modbus_slave_id s) pdu) s =
      Some (MODBUS_OK, if n = 0 then [] else rtu_frame (modbus_slave_id v) (take n tx), v)"
    by (rule rtu_process_frame [OF assms(2,3) _ _ serve(3,4) r v_def [unfolded b_def]])
      (use serve(1) in \<open>auto simp: b_def\<close>)
  have eq: "resp = take n tx \<and> t = v"
  proof (cases "n = 0")
    case True
    with p assms(4) show ?thesis by (simp add: slave_answer_def)
  next
    case False
    then have "take n tx \<noteq> []" using serve(3) by auto
    with False p assms(4) take_drop_frame [OF this, of "modbus_slave_id s"] v show ?thesis by (simp add: slave_answer_def)
  qed
  then have "resp = [] \<longleftrightarrow> n = 0" using serve(3) by auto
  with p eq v show "modbus_rtu_process default_hooks (rtu_frame (modbus_slave_id s) pdu) s =
      Some (MODBUS_OK, if resp = [] then [] else rtu_frame (modbus_slave_id s) resp, t)" by simp
  from v eq show "slave_wf t" "modbus_slave_id t = modbus_slave_id s" by simp_all
  from eq serve(4) show "length resp \<le> 253" by simp
qed

section \<open>The line\<close>

record far =
  far_slave :: slave
  far_wire :: "u8 list"

text \<open>A SysTick sample at the start of its millisecond.\<close>

definition ms0 :: systick where
  "ms0 = \<lparr>LOAD = 999, VAL = 999, PENDSTSET = False, VAL_again = 999\<rparr>"

lemma clock_ms0 [simp]: "clock ms ms0 = ms * 1000"
  by (simp add: clock_def rtu_time_us_def ms0_def)

definition far_transmit :: "usart \<Rightarrow> u8 list \<Rightarrow> u32 \<Rightarrow> far \<Rightarrow> bool \<times> irq list \<times> far" where
  "far_transmit u data timeout_ms h =
     (case u of USART1 \<Rightarrow> (True, [], h)
      | USART2 \<Rightarrow>
        (case modbus_rtu_process default_hooks data (far_slave h) of
           Some (_, tx, s) \<Rightarrow> (True, [], \<lparr>far_slave = s, far_wire = tx\<rparr>)
         | None \<Rightarrow> (False, [], h)))"

definition far_poll :: "far \<Rightarrow> irq list \<times> systick \<times> far" where
  "far_poll h =
     (if far_wire h = [] then ([SysTick_IRQ ms0 ms0], ms0, h)
      else (map (USART_IRQ USART2 True False ms0 ms0) (far_wire h), ms0, h\<lparr>far_wire := []\<rparr>))"

definition far_hal :: "far hal" where
  "far_hal = \<lparr>HAL_UART_Transmit = far_transmit, t35_readings = (\<lambda>u h. (0, of_nat, [], h)),
     poll_irqs = far_poll, yield_cb = None\<rparr>"

lemma far_hal_simps [simp]:
  "HAL_UART_Transmit far_hal = far_transmit" "t35_readings far_hal u h = (0, of_nat, [], h)"
  "poll_irqs far_hal = far_poll" "run_yield far_hal p = Some p"
  by (simp_all add: far_hal_def run_yield_def)

interpretation bus_env: serial_env default_hooks far_hal 40000
proof unfold_locales
  fix u h start time irqs h'
  assume "t35_readings far_hal u h = (start, time, irqs, h')"
  then have "40000 \<le> time 40000 - start" by auto
  then show "\<exists>m. 40000 \<le> time m - start" by blast
qed

lemma far_ticks: "m \<le> ticks_in far_hal (m + of_bool (far_wire h \<noteq> [])) h"
proof -
  have quiet: "far_wire h = [] \<Longrightarrow> ticks_in far_hal m h = m" for m h
    by (induction m) (auto simp: far_poll_def)
  have "ticks (map (USART_IRQ u rx ov k k') bs) = 0" for u rx ov k k' bs
    by (induction bs) auto
  then show ?thesis
    using quiet by (cases "far_wire h = []") (simp_all add: far_poll_def)
qed

lemma ticks_usart [simp]: "ticks (map (USART_IRQ u rx ov k k') bs) = 0"
  by (induction bs) auto

interpretation bus_wait: waiting_env default_hooks far_hal 40000
proof unfold_locales
  fix h m
  show "ticks (fst (poll_irqs far_hal h)) \<le> 1" by (simp add: far_poll_def)
  show "\<exists>n. m \<le> ticks_in far_hal n h" using far_ticks by blast
qed (simp add: same_wait_def)

section \<open>A frame crosses the line\<close>

text \<open>What the rest of a wait needs to know of the RS485 framer.\<close>

definition same_setup :: "rtu_framer \<Rightarrow> rtu_framer \<Rightarrow> bool" where
  "same_setup f g \<longleftrightarrow> t15_us g = t15_us f \<and> t35_us g = t35_us f \<and> buffer_size g = buffer_size f \<and>
     rx_callback g = rx_callback f"

lemma same_setup_trans: "same_setup f g \<Longrightarrow> same_setup g h \<Longrightarrow> same_setup f h"
  by (simp add: same_setup_def)

lemma usart2_byte:
  "rtu_framer_on_byte k k' b (rs485 p) = Some g \<Longrightarrow>
    take_irqs (USART_IRQ USART2 True False k k' b # is) p = take_irqs is (p\<lparr>rs485 := g\<rparr>)"
  by (simp add: USART2_IRQHandler_def)

lemma bytes_assemble:
  assumes "assembling (rs485 p) bs" and "last_byte_us (rs485 p) = ms_tick (rs485 p) * 1000"
  shows "\<exists>g. take_irqs (map (USART_IRQ USART2 True False ms0 ms0) cs) p = Some (p\<lparr>rs485 := g\<rparr>) \<and>
    assembling g (bs @ cs) \<and> last_byte_us g = ms_tick g * 1000 \<and> same_setup (rs485 p) g"
  using assms
proof (induction cs arbitrary: p bs)
  case Nil
  then show ?case by (auto intro: exI [of _ "rs485 p"] simp: same_setup_def)
next
  case (Cons c cs)
  from assembling_byte [OF Cons.prems(1), of ms0 ms0 c] Cons.prems(2) obtain g where
    g: "rtu_framer_on_byte ms0 ms0 c (rs485 p) = Some g" "assembling g (bs @ [c])" "ms_tick g = ms_tick (rs485 p)"
      "last_byte_us g = ms_tick (rs485 p) * 1000" "same_setup (rs485 p) g"
    by (auto simp: same_setup_def)
  with Cons.IH [of "p\<lparr>rs485 := g\<rparr>" "bs @ [c]"] usart2_byte [OF g(1)] same_setup_trans show ?case by fastforce
qed

lemma bytes_arrive:
  assumes "framer_wf (rs485 p)" and "fstate (rs485 p) = RTU_FRAMER_IDLE" and "\<not> frame_ready (rs485 p)" and "bs \<noteq> []"
  shows "\<exists>g. take_irqs (map (USART_IRQ USART2 True False ms0 ms0) bs) p = Some (p\<lparr>rs485 := g\<rparr>) \<and>
    assembling g bs \<and> last_byte_us g = ms_tick g * 1000 \<and> same_setup (rs485 p) g"
proof -
  obtain c cs where bs: "bs = c # cs" using assms(4) by (cases bs) auto
  from first_byte [OF assms(1-3), of ms0 ms0 c] obtain g where
    g: "rtu_framer_on_byte ms0 ms0 c (rs485 p) = Some g" "assembling g [c]" "last_byte_us g = ms_tick g * 1000"
      "same_setup (rs485 p) g"
    by (auto simp: same_setup_def)
  with bytes_assemble [of "p\<lparr>rs485 := g\<rparr>" "[c]" cs] usart2_byte [OF g(1)] bs same_setup_trans show ?thesis by fastforce
qed

lemma early_poll:
  assumes "rtu_elapsed_us f k < t35_us f" and "\<not> frame_ready f"
  shows "rtu_framer_process k f = Some ([], f)"
proof -
  have "rtu_try_complete_frame k f = Some f"
    using assms(1) by (simp add: rtu_try_complete_frame_def not_le [symmetric])
  with assms(2) show ?thesis by (simp add: rtu_framer_process_def)
qed

lemma frame_completes:
  assumes a: "assembling f bs" and "length bs \<le> unat (buffer_size f)" "bs \<noteq> []"
    and "rx_callback f" and "clock (ms_tick f + 1) k - last_byte_us f \<ge> t35_us f"
  shows "\<exists>g h. rtu_framer_on_systick k f = Some g \<and> rtu_framer_process k' g = Some (bs, h) \<and> framer_wf h \<and> same_setup f h"
proof -
  define f1 where "f1 = f\<lparr>ms_tick := ms_tick f + 1\<rparr>"
  have f1: "framer_wf f1" "t35_armed f1" "\<not> frame_ready f1" "rtu_elapsed_us f1 k \<ge> t35_us f1"
    using a assms(5) by (auto simp: f1_def assembling_def wf_tick rtu_elapsed_us_def rtu_time_clock)
  define g where "g = f1\<lparr>t35_armed := False, rx_len := 0, fstate := RTU_FRAMER_IDLE,
      completed_buffer := take (unat (rx_len f)) (rx_buffer f) @ drop (unat (rx_len f)) (completed_buffer f),
      completed_len := rx_len f, frame_ready := True\<rparr>"
  have g: "rtu_framer_on_systick k f = Some g"
    using f1 by (simp add: rtu_framer_on_systick_def try_complete_eq Let_def f1_def g_def)
  have wf: "framer_wf g" using framer_wf_try [OF f1(1)] g by (simp add: rtu_framer_on_systick_def f1_def)
  from a have len: "0 < unat (rx_len f)" "unat (rx_len f) \<le> length (rx_buffer f)"
    and c: "take (unat (rx_len f)) (rx_buffer f) = bs"
    using assms(2) by (auto simp: assembling_def framer_wf_def word_less_nat_alt)
  have lb: "unat (rx_len f) = length bs" using c len by auto
  have "rtu_framer_process k' g = Some (bs, g\<lparr>frame_ready := False, completed_len := 0\<rparr>)"
    using len c lb assms(3,4)
    by (simp add: rtu_framer_process_def rtu_try_complete_frame_def g_def f1_def rd_span_Some word_less_nat_alt)
  moreover have "framer_wf (g\<lparr>frame_ready := False, completed_len := 0\<rparr>)"
    using wf by (auto simp: framer_wf_def)
  moreover have "same_setup f (g\<lparr>frame_ready := False, completed_len := 0\<rparr>)"
    by (simp add: same_setup_def g_def f1_def)
  ultimately show ?thesis using g by blast
qed

section \<open>Rounds of the receive loop\<close>

definition port_setup :: "rtu_framer \<Rightarrow> bool" where
  "port_setup f \<longleftrightarrow> t15_us f = 750 \<and> t35_us f = 1750 \<and> buffer_size f = 256 \<and> rx_callback f"

lemma port_setup_same: "port_setup f \<Longrightarrow> same_setup f g \<Longrightarrow> port_setup g"
  by (simp add: port_setup_def same_setup_def)

text \<open>A waiting master on this line, apart from the framer.\<close>

definition waits :: "far serial \<Rightarrow> bool" where
  "waits p \<longleftrightarrow> serial_wf 40000 p \<and> s_waiting p \<and> \<not> s_frame_ready p \<and> \<not> rs485_de p"

lemma tick_round:
  assumes "waits p" and "far_wire (env p) = []" and f: "rtu_framer_on_systick ms0 (rs485 p) = Some f"
  shows "\<exists>q. next_round far_hal p = Some (ms0, q) \<and> waits q \<and> env q = env p \<and> rs485 q = f \<and> sys_tick q = sys_tick p + 1"
proof -
  have wf: "serial_wf 40000 p" using assms(1) by (simp add: waits_def)
  from port_tick [OF serial_wfD(2) [OF wf]] obtain g where g: "rtu_framer_on_systick ms0 (rs232 p) = Some g" "port_wf 40000 g" by blast
  from port_tick [OF serial_wfD(1) [OF wf], of ms0] f have "port_wf 40000 f" by simp
  with assms g wf show ?thesis
    by (simp add: next_round_def far_poll_def SysTick_Handler_def rs485_on_systick_def rs232_on_systick_def waits_def Let_def)
qed

lemma empty_poll:
  assumes "rtu_framer_process k (rs485 p) = Some ([], rs485 p)"
  shows "rs485_process default_hooks far_hal k p = Some p"
  using assms by (simp add: rs485_process_def)

lemma loop_again:
  assumes "next_round far_hal p = Some (k, q)" and "sys_tick q - start < tmo" and "\<not> s_frame_ready q"
    and "rtu_framer_process k (rs485 q) = Some ([], rs485 q)"
  shows "recv_loop default_hooks far_hal start tmo m p = recv_loop default_hooks far_hal start tmo m q"
  using assms empty_poll [OF assms(4)] by (subst recv_loop.simps) simp

lemma idle_tick:
  assumes "framer_wf f" and "fstate f = RTU_FRAMER_IDLE"
  shows "rtu_framer_on_systick k f = Some (f\<lparr>ms_tick := ms_tick f + 1\<rparr>)"
  using assms by (simp add: rtu_framer_on_systick_def rtu_try_complete_frame_def framer_wf_def)

lemma idle_poll:
  "framer_wf f \<Longrightarrow> fstate f = RTU_FRAMER_IDLE \<Longrightarrow> \<not> frame_ready f \<Longrightarrow> rtu_framer_process k f = Some ([], f)"
  by (simp add: rtu_framer_process_def rtu_try_complete_frame_def framer_wf_def)

lemma recv_silent:
  assumes "waits p" and "far_wire (env p) = []" and "port_setup (rs485 p)"
    and "fstate (rs485 p) = RTU_FRAMER_IDLE" and "\<not> frame_ready (rs485 p)"
    and "unat (sys_tick p - start) + n = unat tmo" and "0 < n"
  shows "\<exists>q. recv_loop default_hooks far_hal start tmo m p = Some (MODBUS_TIMEOUT, [], q) \<and>
    waits q \<and> env q = env p \<and> port_setup (rs485 q) \<and> sys_tick q = start + tmo"
  using assms
proof (induction n arbitrary: p)
  case (Suc n)
  have wf: "framer_wf (rs485 p)" using Suc.prems(1) by (simp add: waits_def serial_wf_def port_wf_def)
  note tick = idle_tick [OF wf Suc.prems(4), of ms0]
  from tick_round [OF Suc.prems(1,2) tick] obtain q where
    q: "next_round far_hal p = Some (ms0, q)" "waits q" "env q = env p"
      "rs485 q = (rs485 p)\<lparr>ms_tick := ms_tick (rs485 p) + 1\<rparr>" "sys_tick q = sys_tick p + 1" by blast
  have port: "port_setup (rs485 q)" "fstate (rs485 q) = RTU_FRAMER_IDLE" "\<not> frame_ready (rs485 q)"
    using Suc.prems(3-5) by (simp_all add: q(4) port_setup_def)
  have "sys_tick q - start = (sys_tick p - start) + 1" by (simp add: q(5))
  moreover have "unat (sys_tick p - start) < unat tmo" using Suc.prems(6) by simp
  ultimately have el: "unat (sys_tick q - start) = unat (sys_tick p - start) + 1" using unat_next by metis
  show ?case
  proof (cases "n = 0")
    case True
    then have "\<not> sys_tick q - start < tmo" using el Suc.prems(6) by (simp add: word_less_nat_alt)
    moreover from True have "sys_tick q = start + tmo"
      using el Suc.prems(6) by (metis add.commute diff_add_cancel One_nat_def word_unat_eq_iff)
    ultimately show ?thesis using q port by (subst recv_loop.simps) simp
  next
    case False
    then have "sys_tick q - start < tmo" using el Suc.prems(6) by (simp add: word_less_nat_alt)
    moreover have "\<not> s_frame_ready q" "framer_wf (rs485 q)"
      using q(2) by (simp_all add: waits_def serial_wf_def port_wf_def)
    ultimately have "recv_loop default_hooks far_hal start tmo m p = recv_loop default_hooks far_hal start tmo m q"
      using q(1) port by (intro loop_again idle_poll)
    with Suc.IH [OF q(2) _ port] q(3) Suc.prems(2,6) False el show ?thesis by simp
  qed
qed simp

lemma armed_poll:
  assumes a: "assembling (rs485 p) bs" and "rtu_elapsed_us (rs485 p) k < t35_us (rs485 p)"
  shows "rtu_framer_process k (rs485 p) = Some ([], rs485 p)"
  using assms by (intro early_poll) (simp_all add: assembling_def)

lemma elapsed_ms0: "rtu_elapsed_us f ms0 = ms_tick f * 1000 - last_byte_us f"
  by (simp add: rtu_elapsed_us_def rtu_time_clock)

text \<open>Three rounds: the bytes, a tick that sees one millisecond of silence, a tick that sees two.\<close>

lemma recv_answer:
  assumes p: "waits p" "port_setup (rs485 p)" "fstate (rs485 p) = RTU_FRAMER_IDLE" "\<not> frame_ready (rs485 p)"
    and w: "far_wire (env p) = bs" "bs \<noteq> []" "length bs \<le> 256" and tmo: "3 \<le> unat tmo"
  shows "\<exists>q. recv_loop default_hooks far_hal (sys_tick p) tmo 256 p = Some (MODBUS_OK, bs, q) \<and>
    serial_wf 40000 q \<and> \<not> rs485_de q \<and> env q = (env p)\<lparr>far_wire := []\<rparr> \<and> port_setup (rs485 q)"
proof -
  let ?loop = "recv_loop default_hooks far_hal (sys_tick p) tmo 256"
  have wf: "serial_wf 40000 p" "framer_wf (rs485 p)" using p(1) by (simp_all add: waits_def serial_wf_def port_wf_def)
  let ?p0 = "p\<lparr>env := (env p)\<lparr>far_wire := []\<rparr>\<rparr>"
  from bytes_arrive [of ?p0 bs] wf p w obtain g where
    g: "take_irqs (map (USART_IRQ USART2 True False ms0 ms0) bs) ?p0 = Some (?p0\<lparr>rs485 := g\<rparr>)"
      "assembling g bs" "last_byte_us g = ms_tick g * 1000" "same_setup (rs485 p) g" by auto
  define p1 where "p1 = ?p0\<lparr>rs485 := g\<rparr>"
  have set1: "port_setup g" using port_setup_same [OF p(2) g(4)] .
  have r1: "next_round far_hal p = Some (ms0, p1)" using g(1) w by (simp add: next_round_def far_poll_def p1_def)
  have "port_wf 40000 g" using g(2) set1 by (simp add: port_wf_def assembling_def port_setup_def)
  then have w1: "waits p1" using p(1) by (simp add: waits_def p1_def)
  have "\<not> s_frame_ready p1" using w1 by (simp add: waits_def)
  moreover have "sys_tick p1 - sys_tick p < tmo" using tmo by (simp add: p1_def word_less_nat_alt)
  moreover have "rtu_framer_process ms0 (rs485 p1) = Some ([], rs485 p1)"
    using g set1 by (intro armed_poll [of _ bs]) (simp_all add: p1_def elapsed_ms0 port_setup_def)
  ultimately have l1: "?loop p = ?loop p1" using r1 by (intro loop_again)
  define f2 where "f2 = g\<lparr>ms_tick := ms_tick g + 1\<rparr>"
  have f2: "rtu_framer_on_systick ms0 (rs485 p1) = Some f2" "assembling f2 bs"
    using assembling_tick [OF g(2), of ms0] g(3) set1
    by (simp_all add: p1_def f2_def port_setup_def distrib_left distrib_right)
  from tick_round [OF w1 _ f2(1)] obtain p2 where
    p2: "next_round far_hal p1 = Some (ms0, p2)" "waits p2" "env p2 = (env p)\<lparr>far_wire := []\<rparr>" "rs485 p2 = f2"
      "sys_tick p2 = sys_tick p + 1" by (auto simp: p1_def)
  have set2: "port_setup f2" using set1 by (simp add: f2_def port_setup_def)
  have e2: "ms_tick f2 * 1000 - last_byte_us f2 = 1000" using g(3) by (simp add: f2_def distrib_right)
  have "\<not> s_frame_ready p2" using p2(2) by (simp add: waits_def)
  moreover have "sys_tick p2 - sys_tick p < tmo" using tmo by (simp add: p2(5) word_less_nat_alt)
  moreover have "rtu_framer_process ms0 (rs485 p2) = Some ([], rs485 p2)"
    using f2(2) set2 e2 by (intro armed_poll [of _ bs]) (simp_all add: p2(4) elapsed_ms0 port_setup_def)
  ultimately have l2: "?loop p1 = ?loop p2" using p2(1) by (intro loop_again)
  have e3: "clock (ms_tick f2 + 1) ms0 - last_byte_us f2 \<ge> t35_us f2"
  proof -
    have "clock (ms_tick f2 + 1) ms0 - last_byte_us f2 = (ms_tick f2 * 1000 - last_byte_us f2) + 1000"
      by (simp add: distrib_right)
    also have "\<dots> = 2000" by (simp only: e2) simp
    finally show ?thesis using set2 by (simp only: port_setup_def) simp
  qed
  have "length bs \<le> unat (buffer_size f2)" using w(3) set2 by (simp add: port_setup_def)
  from frame_completes [OF f2(2) this w(2) _ e3, of ms0] set2 obtain f3 h where
    f3: "rtu_framer_on_systick ms0 (rs485 p2) = Some f3" "rtu_framer_process ms0 f3 = Some (bs, h)" "same_setup f2 h"
    by (auto simp: port_setup_def p2(4))
  from tick_round [OF p2(2) _ f3(1)] obtain p3 where
    p3: "next_round far_hal p2 = Some (ms0, p3)" "waits p3" "env p3 = (env p)\<lparr>far_wire := []\<rparr>" "rs485 p3 = f3"
      "sys_tick p3 = sys_tick p + 2" by (auto simp: p2(3,5))
  have w3: "serial_wf 40000 p3" "s_waiting p3" "\<not> rs485_de p3" using p3(2) by (simp_all add: waits_def)
  from bus_env.rs485_process_waiting [OF w3(1,2), of ms0 bs h] f3(2) p3(4) w(2) have
    r3: "rs485_process default_hooks far_hal ms0 p3 = Some (p3\<lparr>rs485 := h, s_frame := bs @ drop (length bs) (s_frame p3),
                s_frame_len := of_nat (length bs), s_frame_ready := True\<rparr>)"
    and wf3: "serial_wf 40000 (p3\<lparr>rs485 := h, s_frame := bs @ drop (length bs) (s_frame p3),
                s_frame_len := of_nat (length bs), s_frame_ready := True\<rparr>)" by simp_all
  have "sys_tick p3 - sys_tick p < tmo" using tmo by (simp add: p3(5) word_less_nat_alt)
  moreover have "unat (of_nat (length bs) :: u16) = length bs" using w(3) by simp
  ultimately have "?loop p2 = Some (MODBUS_OK, bs, p3\<lparr>rs485 := h, s_frame := bs @ drop (length bs) (s_frame p3),
      s_frame_len := 0, s_frame_ready := False\<rparr>)"
    using p3(1) r3 w(3) by (subst recv_loop.simps) (simp add: rd_span_Some min_def)
  with l1 l2 w3(3) wf3 p3(3) port_setup_same [OF set2 f3(3)] show ?thesis by (auto simp: serial_wf_def)
qed

end
