(* ===== verification/Bus_Link.thy ===== *)
theory Bus_Link
  imports Bus
begin

text \<open>
  The master's calls over the line of \<open>Bus\<close>: the transport of \<open>src/modbus_master_rtu.c\<close> with the slave of
  \<open>src/modbus.c\<close> at the other end meets the contract \<open>master_link\<close>, and the properties of the whole
  path, from the master's arguments to the slave's tables and back.
\<close>

section \<open>The contract holds on the line\<close>

definition bus_ready :: "u8 \<Rightarrow> far serial \<Rightarrow> bool" where
  "bus_ready a p \<longleftrightarrow> serial_wf 40000 p \<and> \<not> rs485_de p \<and> port_setup (rs485 p) \<and>
     slave_wf (far_slave (env p)) \<and> modbus_slave_id (far_slave (env p)) = a \<and> far_wire (env p) = []"

lemma tx_begin_state:
  "fstate (rtu_framer_tx_begin f) = RTU_FRAMER_IDLE" "\<not> frame_ready (rtu_framer_tx_begin f)"
  "same_setup f (rtu_framer_tx_begin f)" "same_setup f (rtu_framer_flush f)" "same_setup f (rtu_timer_stop f)"
  by (simp_all add: rtu_framer_tx_begin_def rtu_framer_flush_def rtu_reset_frame_def rtu_timer_stop_def same_setup_def)

lemma bus_request:
  assumes r: "bus_ready a p" and req: "req \<noteq> []" "length req \<le> 253"
    and s: "modbus_rtu_process default_hooks (rtu_frame b req) (far_slave (env p)) = Some (st, tx, t)"
  shows "\<exists>q. request_sent (rtu_transport default_hooks far_hal) b req p = Some (MODBUS_OK, q) \<and>
    waits q \<and> port_setup (rs485 q) \<and> fstate (rs485 q) = RTU_FRAMER_IDLE \<and> \<not> frame_ready (rs485 q) \<and>
    env q = \<lparr>far_slave = t, far_wire = tx\<rparr> \<and> sys_tick q = sys_tick p"
proof -
  let ?tr = "rtu_transport default_hooks far_hal" and ?f = "rtu_framer_flush (rs485 p)"
  have wf: "serial_wf 40000 p" using r by (simp add: bus_ready_def)
  have far: "far_transmit USART2 (rtu_seal modbus_crc16 (b # req)) 50 (env p) = (True, [], \<lparr>far_slave = t, far_wire = tx\<rparr>)"
    using s by (simp add: far_transmit_def rtu_frame_def)
  from bus_env.rtu_request [OF wf, of b req] far obtain q where
    q: "request_sent ?tr b req p = Some (MODBUS_OK, q)" "serial_wf 40000 q" "\<not> rs485_de q" "s_waiting q" "\<not> s_frame_ready q"
      "env q = \<lparr>far_slave = t, far_wire = tx\<rparr>" by auto
  have "t35_us ?f \<le> 40000"
    using r tx_begin_state(4) [of "rs485 p"] by (simp add: bus_ready_def port_setup_def same_setup_def)
  then obtain n where "rtu_framer_delay_t35 0 of_nat ?f = Some (n, rtu_timer_stop ?f)"
    using bus_env.delay_total [of ?f USART2 "env p"] by auto
  then have "request_sent ?tr b req p = Some (st, q) \<Longrightarrow>
      rs485 q = rtu_framer_tx_begin (rtu_timer_stop ?f) \<and> sys_tick q = sys_tick p" for st q
    using far by (auto simp: request_sent_def rtu_transport_def master_rtu_delay_t35_def master_rtu_flush_def
        rs485_flush_rx_def rs485_delay_t35_def master_rtu_send_def rs485_send_def rs485_send_with_timeout_def
        rs485_set_tx_mode_def rs485_set_rx_mode_def Let_def split: if_splits)
  from this [OF q(1)] have f: "rs485 q = rtu_framer_tx_begin (rtu_timer_stop ?f)" "sys_tick q = sys_tick p" by blast+
  have "port_setup (rs485 p)" using r by (simp add: bus_ready_def)
  then have "port_setup (rs485 q)" unfolding f(1) by (meson port_setup_same tx_begin_state(3-5))
  with q f tx_begin_state(1,2) show ?thesis by (auto simp: waits_def)
qed

lemma waits_again: "waits q \<Longrightarrow> (q\<lparr>s_waiting := True\<rparr>) = q"
  by (simp add: waits_def)

lemma end_ready:
  "serial_wf 40000 q \<Longrightarrow> \<not> rs485_de q \<Longrightarrow> port_setup (rs485 q) \<Longrightarrow> slave_wf (far_slave (env q)) \<Longrightarrow>
   modbus_slave_id (far_slave (env q)) = a \<Longrightarrow> far_wire (env q) = [] \<Longrightarrow> bus_ready a (master_rtu_end q)"
  by (simp add: bus_ready_def master_rtu_end_def serial_wf_def)

lemma line_waits:
  assumes "waits q"
  shows "t_recv (rtu_transport default_hooks far_hal) 256 tmo q = recv_loop default_hooks far_hal (sys_tick q) tmo 256 q"
    and "finish (rtu_transport default_hooks far_hal) x = master_rtu_end x" and "env (master_rtu_end x) = env x"
    and "sys_tick (master_rtu_end x) = sys_tick x"
  using waits_again [OF assms] by (simp_all add: finish_def rtu_transport_def master_rtu_end_def master_rtu_recv_def Let_def)

text \<open>A request that the device does not answer, wherever it is addressed: the master waits for exactly the timeout.\<close>

lemma bus_silence:
  assumes r: "bus_ready a p" and req: "req \<noteq> []" "length req \<le> 253" and tmo: "0 < tmo"
    and s: "modbus_rtu_process default_hooks (rtu_frame b req) (far_slave (env p)) = Some (st, [], t)"
  shows "\<exists>w1 w2. request_sent (rtu_transport default_hooks far_hal) b req p = Some (MODBUS_OK, w1) \<and>
    t_recv (rtu_transport default_hooks far_hal) 256 tmo w1 = Some (MODBUS_TIMEOUT, [], w2) \<and>
    bus_ready a (finish (rtu_transport default_hooks far_hal) w2) \<and>
    far_slave (env (finish (rtu_transport default_hooks far_hal) w2)) = t \<and>
    sys_tick (finish (rtu_transport default_hooks far_hal) w2) = sys_tick p + tmo"
proof -
  let ?tr = "rtu_transport default_hooks far_hal"
  have w: "slave_wf (far_slave (env p))" "modbus_slave_id (far_slave (env p)) = a"
    using r by (simp_all add: bus_ready_def)
  have t: "slave_wf t" "modbus_slave_id t = a"
    using dflt.rtu_process_total [OF w(1), of "rtu_frame b req"] rtu_process_id [OF s] s w(2) by auto
  from bus_request [OF r req s] obtain q where
    q: "request_sent ?tr b req p = Some (MODBUS_OK, q)" "waits q" "port_setup (rs485 q)"
      "fstate (rs485 q) = RTU_FRAMER_IDLE" "\<not> frame_ready (rs485 q)"
      "env q = \<lparr>far_slave = t, far_wire = []\<rparr>" "sys_tick q = sys_tick p" by blast
  have "0 < unat tmo" using tmo by (simp add: word_less_nat_alt)
  with recv_silent [OF q(2) _ q(3-5), of "sys_tick q" "unat tmo" tmo 256] q(6) obtain x where
    x: "t_recv ?tr 256 tmo q = Some (MODBUS_TIMEOUT, [], x)" "waits x" "env x = env q" "port_setup (rs485 x)"
      "sys_tick x = sys_tick q + tmo" by (auto simp: line_waits(1) [OF q(2)])
  have "bus_ready a (master_rtu_end x)"
    using x(2-4) q(6) t by (intro end_ready) (simp_all add: waits_def)
  with q(1,6,7) x(1,3,5) show ?thesis by (auto simp: line_waits(2-4) [OF q(2)])
qed

text \<open>A request to the device that it answers.\<close>

lemma bus_answer:
  assumes r: "bus_ready a p" and req: "req \<noteq> []" "length req \<le> 253" and tmo: "3 \<le> unat tmo"
    and s: "slave_answer req (far_slave (env p)) = (resp, t)" and resp: "resp \<noteq> []"
  shows "\<exists>w1 w2. request_sent (rtu_transport default_hooks far_hal) a req p = Some (MODBUS_OK, w1) \<and>
    t_recv (rtu_transport default_hooks far_hal) 256 tmo w1 = Some (MODBUS_OK, rtu_seal modbus_crc16 (a # resp), w2) \<and>
    bus_ready a (finish (rtu_transport default_hooks far_hal) w2) \<and>
    far_slave (env (finish (rtu_transport default_hooks far_hal) w2)) = t"
proof -
  let ?tr = "rtu_transport default_hooks far_hal"
  have w: "slave_wf (far_slave (env p))" "modbus_slave_id (far_slave (env p)) = a"
    using r by (simp_all add: bus_ready_def)
  note a = slave_answer_frame [OF w(1) req s, unfolded w(2)]
  from bus_request [OF r req a(1)] resp obtain q where
    q: "request_sent ?tr a req p = Some (MODBUS_OK, q)" "waits q" "port_setup (rs485 q)"
      "fstate (rs485 q) = RTU_FRAMER_IDLE" "\<not> frame_ready (rs485 q)"
      "env q = \<lparr>far_slave = t, far_wire = rtu_frame a resp\<rparr>" by auto
  have "far_wire (env q) = rtu_frame a resp" "rtu_frame a resp \<noteq> []" "length (rtu_frame a resp) \<le> 256"
    using q(6) a(4) by (simp_all add: rtu_frame_def rtu_seal_def)
  from recv_answer [OF q(2-5) this tmo] obtain x where
    x: "t_recv ?tr 256 tmo q = Some (MODBUS_OK, rtu_frame a resp, x)" "serial_wf 40000 x" "\<not> rs485_de x"
      "env x = (env q)\<lparr>far_wire := []\<rparr>" "port_setup (rs485 x)"
    by (auto simp: line_waits(1) [OF q(2)])
  have "bus_ready a (master_rtu_end x)"
    using x(2-5) q(6) a(2,3) by (intro end_ready) simp_all
  with q(1,6) x show ?thesis by (auto simp: rtu_frame_def line_waits(2-4) [OF q(2)])
qed

text \<open>For every address and every timeout of three ticks or more the line meets the contract.\<close>

lemma bus_link:
  assumes "a \<noteq> 0" and tmo: "3 \<le> unat tmo"
  shows "master_link (rtu_transport default_hooks far_hal) tmo a (bus_ready a) (\<lambda>p. far_slave (env p)) slave_answer"
proof unfold_locales
  fix w :: "far serial" and pdu :: "u8 list"
  assume "bus_ready a w" and pdu: "pdu \<noteq> []" "length pdu \<le> 253"
  then have "slave_wf (far_slave (env w))" by (simp add: bus_ready_def)
  from slave_answer_frame(4) [OF this pdu] show "length (fst (slave_answer pdu (far_slave (env w)))) \<le> 253"
    by (metis prod.collapse)
next
  fix w :: "far serial" and pdu resp d
  assume r: "bus_ready a w" and pdu: "pdu \<noteq> []" "length pdu \<le> 253" and s: "slave_answer pdu (far_slave (env w)) = (resp, d)"
  have "slave_wf (far_slave (env w))" "modbus_slave_id (far_slave (env w)) = a" using r by (simp_all add: bus_ready_def)
  note fr = slave_answer_frame(1) [OF this(1) pdu s, unfolded this(2)]
  have "0 < tmo" using tmo by (simp add: word_less_nat_alt)
  show "\<exists>w1 w2. request_sent (rtu_transport default_hooks far_hal) a pdu w = Some (MODBUS_OK, w1) \<and>
      t_recv (rtu_transport default_hooks far_hal) 256 tmo w1 =
        Some (if resp = [] then (MODBUS_TIMEOUT, [], w2) else (MODBUS_OK, rtu_seal modbus_crc16 (a # resp), w2)) \<and>
      bus_ready a (finish (rtu_transport default_hooks far_hal) w2) \<and>
      far_slave (env (finish (rtu_transport default_hooks far_hal) w2)) = d"
  proof (cases "resp = []")
    case True
    with bus_silence [OF r pdu \<open>0 < tmo\<close>, of a MODBUS_OK d] fr show ?thesis by auto
  next
    case False
    with bus_answer [OF r pdu tmo s] show ?thesis by auto
  qed
qed (rule assms(1))

text \<open>The device with address 2 that the demo of \<open>src/main.c\<close> polls, and the default timeout.\<close>

interpretation bus: master_link "rtu_transport default_hooks far_hal" 500 2 "bus_ready 2"
    "\<lambda>p. far_slave (env p)" slave_answer
  by (rule bus_link) simp_all

section \<open>The slave's answers\<close>

lemma book_diag [simp]: "s_listen_only (s_diag (rtu_bookkeeping fc r bc tx n s)) = s_listen_only (s_diag s)"
  by (simp add: rtu_bookkeeping_def modbus_diag_note_result_def Let_def)

text \<open>The answer is what \<open>rtu_serve\<close> returns.\<close>

lemma slave_answer_serve:
  assumes pdu: "pdu \<noteq> []" "length pdu \<le> 253" and id: "modbus_slave_id s \<noteq> 0"
    and serve: "rtu_serve default_hooks pdu False (noted s) = Some (MODBUS_OK, tx, n, u)"
    and n: "0 < n" "n \<le> length tx" "n \<le> 253"
  shows "\<exists>t r. slave_answer pdu s = (take n tx, t) \<and> t = rtu_bookkeeping (hd pdu) r False tx n u"
proof -
  obtain r where r: "resets_events pdu = Some r" using resets_events_Some [OF pdu(1)] by blast
  define t where "t = rtu_bookkeeping (hd pdu) r False tx n u"
  from serve have p: "modbus_rtu_process default_hooks (rtu_frame (modbus_slave_id s) pdu) s =
      Some (MODBUS_OK, if n = 0 then [] else rtu_frame (modbus_slave_id t) (take n tx), t)"
    using rtu_process_frame [OF pdu, of "modbus_slave_id s" s default_hooks tx n u r t] id n(2,3) r
    by (simp add: t_def)
  have "take n tx \<noteq> []" using n by auto
  with p n take_drop_frame [OF this, of "modbus_slave_id t"] show ?thesis
    by (auto simp: slave_answer_def t_def)
qed

text \<open>A request for the shared PDU processor, outside listen-only mode.\<close>

lemma slave_answer_pdu:
  assumes "slave_wf s" and "\<not> s_listen_only (s_diag s)" and "modbus_slave_id s \<noteq> 0"
    and pdu: "pdu \<noteq> []" "length pdu \<le> 253" and fc: "hd pdu \<notin> {0x08, 0x0B, 0x0C, 0x11}"
    and proc: "modbus_pdu_process default_hooks pdu False (noted s) = Some (MODBUS_OK, tx, n, u)"
    and n: "0 < n" "n \<le> length tx" "n \<le> 253"
  shows "\<exists>t r. slave_answer pdu s = (take n tx, t) \<and> t = rtu_bookkeeping (hd pdu) r False tx n u"
proof (rule slave_answer_serve [OF pdu assms(3) _ n])
  have "rd pdu 0 = Some (hd pdu)" using pdu(1) by (cases pdu) auto
  with assms(2) fc proc show "rtu_serve default_hooks pdu False (noted s) = Some (MODBUS_OK, tx, n, u)"
    by (simp add: rtu_serve_def is_fetch_def modbus_diag_listen_only_def)
qed

lemma answer_write_registers:
  assumes "slave_wf s" and "\<not> s_listen_only (s_diag s)" and "modbus_slave_id s \<noteq> 0"
    and n: "1 \<le> length vs" "length vs \<le> 123" and a: "unat a + length vs \<le> 256"
  shows "\<exists>t. slave_answer (write_regs_request a vs) s = (0x10 # be_bytes [a, of_nat (length vs)], t) \<and>
    holding_regs t = patch (holding_regs s) (unat a) vs \<and> \<not> s_listen_only (s_diag t) \<and> coil_bits t = coil_bits s"
proof -
  have "length (write_regs_request a vs) \<le> 253" "write_regs_request a vs \<noteq> []" "hd (write_regs_request a vs) = 0x10"
    using n by (simp_all add: write_regs_request_def)
  with slave_answer_pdu [OF assms(1-3), of "write_regs_request a vs", OF _ _ _ write_regs_effect [OF _ n a]] assms(1,2)
  show ?thesis by auto
qed

lemma answer_read_registers:
  assumes "slave_wf s" and "\<not> s_listen_only (s_diag s)" and "modbus_slave_id s \<noteq> 0"
    and n: "1 \<le> unat q" "unat q \<le> 125" and a: "unat a + unat q \<le> 256"
  shows "\<exists>t. slave_answer (0x03 # be_bytes [a, q]) s =
      (0x03 # ucast (q * 2) # be_bytes (take (unat q) (drop (unat a) (holding_regs s))), t) \<and>
    holding_regs t = holding_regs s \<and> \<not> s_listen_only (s_diag t)"
proof -
  have b: "(of_nat (2 * unat q) :: u8) = ucast (q * 2)" using n by (simp add: byte_count_of_nat)
  have len: "length (take (unat q) (drop (unat a) (holding_regs s))) = unat q"
    using slave_wfD(1) [OF assms(1)] a by simp
  show ?thesis
    using slave_answer_pdu [OF assms(1-3), of "request 0x03 a q", OF _ _ _ read_holding_response [OF _ n a]]
      assms(1,2) n a len b slave_wfD(1) [OF assms(1)]
    by (auto simp: request_def)
qed

lemma answer_write_register:
  assumes "slave_wf s" and "\<not> s_listen_only (s_diag s)" and "modbus_slave_id s \<noteq> 0" and a: "unat a < 256"
  shows "\<exists>t. slave_answer (0x06 # be_bytes [a, v]) s = (0x06 # be_bytes [a, v], t) \<and>
    holding_regs t = (holding_regs s)[unat a := v] \<and> \<not> s_listen_only (s_diag t)"
proof -
  have "slave_wf (noted s)" using assms(1) by simp
  from slave_answer_pdu [OF assms(1-3), of "request 0x06 a v", OF _ _ _ write_reg_effect [OF a]] assms(1,2)
  show ?thesis by (auto simp: request_def)
qed

text \<open>Return Query Data is echoed and changes no table.\<close>

lemma answer_query_data:
  assumes "\<not> s_listen_only (s_diag s)" and "modbus_slave_id s \<noteq> 0"
  shows "\<exists>t. slave_answer (0x08 # be_bytes [0, v]) s = (0x08 # be_bytes [0, v], t) \<and>
    holding_regs t = holding_regs s \<and> \<not> s_listen_only (s_diag t)"
proof -
  let ?pdu = "0x08 # be_bytes [0, v]"
  have "modbus_diag_process ?pdu False (s_diag (noted s), s_events (noted s)) = Some (?pdu, s_diag (noted s), s_events (noted s))"
    using assms(1) by (simp add: modbus_diag_process_def modbus_diag_echo_def rd_def rd16_def)
  then have "rtu_serve default_hooks ?pdu False (noted s) = Some (MODBUS_OK, ?pdu, 5, noted s)"
    by (simp add: rtu_serve_def rd_def)
  from slave_answer_serve [OF _ _ assms(2) this] assms(1) show ?thesis by auto
qed

text \<open>A read outside the tables.\<close>

lemma answer_read_outside:
  assumes "slave_wf s" and "\<not> s_listen_only (s_diag s)" and "modbus_slave_id s \<noteq> 0"
    and n: "1 \<le> unat q" "unat q \<le> 125" and a: "256 < unat a + unat q"
  shows "\<exists>t. slave_answer (0x03 # be_bytes [a, q]) s = ([0x83, 0x02], t) \<and> same_app t s"
proof -
  have "modbus_pdu_process default_hooks (request 0x03 a q) False (noted s) = Some (MODBUS_OK, [0x83, 0x02], 2, noted s)"
    using n a by (auto simp: pdu_process_eq pdu_dispatch_def pdu_read_regs_def range_256 word_cmp_nat exc_def
        modbus_exception_response_def simp del: One_nat_def)
  from slave_answer_pdu [OF assms(1-3), of "request 0x03 a q", OF _ _ _ this] show ?thesis
    by (auto simp: request_def intro: same_app_trans [OF same_app_book(1) same_app_book(2)])
qed

text \<open>Any exception.\<close>

lemma answer_exception:
  assumes "slave_wf s" and "modbus_slave_id s \<noteq> 0" and pdu: "pdu \<noteq> []" "length pdu \<le> 253" "\<not> bit (hd pdu) 7"
    and a: "slave_answer pdu s = (resp, t)" and e: "is_exception resp"
  shows "(\<exists>code. resp = [hd pdu OR 0x80, code]) \<and> (hd pdu \<noteq> 0x15 \<longrightarrow> same_app t s)"
proof -
  obtain tx n u where serve: "rtu_serve default_hooks pdu False (noted s) = Some (MODBUS_OK, tx, n, u)"
    "slave_wf u" "n \<le> length tx" "n \<le> 253"
    using dflt.rtu_serve_total [of "noted s" pdu False] assms by auto
  have "resp = take n tx \<and> (\<exists>r. t = rtu_bookkeeping (hd pdu) r False tx n u)"
  proof (cases "n = 0")
    case True
    obtain r where r: "resets_events pdu = Some r" using resets_events_Some [OF pdu(1)] by blast
    with rtu_process_frame [OF pdu(1,2), of "modbus_slave_id s" s default_hooks tx n u r] serve assms(2) True
    have "modbus_rtu_process default_hooks (rtu_frame (modbus_slave_id s) pdu) s =
        Some (MODBUS_OK, [], rtu_bookkeeping (hd pdu) r False tx n u)" by auto
    with a True show ?thesis by (auto simp: slave_answer_def)
  next
    case False
    with slave_answer_serve [OF pdu(1,2) assms(2) serve(1) _ serve(3,4)] a show ?thesis by auto
  qed
  with serve_exception [OF serve(1) _ pdu(1,3)] e show ?thesis
    by (meson same_app_book same_app_trans)
qed

text \<open>A slave in listen-only mode.\<close>

lemma answer_listen_only:
  assumes "slave_wf s" and "s_listen_only (s_diag s)" and "pdu \<noteq> []" "length pdu \<le> 253"
    and "hd pdu \<noteq> 0x08"
  shows "\<exists>t. slave_answer pdu s = ([], t) \<and> same_app t s \<and> s_listen_only (s_diag t)"
proof -
  obtain resp t where r: "slave_answer pdu s = (resp, t)" by fastforce
  note fr = slave_answer_frame [OF assms(1,3,4) r]
  define b where "b = (modbus_slave_id s = 0)"
  obtain tx n u where serve: "rtu_serve default_hooks pdu b (noted s) = Some (MODBUS_OK, tx, n, u)"
    "slave_wf u" "n \<le> length tx" "n \<le> 253"
    using dflt.rtu_serve_total [of "noted s" pdu b] assms by auto
  have fc: "rd pdu 0 = Some (hd pdu)" using assms(3) by (cases pdu) auto
  have l: "same_app u (noted s)" "n = 0" "s_listen_only (s_diag u)"
    using listen_only_serve [OF _ serve(1)] assms(2,5) fc by auto
  obtain rs where rs: "resets_events pdu = Some rs" using resets_events_Some [OF assms(3)] by blast
  define v where "v = rtu_bookkeeping (hd pdu) rs b tx n u"
  have "modbus_rtu_process default_hooks (rtu_frame (modbus_slave_id s) pdu) s = Some (MODBUS_OK, [], v)"
    using rtu_process_frame [OF assms(3,4) _ _ serve(3,4) rs v_def [unfolded b_def]]
      serve(1) l(2) by (auto simp: b_def)
  then have "slave_answer pdu s = ([], v)" by (simp add: slave_answer_def)
  moreover have "same_app v s" unfolding v_def using l(1) by (meson same_app_book same_app_trans)
  ultimately show ?thesis using l(3) by (simp add: v_def)
qed

end
