(* ===== verification/Bus_Spec.thy ===== *)
theory Bus_Spec
  imports Bus_Link
begin

text \<open>
  The properties of the master, its transport and the serial ports, and of the path from one station
  to the other. The witnesses use the line of \<open>Bus\<close> with both stations in their start-up state.
\<close>

section \<open>Start-up\<close>

definition reset_framer :: rtu_framer where
  "reset_framer = \<lparr>rx_buffer = replicate 256 0, completed_buffer = replicate 256 0, buffer_size = 0, t15_us = 0,
     t35_us = 0, rx_callback = False, fstate = RTU_FRAMER_IDLE, rx_len = 0, frame_ready = False,
     completed_len = 0, ms_tick = 0, last_byte_us = 0, t35_armed = False\<rparr>"

definition reset_serial :: "'h \<Rightarrow> 'h serial" where
  "reset_serial h = \<lparr>rs485 = reset_framer, rs485_de = False, rs232 = reset_framer, sys_tick = 0,
     local_slave = slave1, s_waiting = False, s_frame_ready = False, s_frame = replicate 256 0,
     s_frame_len = 0, env = h\<rparr>"

text \<open>The calls of \<open>main\<close> that set the ports up.\<close>

definition start_serial :: "'h \<Rightarrow> 'h serial" where
  "start_serial h =
     rs232_set_rx_callback True (rs485_set_rx_callback True
       (rs232_init 115200 (rs485_init 115200 (reset_serial h))))"

definition slave2 :: slave where
  "slave2 = modbus_rtu_init 2 boot_slave"

definition far2 :: far where
  "far2 = \<lparr>far_slave = slave2, far_wire = []\<rparr>"

definition master500 :: "far serial master" where
  "master500 = snd (modbus_master_rtu_init default_hooks far_hal (start_serial far2)
     \<lparr>s_transport = None, s_timeout_ms = 0\<rparr>)"

lemma timeouts_115200: "modbus_rtu_timeouts_us 115200 = (750, 1750)"
  by (simp add: modbus_rtu_timeouts_us_def)

lemma start_port:
  "port_wf 40000 (rtu_framer_set_callback True (rtu_framer_init (replicate 256 0) (replicate 256 0) 256 115200 reset_framer))"
  "port_setup (rtu_framer_set_callback True (rtu_framer_init (replicate 256 0) (replicate 256 0) 256 115200 reset_framer))"
  by (simp_all add: port_wf_def port_setup_def framer_wf_def rtu_framer_set_callback_def rtu_framer_init_def timeouts_115200
      reset_framer_def Let_def)

lemma start_serial_simps [simp]:
  "rs485 (start_serial h) = rtu_framer_set_callback True (rtu_framer_init (replicate 256 0) (replicate 256 0) 256 115200 reset_framer)"
  "rs232 (start_serial h) = rtu_framer_set_callback True (rtu_framer_init (replicate 256 0) (replicate 256 0) 256 115200 reset_framer)"
  "\<not> rs485_de (start_serial h)" "local_slave (start_serial h) = slave1" "\<not> s_waiting (start_serial h)"
  "\<not> s_frame_ready (start_serial h)" "s_frame (start_serial h) = replicate 256 0" "s_frame_len (start_serial h) = 0"
  "env (start_serial h) = h" "sys_tick (start_serial h) = 0"
  by (simp_all add: start_serial_def reset_serial_def rs232_set_rx_callback_def rs485_set_rx_callback_def rs232_init_def
      rs485_init_def) (simp_all add: reset_framer_def)

lemma start_wf [simp]: "serial_wf 40000 (start_serial h)"
  by (simp add: serial_wf_def start_port)

lemma slave2_simps [simp]:
  "slave_wf slave2" "modbus_slave_id slave2 = 2" "\<not> s_listen_only (s_diag slave2)" "holding_regs slave2 = replicate 256 0"
  using rtu_init_state(1,2) [OF boot_power_up, of 2]
  by (simp_all add: slave2_def modbus_rtu_init_def modbus_diag_reset_def)

lemma far2_slave [simp]: "far_slave far2 = slave2" "far_wire far2 = []"
  by (simp_all add: far2_def)

lemma start_ready [simp]: "bus_ready 2 (start_serial far2)"
  by (simp add: bus_ready_def start_port)

lemma master500_linked [simp]: "bus.linked master500"
  by (simp add: master500_def modbus_master_rtu_init_def modbus_master_init_def bus.linked_def modbus_master_set_timeout_ms_def)

section \<open>From master to slave and back\<close>

text \<open>
  C3: Registers written by the master arrive and can be read back: after \<open>write_multiple_registers\<close> of 1 to
  123 values to addresses within the table, which reports success, the slave's holding registers are the
  old ones with exactly this stretch replaced and its coils are unchanged, and \<open>read_holding_registers\<close> of
  the same stretch returns the values. This covers the builder, the RTU framing and checksum, the
  transport, reception byte by byte by the framer, the slave, and the response parsers.
\<close>

theorem master_write_then_read:
  assumes "bus_ready 2 p" and "\<not> s_listen_only (s_diag (far_slave (env p)))"
    and "s_transport m = Some (rtu_transport default_hooks far_hal)" and "s_timeout_ms m = 500"
    and "1 \<le> length vs" "length vs \<le> 123" and "unat a + length vs \<le> 256"
  shows "\<exists>p1 p2. modbus_master_write_multiple_registers m 2 a (of_nat (length vs)) vs p = Some (Inr (), 0, p1) \<and>
    holding_regs (far_slave (env p1)) = patch (holding_regs (far_slave (env p))) (unat a) vs \<and>
    coil_bits (far_slave (env p1)) = coil_bits (far_slave (env p)) \<and>
    modbus_master_read_holding_registers m 2 a (of_nat (length vs)) p1 = Some (Inr vs, 0, p2) \<and> bus_ready 2 p2"
proof -
  have m: "bus.linked m" using assms(3,4) by (simp add: bus.linked_def)
  define q :: u16 where "q = of_nat (length vs)"
  have q: "unat q = length vs" using assms(6) by (simp add: q_def)
  have ready: "slave_wf (far_slave (env x))" "modbus_slave_id (far_slave (env x)) \<noteq> 0" if "bus_ready 2 x" for x
    using that by (auto simp: bus_ready_def)
  have b: "(of_nat (2 * length vs) :: u8) = ucast (q * 2)" using assms(6) q by (simp add: byte_count_of_nat)
  from answer_write_registers [OF ready(1) assms(2) ready(2) assms(5-7)] assms(1) obtain s1 where
    s1: "slave_answer (write_regs_request a vs) (far_slave (env p)) = (0x10 # be_bytes [a, q], s1)"
      "holding_regs s1 = patch (holding_regs (far_slave (env p))) (unat a) vs" "\<not> s_listen_only (s_diag s1)"
      "coil_bits s1 = coil_bits (far_slave (env p))" by (auto simp: q_def)
  have req: "write_regs_request a vs = 0x10 # be_bytes [a, q] @ ucast (q * 2) # be_bytes (take (unat q) vs)"
    using b q by (simp add: write_regs_request_def q_def)
  have len: "1 \<le> unat q" "unat q \<le> 123" "unat q \<le> length vs" "unat q \<le> 125" "unat a + unat q \<le> 256" "length vs = unat q"
    using assms(5-7) q by simp_all
  from bus.link_write_registers [OF m assms(1) len(1-3) s1(1) [unfolded req]] obtain p1 where
    p1: "bus_ready 2 p1" "far_slave (env p1) = s1"
      "modbus_master_write_multiple_registers m 2 a q vs p = Some (Inr (), 0, p1)" by blast
  have listen: "\<not> s_listen_only (s_diag (far_slave (env p1)))" using s1(3) p1(2) by simp
  have "length (holding_regs (far_slave (env p))) = 256" using ready(1) [OF assms(1)] by (rule slave_wfD(1))
  then have again: "take (unat q) (drop (unat a) (holding_regs (far_slave (env p1)))) = vs"
    using assms(7) patch_read [of "unat a" vs "holding_regs (far_slave (env p))"] by (simp add: p1(2) s1(2) q)
  from answer_read_registers [OF ready(1) listen ready(2) len(1,4,5), OF p1(1) p1(1), unfolded again] obtain s2 where
    "slave_answer (0x03 # be_bytes [a, q]) (far_slave (env p1)) = (0x03 # ucast (q * 2) # be_bytes vs, s2)" by blast
  from bus.link_read_registers [OF m p1(1) len(1,4) this len(6)] obtain p2 where
    "bus_ready 2 p2" "modbus_master_read_holding_registers m 2 a q p1 = Some (Inr vs, 0, p2)" by blast
  with p1 s1(2,4) show ?thesis by (auto simp: q_def)
qed

lemma master_write_then_read_witness:
  "\<exists>p1 p2. modbus_master_write_multiple_registers master500 2 0 2 [7, 9] (start_serial far2) = Some (Inr (), 0, p1) \<and>
     modbus_master_read_holding_registers master500 2 0 2 p1 = Some (Inr [7, 9], 0, p2)"
  using master_write_then_read [of "start_serial far2" master500 "[7, 9]" 0] master500_linked
  by (auto simp: bus.linked_def)

text \<open>
  C25: Every exception that a slave answers reaches the caller. When the device on the line, at any address
  \<open>a\<close>, answers a request of any function code below 128 with an exception, the answer is the function code with the top
  bit set and one code, and the transaction, as well as every call of the master that sends this request,
  ends with the exception status and exactly this code, and the line is ready again. The device is in the
  state its own frame processor computed: the counters and the event log do move, but its tables, files,
  queue and outputs do not, unless the request was Write File Record (FC 0x15), which keeps the
  sub-requests already carried out. The timeout is any of at least 3 ms.
\<close>

theorem master_reports_exception:
  assumes "bus_ready a p" and "a \<noteq> 0" and "3 \<le> unat tmo"
    and "s_transport m = Some (rtu_transport default_hooks far_hal)" and "s_timeout_ms m = tmo"
    and "req \<noteq> []" "length req \<le> 253" and "hd req AND 0x80 = 0"
    and "modbus_rtu_process default_hooks (rtu_frame a req) (far_slave (env p)) = Some (st, rtu_frame a resp, t)"
    and "is_exception resp"
  shows "\<exists>code p1. resp = [hd req OR 0x80, code] \<and>
    modbus_master_transaction (Some (rtu_transport default_hooks far_hal)) a req n tmo p = Some (Inl MODBUS_EXCEPTION, code, p1) \<and>
    (\<forall>parse. master_call m a req parse p = Some (Inl MODBUS_EXCEPTION, code, p1)) \<and>
    far_slave (env p1) = t \<and> (hd req \<noteq> 0x15 \<longrightarrow> same_app t (far_slave (env p))) \<and> bus_ready a p1"
proof -
  have w: "slave_wf (far_slave (env p))" "modbus_slave_id (far_slave (env p)) = a"
    using assms(1) by (simp_all add: bus_ready_def)
  have "resp \<noteq> []" using assms(10) by auto
  with assms(9) w(2) take_drop_frame [of resp a] have s: "slave_answer req (far_slave (env p)) = (resp, t)"
    by (simp add: slave_answer_def)
  have top: "\<not> bit (hd req) 7"
    using assms(8) bit_iff_and_push_bit_not_eq_0 [of "hd req" 7] by simp
  note link = bus_link [OF assms(2,3)]
  have m: "master_link.linked (rtu_transport default_hooks far_hal) tmo m"
    using assms(4,5) by (simp add: master_link.linked_def [OF link])
  from answer_exception [OF w(1) _ assms(6,7) top s assms(10)] w(2) assms(2) obtain code where
    e: "resp = [hd req OR 0x80, code]" "hd req \<noteq> 0x15 \<longrightarrow> same_app t (far_slave (env p))" by auto
  from master_link.link_exception [OF link m assms(1,6,7) s e(1) assms(8)] e show ?thesis by blast
qed

text \<open>The commonest case: a read of up to 125 holding registers that runs past the table returns code 02.\<close>

lemma read_past_table_refused:
  assumes "bus_ready 2 p" and "\<not> s_listen_only (s_diag (far_slave (env p)))"
    and "s_transport m = Some (rtu_transport default_hooks far_hal)" and "s_timeout_ms m = 500"
    and "1 \<le> unat q" "unat q \<le> 125" and "256 < unat a + unat q"
  shows "\<exists>p1. modbus_master_read_holding_registers m 2 a q p = Some (Inl MODBUS_EXCEPTION, 0x02, p1) \<and>
    same_app (far_slave (env p1)) (far_slave (env p)) \<and> bus_ready 2 p1"
proof -
  have m: "bus.linked m" using assms(3,4) by (simp add: bus.linked_def)
  have ready: "slave_wf (far_slave (env p))" "modbus_slave_id (far_slave (env p)) \<noteq> 0"
    using assms(1) by (auto simp: bus_ready_def)
  from answer_read_outside [OF ready(1) assms(2) ready(2) assms(5-7)] obtain t where
    t: "slave_answer (0x03 # be_bytes [a, q]) (far_slave (env p)) = ([0x83, 0x02], t)" "same_app t (far_slave (env p))" by blast
  have "\<not> q < 1" "\<not> 125 < q" using assms(5,6) by (simp_all add: word_less_nat_alt)
  with bus.link_exception [OF m assms(1) _ _ t(1), of "0x02"] t(2)
  show ?thesis by (auto simp: modbus_master_read_holding_registers_def build_read_eq)
qed

lemma master_reports_exception_witness:
  "\<exists>code p1. modbus_master_transaction (Some (rtu_transport default_hooks far_hal)) 2 [0x03, 0, 255, 0, 2] 256 500 (start_serial far2) =
      Some (Inl MODBUS_EXCEPTION, code, p1) \<and> [0x83, 0x02] = [0x83, code] \<and> same_app (far_slave (env p1)) slave2"
proof -
  from answer_read_outside [of slave2 2 255] obtain t where
    t: "slave_answer [0x03, 0, 255, 0, 2] slave2 = ([0x83, 0x02], t)" by (auto simp: hi8_def lo8_def)
  from slave_answer_frame(1) [OF _ _ _ t] have
    "modbus_rtu_process default_hooks (rtu_frame 2 [0x03, 0, 255, 0, 2]) slave2 = Some (MODBUS_OK, rtu_frame 2 [0x83, 0x02], t)"
    by simp
  with master_reports_exception [of 2 "start_serial far2" 500 master500 "[0x03, 0, 255, 0, 2]" MODBUS_OK "[0x83, 0x02]" t 256]
    master500_linked show ?thesis by (auto simp: bus.linked_def)
qed

text \<open>
  C26: A silent line costs the timeout and nothing more. Whenever the device on the line does not answer a
  request, be it addressed to another station, in listen-only mode, or one that is never answered, a
  transaction with any non-zero address \<open>b\<close> and any non-zero timeout ends with the timeout status after
  exactly \<open>tmo\<close> milliseconds of the tick counter; the device's tables, files, queue and outputs are as they
  were, and the line is ready again.
\<close>

theorem master_times_out:
  assumes "bus_ready a p" and "b \<noteq> 0" and "0 < tmo" and "req \<noteq> []" "length req \<le> 253"
    and "modbus_rtu_process default_hooks (rtu_frame b req) (far_slave (env p)) = Some (st, [], t)"
  shows "\<exists>p1. modbus_master_transaction (Some (rtu_transport default_hooks far_hal)) b req n tmo p =
      Some (Inl MODBUS_TIMEOUT, 0, p1) \<and> sys_tick p1 = sys_tick p + tmo \<and>
    far_slave (env p1) = t \<and> same_app t (far_slave (env p)) \<and> bus_ready a p1"
proof -
  have "slave_wf (far_slave (env p))" using assms(1) by (simp add: bus_ready_def)
  note quiet = silent_same_app [OF assms(6) this assms(2,4,5)]
  from bus_silence [OF assms(1,4,5,3,6)] obtain w1 w2 where
    w: "request_sent (rtu_transport default_hooks far_hal) b req p = Some (MODBUS_OK, w1)"
      "t_recv (rtu_transport default_hooks far_hal) 256 tmo w1 = Some (MODBUS_TIMEOUT, [], w2)"
      "bus_ready a (finish (rtu_transport default_hooks far_hal) w2)"
      "far_slave (env (finish (rtu_transport default_hooks far_hal) w2)) = t"
      "sys_tick (finish (rtu_transport default_hooks far_hal) w2) = sys_tick p + tmo" by blast
  with quiet assms(2) show ?thesis by (simp add: transaction_eq [OF assms(4,5)])
qed

text \<open>Two reasons for silence: the request is for another station, or the device is in listen-only mode.\<close>

lemma silent_slave:
  assumes "slave_wf s" and "b \<noteq> 0" and pdu: "pdu \<noteq> []" "length pdu \<le> 253"
    and "b \<noteq> modbus_slave_id s \<or> s_listen_only (s_diag s) \<and> hd pdu \<noteq> 0x08"
  shows "\<exists>t. modbus_rtu_process default_hooks (rtu_frame b pdu) s = Some (MODBUS_OK, [], t)"
proof (cases "b = modbus_slave_id s")
  case True
  with assms obtain t where "slave_answer pdu s = ([], t)" using answer_listen_only [OF assms(1) _ pdu] by auto
  from slave_answer_frame(1) [OF assms(1) pdu this] True show ?thesis by auto
next
  case False
  with rtu_process_foreign [OF pdu this assms(2)] show ?thesis by auto
qed

lemma master_times_out_witness:
  "\<exists>p1. modbus_master_transaction (Some (rtu_transport default_hooks far_hal)) 7 [0x03, 0, 0, 0, 1] 256 500 (start_serial far2) =
     Some (Inl MODBUS_TIMEOUT, 0, p1) \<and> sys_tick p1 = 500"
proof -
  from silent_slave [of slave2 7 "[0x03, 0, 0, 0, 1]"] obtain t where
    "modbus_rtu_process default_hooks (rtu_frame 7 [0x03, 0, 0, 0, 1]) slave2 = Some (MODBUS_OK, [], t)" by auto
  with master_times_out [of 2 "start_serial far2" 7 500 "[0x03, 0, 0, 0, 1]" MODBUS_OK t 256] show ?thesis by auto
qed

section \<open>Transactions over any transport\<close>

text \<open>
  C4: A transaction that reports success is sound on every transport: the request went out sealed with
  the device's address, what came back is exactly a sealed frame from this address whose function code
  is the request's, and the PDU returned is the content of that frame, within the caller's buffer; the
  transport was released.
\<close>

theorem transaction_sound:
  assumes "modbus_master_transaction (Some tr) a req n tmo w = Some (Inr pdu, c, w')" and "a \<noteq> 0"
  shows "\<exists>w0 w1 w2 adu. (t_flush_rx tr w \<bind> t_delay_t35 tr) = Some w0 \<and>
    t_send tr (rtu_seal modbus_crc16 (a # req)) w0 = Some (MODBUS_OK, w1) \<and>
    t_recv tr 256 tmo w1 = Some (MODBUS_OK, adu, w2) \<and>
    adu = rtu_seal modbus_crc16 (a # pdu) \<and> w' = finish tr w2 \<and>
    c = 0 \<and> pdu \<noteq> [] \<and> hd pdu = hd req \<and> length pdu \<le> n"
  using transaction_OK [OF assms] by (auto simp: request_sent_def split: bind_splits)

lemma transaction_sound_witness:
  "\<exists>w0 w1 w2 adu. (t_flush_rx (rtu_transport default_hooks far_hal) (start_serial far2) \<bind> t_delay_t35 (rtu_transport default_hooks far_hal)) = Some w0 \<and>
    t_send (rtu_transport default_hooks far_hal) (rtu_seal modbus_crc16 [2, 3, 0, 0, 0, 1]) w0 = Some (MODBUS_OK, w1) \<and>
    t_recv (rtu_transport default_hooks far_hal) 256 500 w1 = Some (MODBUS_OK, adu, w2) \<and>
    adu = rtu_seal modbus_crc16 [2, 3, 2, 0, 0]"
proof -
  have "slave_wf (far_slave (env (start_serial far2)))" by simp
  from answer_read_registers [OF this, of 1 0] obtain t where
    t: "slave_answer [3, 0, 0, 0, 1] slave2 = ([3, 2, 0, 0], t)" by (auto simp: hi8_def lo8_def)
  from bus.link_transaction [OF start_ready, of "[3, 0, 0, 0, 1]" "[3, 2, 0, 0]" t] t obtain w where
    "modbus_master_transaction (Some (rtu_transport default_hooks far_hal)) 2 [3, 0, 0, 0, 1] 256 500 (start_serial far2) =
      Some (Inr [3, 2, 0, 0], 0, w)" by (auto simp: check_response_def)
  from transaction_sound [OF this] show ?thesis by auto
qed

text \<open>
  C27: No parser of the master reads outside the response PDU it is given, whatever the PDU holds, as long as
  the register quantity is at most 127 and the record length at most 32767, which includes all that the
  Modbus specification allows.
\<close>

theorem parsers_in_bounds:
  assumes "unat q \<le> 127" and "unat n \<le> 32767"
  shows "modbus_master_parse_read_bits pdu b m \<noteq> None \<and> modbus_master_parse_read_registers pdu q \<noteq> None \<and>
    modbus_master_parse_exception_status pdu \<noteq> None \<and> modbus_master_parse_diagnostics pdu sub \<noteq> None \<and>
    modbus_master_parse_get_comm_event_counter pdu \<noteq> None \<and> modbus_master_parse_get_comm_event_log pdu ev \<noteq> None \<and>
    modbus_master_parse_read_file_record pdu n \<noteq> None \<and> modbus_master_parse_device_id pdu \<noteq> None \<and>
    modbus_master_parse_report_server_id pdu k \<noteq> None \<and> modbus_master_parse_read_fifo_queue pdu k \<noteq> None"
  using parse_bits_total parse_registers_total [OF assms(1)] parse_others_total parse_event_log_total
    parse_file_total [OF assms(2)] parse_device_id_total parse_server_id_total parse_fifo_total
  by (intro conjI) assumption+

lemma parsers_in_bounds_witness:
  "modbus_master_parse_read_registers [3, 255] 125 \<noteq> None \<and> modbus_master_parse_read_file_record [0x14, 2, 1, 6] 120 \<noteq> None"
  using parsers_in_bounds [where q = 125 and n = 120 and pdu = "[3, 255]"]
    parsers_in_bounds [where q = 125 and n = 120 and pdu = "[0x14, 2, 1, 6]"] by simp

text \<open>
  Beyond these bounds the announced and the expected size agree modulo \<open>2 ^ 16\<close> only: with record length
  32768 a four-byte response passes all checks and the parser reads far past it.
\<close>

lemma file_record_overread:
  "modbus_master_parse_read_file_record [0x14, 0x02, 0x01, 0x06] 0x8000 = None"
  by (simp add: modbus_master_parse_read_file_record_def rd16_span_None)

text \<open>
  A broadcast write that was sent is reported as an error: the call expects a five-byte response
  where \<open>modbus_master_transaction\<close> returned success with none.
\<close>

lemma broadcast_write_is_error:
  assumes "s_transport m = Some tr" and "request_sent tr 0 ([0x06] @ put_u16_be addr @ put_u16_be val) w = Some (MODBUS_OK, w1)"
  shows "modbus_master_write_single_register m 0 addr val w = Some (Inl MODBUS_ERROR, 0, finish tr w1)"
  using assms
  by (simp add: modbus_master_write_single_register_def modbus_master_build_write_single_register_def master_call_def
      master_xact_and_check_echo_addr_def transaction_eq check_write_response_def put_u16_be_eq)

section \<open>The serial ports\<close>

text \<open>
  C22: A request that the framer of the RS485 port delivers is served and answered at once: unless the
  master waits, the port runs the slave on the frame and, if there is a response, hands exactly its
  bytes to the UART after the T3.5 pause, with the 50 ms limit; the driver enable is released
  afterwards and the application state is the one the slave left. The clock of the busy wait must advance.
\<close>

theorem rs485_serves_request:
  assumes "\<And>u h start time irqs h'. t35_readings hal u h = (start, time, irqs, h') \<Longrightarrow> \<exists>m. T \<le> time m - start"
    and "serial_wf T p" and "\<not> s_waiting p" and "\<not> rs485_de p"
    and "rtu_framer_process k (rs485 p) = Some (frm, f)" and "frm \<noteq> []"
    and "modbus_rtu_process default_hooks frm (local_slave p) = Some (st, resp, s)"
  shows "\<exists>q. rs485_process default_hooks hal k p = Some q \<and> serial_wf T q \<and> same_app s (local_slave q) \<and>
    \<not> rs485_de q \<and> \<not> s_waiting q \<and>
    env q = (if resp = [] then env p
             else snd (snd (HAL_UART_Transmit hal USART2 resp 50 (snd (snd (snd (t35_readings hal USART2 (env p))))))))"
proof -
  have "serial_env default_hooks hal T" by unfold_locales (use assms(1) in auto)
  from serial_env.rs485_answer [OF this assms(2-7)] show ?thesis by blast
qed

text \<open>A framer that holds a completed frame.\<close>

definition holding_frame :: "u8 list \<Rightarrow> rtu_framer \<Rightarrow> rtu_framer" where
  "holding_frame frm f = f\<lparr>completed_buffer := frm @ drop (length frm) (completed_buffer f),
     completed_len := of_nat (length frm), frame_ready := True\<rparr>"

lemma holding_frame_process:
  assumes "framer_wf f" "\<not> t35_armed f" "rx_callback f" "frm \<noteq> []" "length frm \<le> unat (buffer_size f)"
  shows "\<exists>g. rtu_framer_process k (holding_frame frm f) = Some (frm, g)" and "framer_wf (holding_frame frm f)"
proof -
  have len: "unat (of_nat (length frm) :: u16) = length frm" "unat (buffer_size f) \<le> length (completed_buffer f)"
    using assms(1,5) by (simp_all add: framer_wf_def)
  then have "(0 :: u16) < of_nat (length frm)" using assms(4) by (simp add: word_less_nat_alt)
  with len assms(2-4) show "\<exists>g. rtu_framer_process k (holding_frame frm f) = Some (frm, g)"
    by (simp add: holding_frame_def rtu_framer_process_def rtu_try_complete_frame_def rd_span_Some)
  show "framer_wf (holding_frame frm f)"
    using assms(1,5) len by (simp add: holding_frame_def framer_wf_def)
qed

lemma start_holds:
  assumes "frm \<noteq> []" "length frm \<le> 256"
  shows "\<exists>g. rtu_framer_process k (holding_frame frm (rs485 (start_serial h))) = Some (frm, g)"
    and "serial_wf 40000 (start_serial h\<lparr>rs485 := holding_frame frm (rs485 (start_serial h))\<rparr>)"
proof -
  let ?f = "rs485 (start_serial h)"
  have f: "framer_wf ?f" "\<not> t35_armed ?f" "rx_callback ?f" "buffer_size ?f = 256" "t35_us ?f \<le> 40000"
    using start_port
    by (simp_all add: port_wf_def port_setup_def) (simp add: rtu_framer_set_callback_def rtu_framer_init_def timeouts_115200 Let_def)
  with holding_frame_process(1) [OF f(1-3) assms(1), of k] assms(2)
  show "\<exists>g. rtu_framer_process k (holding_frame frm ?f) = Some (frm, g)" by simp
  have "port_wf 40000 (holding_frame frm ?f)"
    using holding_frame_process(2) [OF f(1-3) assms(1)] assms(2) f(4,5) by (simp add: port_wf_def holding_frame_def)
  then show "serial_wf 40000 (start_serial h\<lparr>rs485 := holding_frame frm ?f\<rparr>)" by simp
qed

lemma rs485_serves_request_witness:
  "\<exists>q. rs485_process default_hooks far_hal ms0
     (start_serial far2\<lparr>rs485 := holding_frame (rtu_frame 1 [3, 0, 0, 0, 1]) (rs485 (start_serial far2))\<rparr>) = Some q \<and> \<not> rs485_de q"
proof -
  let ?fr = "rtu_frame 1 [3, 0, 0, 0, 1]"
  let ?p = "start_serial far2\<lparr>rs485 := holding_frame ?fr (rs485 (start_serial far2))\<rparr>"
  have fr: "?fr \<noteq> []" "length ?fr \<le> 256" by (simp_all add: rtu_frame_def rtu_seal_def)
  obtain st resp s where s: "modbus_rtu_process default_hooks ?fr slave1 = Some (st, resp, s)"
    using dflt.rtu_process_total [OF slave1_wf] by blast
  from start_holds(1) [OF fr, of ms0 far2] obtain g where "rtu_framer_process ms0 (holding_frame ?fr (rs485 (start_serial far2))) = Some (?fr, g)" ..
  then have "\<exists>q. rs485_process default_hooks far_hal ms0 ?p = Some q \<and> serial_wf 40000 q \<and> same_app s (local_slave q) \<and>
      \<not> rs485_de q \<and> \<not> s_waiting q \<and>
      env q = (if resp = [] then env ?p
               else snd (snd (HAL_UART_Transmit far_hal USART2 resp 50 (snd (snd (snd (t35_readings far_hal USART2 (env ?p))))))))"
    using fr(1) s
    by (intro rs485_serves_request [where T = 40000 and frm = ?fr and f = g and st = st] start_holds(2) [OF fr])
      (erule bus_env.clock_runs, simp_all)
  then show ?thesis by blast
qed

text \<open>
  C23: While the master waits for a response, what is received goes to the master's mailbox and to nothing
  else: the poll neither runs the local slave nor transmits, whatever the frame says.
\<close>

theorem waiting_master_gets_frame:
  assumes "\<And>u h start time irqs h'. t35_readings hal u h = (start, time, irqs, h') \<Longrightarrow> \<exists>m. T \<le> time m - start"
    and "serial_wf T p" and "s_waiting p" and "rtu_framer_process k (rs485 p) = Some (frm, f)"
  shows "\<exists>q. rs485_process default_hooks hal k p = Some q \<and> serial_wf T q \<and>
    local_slave q = local_slave p \<and> env q = env p \<and> rs485_de q = rs485_de p \<and>
    (if frm = [] then s_frame_ready q = s_frame_ready p
     else s_frame_ready q \<and> take (unat (s_frame_len q)) (s_frame q) = frm)"
proof -
  have "serial_env default_hooks hal T" by unfold_locales (use assms(1) in auto)
  note * = serial_env.rs485_process_waiting [OF this assms(2-4)]
  from port_process [OF serial_wfD(1) [OF assms(2)], of k] assms(4) have "length frm \<le> 256" by auto
  with * show ?thesis by auto
qed

lemma waiting_master_gets_frame_witness:
  "\<exists>q. rs485_process default_hooks far_hal ms0
     (start_serial far2\<lparr>s_waiting := True, rs485 := holding_frame [2, 3] (rs485 (start_serial far2))\<rparr>) = Some q \<and>
    local_slave q = slave1 \<and> s_frame_ready q"
proof -
  let ?p = "start_serial far2\<lparr>s_waiting := True, rs485 := holding_frame [2, 3] (rs485 (start_serial far2))\<rparr>"
  have fr: "[2, 3] \<noteq> ([] :: u8 list)" "length [2, 3 :: u8] \<le> 256" by simp_all
  from start_holds(1) [OF fr, of ms0 far2] obtain g where "rtu_framer_process ms0 (holding_frame [2, 3] (rs485 (start_serial far2))) = Some ([2, 3], g)" ..
  moreover have "serial_wf 40000 (start_serial far2\<lparr>s_waiting := True, rs485 := holding_frame [2, 3] (rs485 (start_serial far2))\<rparr>)"
    using start_holds(2) [OF fr, of far2] by (simp add: serial_wf_def)
  ultimately have "\<exists>q. rs485_process default_hooks far_hal ms0 ?p = Some q \<and> serial_wf 40000 q \<and>
      local_slave q = local_slave ?p \<and> env q = env ?p \<and> rs485_de q = rs485_de ?p \<and>
      (if [2, 3] = ([] :: u8 list) then s_frame_ready q = s_frame_ready ?p
       else s_frame_ready q \<and> take (unat (s_frame_len q)) (s_frame q) = [2, 3])"
    by (intro waiting_master_gets_frame [where f = g]) (erule bus_env.clock_runs, simp_all)
  then show ?thesis by auto
qed

text \<open>
  The ports never get stuck and never hold the bus: from a well-formed state every batch of interrupts
  and every poll of either port ends, in a well-formed state with the RS485 driver released and the
  waiting flag of the master as it was.
\<close>

theorem ports_never_stuck:
  assumes "\<And>u h start time irqs h'. t35_readings hal u h = (start, time, irqs, h') \<Longrightarrow> \<exists>m. T \<le> time m - start"
    and "serial_wf T p" and "\<not> rs485_de p"
  shows "(\<exists>q. take_irqs is p = Some q \<and> serial_wf T q \<and> \<not> rs485_de q \<and> s_waiting q = s_waiting p) \<and>
    (\<exists>q. rs485_process default_hooks hal k p = Some q \<and> serial_wf T q \<and> \<not> rs485_de q \<and> s_waiting q = s_waiting p) \<and>
    (\<exists>q. rs232_process default_hooks hal k p = Some q \<and> serial_wf T q \<and> \<not> rs485_de q \<and> s_waiting q = s_waiting p)"
proof -
  have env: "serial_env default_hooks hal T" by unfold_locales (use assms(1) in auto)
  show ?thesis
    using take_irqs_total [OF assms(2), of "is"] serial_env.rs485_process_total [OF env assms(2,3)]
      serial_env.rs232_process_total [OF env assms(2)] assms(3)
    by (simp add: irq_frame_def) metis
qed

lemma ports_never_stuck_witness:
  "\<exists>q. rs232_process default_hooks far_hal ms0 (start_serial far2) = Some q \<and> \<not> rs485_de q"
proof -
  have "(\<exists>q. take_irqs [] (start_serial far2) = Some q \<and> serial_wf 40000 q \<and> \<not> rs485_de q \<and> s_waiting q = s_waiting (start_serial far2)) \<and>
    (\<exists>q. rs485_process default_hooks far_hal ms0 (start_serial far2) = Some q \<and> serial_wf 40000 q \<and> \<not> rs485_de q \<and>
       s_waiting q = s_waiting (start_serial far2)) \<and>
    (\<exists>q. rs232_process default_hooks far_hal ms0 (start_serial far2) = Some q \<and> serial_wf 40000 q \<and> \<not> rs485_de q \<and>
       s_waiting q = s_waiting (start_serial far2))"
    by (rule ports_never_stuck) (erule bus_env.clock_runs, simp_all)
  then show ?thesis by blast
qed

section \<open>The end of a transaction\<close>

text \<open>
  C8: Every transaction of the RS485 master returns, whatever the other stations do or fail to do, and
  leaves the port to the local slave: the waiting flag is cleared and the driver released. Needed are
  a clock that goes on (SysTick interrupts keep coming, at most one per round of the polling loop; the
  busy wait sees time pass) and a yield callback that returns and leaves the waiting master's state alone.
\<close>

theorem transaction_returns:
  assumes "\<And>u h start time irqs h'. t35_readings hal u h = (start, time, irqs, h') \<Longrightarrow> \<exists>m. T \<le> time m - start"
    and "\<And>p. serial_wf T p \<Longrightarrow> \<exists>q. run_yield hal p = Some q \<and> serial_wf T q \<and> same_wait p q"
    and "\<And>h. ticks (fst (poll_irqs hal h)) \<le> 1" and "\<And>j h. \<exists>n. j \<le> ticks_in hal n h"
    and "serial_wf T p" and "\<not> s_waiting p" and "\<not> rs485_de p"
  shows "\<exists>r c q. modbus_master_transaction (Some (rtu_transport default_hooks hal)) a req n tmo p = Some (r, c, q) \<and>
    \<not> s_waiting q \<and> \<not> rs485_de q \<and> serial_wf T q"
proof -
  have "waiting_env default_hooks hal T" by unfold_locales (use assms(1-4) in auto)
  from waiting_env.transaction_ends [OF this assms(5-7)] show ?thesis .
qed

lemma transaction_returns_witness:
  "\<exists>r c q. modbus_master_transaction (Some (rtu_transport default_hooks far_hal)) 7 [0x2B] 256 4294967295 (start_serial far2) =
     Some (r, c, q) \<and> \<not> s_waiting q \<and> \<not> rs485_de q \<and> serial_wf 40000 q"
  by (rule transaction_returns)
    (erule bus_env.clock_runs, erule bus_wait.yield_quiet, rule bus_wait.one_tick, rule bus_wait.tick_comes, simp_all)

end
