(* ===== verification/Firmware_Spec.thy ===== *)
theory Firmware_Spec
  imports Firmware_Props Bus_Spec
begin

text \<open>
  The main loop from the start: every round ends, whatever arrives on the ports, the CAN bus and the
  network. The demo is followed over the line of \<open>Bus\<close> to a second board.
\<close>

section \<open>The demo ends\<close>

text \<open>Between transactions.\<close>

definition idle :: "'e ports \<Rightarrow> bool" where
  "idle p \<longleftrightarrow> live p \<and> \<not> s_waiting p \<and> \<not> rs485_de p"

lemma parse_registers_length:
  "modbus_master_parse_read_registers pdu q = Some (Inr vs) \<Longrightarrow> length vs = unat q"
  by (auto simp: modbus_master_parse_read_registers_def dest: length_rd16_span split: if_splits bind_splits)

lemma demo_regs_total:
  assumes "n \<le> length regs" and "n \<le> length (master_demo_last_regs d)"
  shows "\<exists>l. demo_regs n regs d = Some (d\<lparr>master_demo_last_regs := l\<rparr>) \<and> length l = length (master_demo_last_regs d) \<and>
    take n l = take n regs \<and> drop n l = drop n (master_demo_last_regs d)"
proof -
  have "\<exists>t. demo_regs n regs d = Some t \<and> (\<exists>l. t = d\<lparr>master_demo_last_regs := l\<rparr> \<and>
      l = take n regs @ drop n (master_demo_last_regs d))"
    unfolding demo_regs_def
  proof (rule for_n_invariant [where P = "\<lambda>i t. \<exists>l. t = d\<lparr>master_demo_last_regs := l\<rparr> \<and> l = take i regs @ drop i (master_demo_last_regs d)"])
    fix i t
    assume i: "i < n" and "\<exists>l. t = d\<lparr>master_demo_last_regs := l\<rparr> \<and> l = take i regs @ drop i (master_demo_last_regs d)"
    then have t: "master_demo_last_regs t = take i regs @ drop i (master_demo_last_regs d)"
        "t\<lparr>master_demo_last_regs := l\<rparr> = d\<lparr>master_demo_last_regs := l\<rparr>" for l by auto
    have "(take i regs @ drop i (master_demo_last_regs d))[i := regs ! i] = take (Suc i) regs @ drop (Suc i) (master_demo_last_regs d)"
      using i assms by (simp add: list_update_append take_Suc_conv_app_nth Cons_nth_drop_Suc [symmetric] min_def)
    then show "\<exists>t'. do { v \<leftarrow> rd regs i; l \<leftarrow> wr (master_demo_last_regs t) i v; Some (t\<lparr>master_demo_last_regs := l\<rparr>) } = Some t' \<and>
        (\<exists>l. t' = d\<lparr>master_demo_last_regs := l\<rparr> \<and> l = take (Suc i) regs @ drop (Suc i) (master_demo_last_regs d))"
      using i assms t by (simp add: rd_Some wr_def)
  qed (auto intro: exI [of _ "master_demo_last_regs d"])
  then show ?thesis using assms by (auto simp: min_def)
qed

text \<open>Every run of the demo counts once, as a success or as an error.\<close>

definition counted :: "demo \<Rightarrow> demo \<Rightarrow> bool" where
  "counted d d' \<longleftrightarrow> length (master_demo_last_regs d') = length (master_demo_last_regs d) \<and>
     (master_demo_last_status d' = MODBUS_OK \<and> master_demo_ok_count d' = master_demo_ok_count d + 1 \<and>
        master_demo_err_count d' = master_demo_err_count d \<or>
      master_demo_err_count d' = master_demo_err_count d + 1 \<and> master_demo_ok_count d' = master_demo_ok_count d)"

text \<open>
  What a round does to the times: the scan and the demo note the tick read at its start when they are
  due; without a demo the round takes at most \<open>B\<close> milliseconds, and none only if \<open>quiet\<close> falls; the time
  between two scans counts towards the next heartbeat.
\<close>

definition round_times :: "('e \<Rightarrow> nat) \<Rightarrow> nat \<Rightarrow> 'e app \<Rightarrow> 'e app \<Rightarrow> bool" where
  "round_times quiet B s t \<longleftrightarrow> (\<exists>now n0. n0 \<le> 1 \<and> now = sys_tick (app_ports s) + of_nat n0 \<and>
     last_scan_tick t = (if now - last_scan_tick s \<ge> 10 then now else last_scan_tick s) \<and>
     master_demo_last_run t = (if now - master_demo_last_run s \<ge> 2000 then now else master_demo_last_run s) \<and>
     (now - master_demo_last_run s < 2000 \<longrightarrow> (\<exists>n \<le> B. sys_tick (app_ports t) = now + of_nat n \<and>
        (n0 + n = 0 \<longrightarrow> quiet (world (env (app_ports t))) < quiet (world (env (app_ports s)))))) \<and>
     (\<forall>L P k. watched L P k (env (app_ports s)) \<longrightarrow>
        watched L P (k - unat (last_scan_tick t - last_scan_tick s)) (env (app_ports t))))"

context machine_env
begin

lemma call_ends:
  assumes "idle p" and parse: "\<And>resp. parse resp \<noteq> None"
  shows "\<exists>out ex q. master_call (fw_master m) a req parse p = Some (out, ex, q) \<and> idle q \<and> keeps_watch p q \<and>
    (\<forall>x. out = Inr x \<longrightarrow> (\<exists>resp. parse resp = Some (Inr x)))"
proof (cases "req = []")
  case True
  with assms(1) show ?thesis by (simp add: master_call_def)
next
  case False
  let ?run = "modbus_master_transaction (Some (rtu_transport default_hooks (fw_hal m))) a req 256 500 p"
  have ends: "\<exists>r c q. ?run = Some (r, c, q) \<and> idle q \<and> watched L P k (env q)" if "watched L P k (env p)" for L P k
    using poll.rtu_transaction_ends [of p L P k 500 a req 256] assms(1) short that by (auto simp: idle_def live_def)
  from ends [OF watched_start] obtain r c q where q: "?run = Some (r, c, q)" "idle q" by blast
  with ends have "keeps_watch p q" by fastforce
  with q have t: "master_xact_and_check_echo_addr (fw_master m) a req 256 p = Some (r, c, q)" "idle q" "keeps_watch p q"
    by (simp_all add: master_xact_and_check_echo_addr_def fw_master_def)
  show ?thesis
  proof (cases r)
    case (Inr resp)
    with t False parse [of resp] show ?thesis by (auto simp: master_call_def)
  qed (use t False in \<open>simp add: master_call_def\<close>)
qed

lemma read_ends:
  assumes "idle p" "1 \<le> unat q" "unat q \<le> 125"
  shows "\<exists>out ex p'. modbus_master_read_holding_registers (fw_master m) a start q p = Some (out, ex, p') \<and> idle p' \<and> keeps_watch p p' \<and>
    (\<forall>vs. out = Inr vs \<longrightarrow> length vs = unat q)"
proof -
  have "\<not> q < 1" "\<not> q > 125" using assms(2,3) by (simp_all add: word_less_nat_alt)
  moreover have "modbus_master_parse_read_registers resp q \<noteq> None" for resp
    using parse_registers_total [of q resp] assms(3) by simp
  ultimately show ?thesis
    using call_ends [OF assms(1), of "\<lambda>resp. modbus_master_parse_read_registers resp q" a "modbus_master_build_read 0x03 start q 5"]
      parse_registers_length
    by (simp add: modbus_master_read_holding_registers_def) blast
qed

lemma demo_ends:
  assumes "idle p" and len: "length (master_demo_last_regs d) = 2"
  shows "\<exists>d' q. master_demo_run (fw_master m) (d, p) = Some (d', q) \<and> idle q \<and> keeps_watch p q \<and> counted d d'"
proof -
  obtain r1 e1 p1 where 1: "modbus_master_read_holding_registers (fw_master m) 2 0 2 p = Some (r1, e1, p1)" "idle p1" "keeps_watch p p1"
      "\<forall>vs. r1 = Inr vs \<longrightarrow> length vs = 2"
    using read_ends [OF assms(1), of 2 2 0] by auto
  show ?thesis
  proof (cases r1)
    case (Inl st)
    with 1 show ?thesis by (simp add: master_demo_run_def demo_error_def demo_note_def counted_def)
  next
    case r1: (Inr regs)
    then obtain l1 where l1: "demo_regs 2 regs (demo_note r1 e1 d) = Some (demo_note r1 e1 d\<lparr>master_demo_last_regs := l1\<rparr>)" "length l1 = 2"
      using demo_regs_total [of 2 regs "demo_note r1 e1 d"] 1(4) len by (auto simp: demo_note_def)
    obtain r2 e2 p2 where 2: "modbus_master_write_single_register (fw_master m) 2 0 (master_demo_seq d) p1 = Some (r2, e2, p2)" "idle p2" "keeps_watch p1 p2"
      using call_ends [OF 1(2), of "check_write_response 0x06" 2 "modbus_master_build_write_single_register 0 (master_demo_seq d) 5"]
      by (fastforce simp: modbus_master_write_single_register_def check_write_response_def rd_def)
    show ?thesis
    proof (cases r2)
      case (Inl st)
      with 1 r1 l1 2 len show ?thesis by (simp add: master_demo_run_def demo_error_def demo_note_def counted_def)
    next
      case r2: (Inr u)
      obtain r3 e3 p3 where 3: "modbus_master_read_holding_registers (fw_master m) 2 0 1 p2 = Some (r3, e3, p3)" "idle p3" "keeps_watch p2 p3"
          "\<forall>vs. r3 = Inr vs \<longrightarrow> length vs = 1"
        using read_ends [OF 2(2), of 1 2 0] by auto
      show ?thesis
      proof (cases r3)
        case (Inl st)
        with 1 r1 l1 2 r2 3 len show ?thesis by (simp add: master_demo_run_def demo_error_def demo_note_def counted_def)
      next
        case r3: (Inr regs3)
        then have len3: "length regs3 = 1" using 3(4) by simp
        have regs3: "\<exists>l. demo_regs 1 regs3 x = Some (x\<lparr>master_demo_last_regs := l\<rparr>) \<and> length l = 2"
          if "length (master_demo_last_regs x) = 2" for x
          using demo_regs_total [of 1 regs3 x] len3 that by auto
        obtain r4 e4 p4 where 4: "modbus_master_diag_query_data (fw_master m) 2 0xA5A5 p3 = Some (r4, e4, p4)" "idle p4" "keeps_watch p3 p4"
          using call_ends [OF 3(2), of "\<lambda>resp. modbus_master_parse_diagnostics resp 0x0000" 2 "modbus_master_build_diagnostics 0x0000 0xA5A5 5"]
            parse_others_total(2)
          by (fastforce simp: modbus_master_diag_query_data_def)
        define x where "x = demo_note r3 e3 (demo_note r2 e2
            (demo_note r1 e1 d\<lparr>master_demo_last_regs := l1, master_demo_write_value := master_demo_seq d,
              master_demo_seq := master_demo_seq d + 1\<rparr>))"
        obtain l where l: "demo_regs 1 regs3 x = Some (x\<lparr>master_demo_last_regs := l\<rparr>)" "length l = 2"
          using regs3 [of x] l1(2) by (auto simp: x_def demo_note_def)
        have e: "master_demo_run (fw_master m) (d, p) = (let d' = demo_note r4 e4 (x\<lparr>master_demo_last_regs := l\<rparr>) in
            case r4 of Inl _ \<Rightarrow> Some (demo_error d', p4)
            | Inr echo \<Rightarrow> if echo \<noteq> 0xA5A5 then Some (demo_error d', p4)
                else Some (d'\<lparr>master_demo_diag_echo := echo, master_demo_ok_count := master_demo_ok_count d' + 1\<rparr>, p4))"
          using 1(1) r1 l1(1) 2(1) r2 3(1) r3 l(1) 4(1)
          unfolding x_def by (cases r4) (simp_all add: master_demo_run_def demo_note_def Let_def)
        have "counted d (demo_error (demo_note r4 e4 (x\<lparr>master_demo_last_regs := l\<rparr>)))"
          using len l(2) by (simp add: counted_def demo_error_def demo_note_def x_def)
        moreover have "r4 = Inr echo \<Longrightarrow> counted d ((demo_note r4 e4 (x\<lparr>master_demo_last_regs := l\<rparr>))
            \<lparr>master_demo_diag_echo := echo, master_demo_ok_count := master_demo_ok_count (demo_note r4 e4 (x\<lparr>master_demo_last_regs := l\<rparr>)) + 1\<rparr>)" for echo
          using len l(2) by (simp add: counted_def demo_note_def x_def outcome_status_def)
        moreover have "keeps_watch p p4" using 1(3) 2(3) 3(3) 4(3) by simp
        ultimately show ?thesis using e 4(2) by (cases r4) (auto simp: Let_def)
      qed
    qed
  qed
qed

section \<open>One round of the main loop\<close>

lemma iteration_ends:
  assumes "idle (app_ports s)" and "length (master_demo_last_regs (app_demo s)) = 2"
  shows "\<exists>t. main_iteration m s = Some t \<and> idle (app_ports t) \<and> length (master_demo_last_regs (app_demo t)) = 2 \<and>
    (app_demo t = app_demo s \<or> counted (app_demo s) (app_demo t)) \<and> round_times quiet (4 * D + 2) s t"
proof -
  have keep: "idle q" if "idle p" "live q" "passes quiet n p q" for n p q
    using that by (simp add: idle_def passes_def)
  have l: "live p" if "idle p" for p :: "'e ports" using that by (simp add: idle_def)
  obtain k p0 n0 where p0: "next_round (port_hal m) (app_ports s) = Some (k, p0)" "live p0" "passes quiet n0 (app_ports s) p0"
      "n0 \<le> 1" "n0 = 0 \<longrightarrow> quiet (world (env p0)) < quiet (world (env (app_ports s)))"
    using next_round_live [OF l [OF assms(1)]] by blast
  note i0 = keep [OF assms(1) p0(2,3)]
  let ?now = "sys_tick p0"
  obtain s1 p1 where p1: "(if ?now - last_scan_tick s \<ge> 10
       then do { p \<leftarrow> scan_inputs m (?now - last_scan_tick s) p0; Some (s\<lparr>last_scan_tick := ?now\<rparr>, p) }
       else Some (s, p0)) = Some (s1, p1)" "idle p1" "passes quiet 0 p0 p1"
      "s1 = s\<lparr>last_scan_tick := if ?now - last_scan_tick s \<ge> 10 then ?now else last_scan_tick s\<rparr>"
      "\<And>L P k. watched L P k (env p0) \<Longrightarrow> watched L P (k - unat (last_scan_tick s1 - last_scan_tick s)) (env p1)"
  proof (cases "?now - last_scan_tick s \<ge> 10")
    case True
    from scan_inputs_live [OF p0(2), of m "?now - last_scan_tick s" quiet] obtain q where
      q: "scan_inputs m (?now - last_scan_tick s) p0 = Some q" "live q" "passes quiet 0 p0 q"
        "\<forall>L P k. watched L P k (env p0) \<longrightarrow> watched L P (k - unat (?now - last_scan_tick s)) (env q)" by blast
    show thesis
      by (rule that [of "s\<lparr>last_scan_tick := ?now\<rparr>" q]) (use True q(1,3,4) keep [OF i0 q(2,3)] in simp_all)
  next
    case False
    show thesis by (rule that [of s p0]) (use False i0 in \<open>simp_all add: passes_def\<close>)
  qed
  obtain p2 where p2: "serve_can m p1 = Some p2" "live p2" "passes quiet 0 p1 p2" using serve_can_live [OF l [OF p1(2)]] by blast
  note i2 = keep [OF p1(2) p2(2,3)]
  obtain p3 where p3: "on_can canopen_app_sync_outputs p2 = Some p3" "live p3" "passes quiet 0 p2 p3" using sync_live [OF p2(2)] by blast
  note i3 = keep [OF i2 p3(2,3)]
  obtain p4 n4 where p4: "serve_rs485 m p3 = Some p4" "live p4" "passes quiet n4 p3 p4" "n4 \<le> 2 * D + 1"
    using serve_rs485_live [OF p3(2)] i3 unfolding idle_def by blast
  note i4 = keep [OF i3 p4(2,3)]
  let ?due = "?now - master_demo_last_run s \<ge> 2000"
  obtain s2 p5 where p5: "(if ?now - master_demo_last_run s1 \<ge> 2000
       then do {
         (d, p) \<leftarrow> master_demo_run (fw_master m) (app_demo s1, p4);
         Some (s1\<lparr>master_demo_last_run := ?now, app_demo := d\<rparr>, p)
       } else Some (s1, p4)) = Some (s2, p5)" "idle p5" "app_demo s2 = app_demo s \<or> counted (app_demo s) (app_demo s2)"
      "last_scan_tick s2 = last_scan_tick s1" "master_demo_last_run s2 = (if ?due then ?now else master_demo_last_run s)"
      "keeps_watch p4 p5" "\<not> ?due \<Longrightarrow> p5 = p4"
  proof (cases ?due)
    case True
    from demo_ends [OF i4, of "app_demo s1"] assms(2) p1(4) obtain d q where
      q: "master_demo_run (fw_master m) (app_demo s1, p4) = Some (d, q)" "idle q" "keeps_watch p4 q" "counted (app_demo s) d" by auto
    show thesis
      by (rule that [of "s1\<lparr>master_demo_last_run := ?now, app_demo := d\<rparr>" q]) (use True q p1(4) in simp_all)
  next
    case False
    show thesis by (rule that [of s1 p4]) (use False i4 p1(4) in simp_all)
  qed
  obtain p6 n6 where p6: "serve_rs232 m p5 = Some p6" "live p6" "passes quiet n6 p5 p6" "n6 \<le> 2 * D + 1"
    using serve_rs232_live [OF l [OF p5(2)]] by blast
  note i6 = keep [OF p5(2) p6(2,3)]
  obtain p7 where p7: "serve_ethernet m p6 = Some p7" "live p7" "passes quiet 0 p6 p7" using serve_ethernet_live [OF p6(2)] by blast
  note i7 = keep [OF i6 p7(2,3)]
  let ?t = "s2\<lparr>app_ports := p7\<rparr>"
  have "main_iteration m s = Some ?t"
    using p0(1) p1(1) p2(1) p3(1) p4(1) p5(1) p6(1) p7(1) by (simp only: main_iteration_def Let_def bind.bind_lunit prod.case)
  moreover have "length (master_demo_last_regs (app_demo s2)) = 2" using p5(3) assms(2) by (auto simp: counted_def)
  moreover have "round_times quiet (4 * D + 2) s ?t"
    unfolding round_times_def
  proof (rule exI [of _ ?now], rule exI [of _ n0], intro conjI allI impI)
    assume "?now - master_demo_last_run s < 2000"
    then have "p5 = p4" using p5(7) by simp
    with p6(3) have p6': "passes quiet n6 p4 p6" by simp
    have "passes quiet (n4 + n6) p0 p7"
      using passes_trans [OF passes_trans [OF passes_trans [OF passes_trans [OF passes_trans [OF p1(3) p2(3)] p3(3)] p4(3)] p6'] p7(3)] by simp
    moreover have "n4 + n6 \<le> 4 * D + 2" using p4(4) p6(4) by simp
    ultimately show "\<exists>n \<le> 4 * D + 2. sys_tick (app_ports ?t) = ?now + of_nat n \<and>
        (n0 + n = 0 \<longrightarrow> quiet (world (env (app_ports ?t))) < quiet (world (env (app_ports s))))"
      using p0(5) by (intro exI [of _ "n4 + n6"]) (auto simp: passes_def)
  next
    fix L P k
    assume "watched L P k (env (app_ports s))"
    then have "watched L P k (env p0)" using p0(3) by (simp add: passes_def)
    from p1(5) [OF this] show "watched L P (k - unat (last_scan_tick ?t - last_scan_tick s)) (env (app_ports ?t))"
      using p2(3) p3(3) p4(3) p5(4,6) p6(3) p7(3) by (simp add: passes_def)
  qed (use p0(3,4) p1(4) p5(4,5) in \<open>simp_all add: passes_def\<close>)
  ultimately show ?thesis using i7 p5(3) by simp
qed

lemma loop_ends:
  assumes "idle (app_ports s)" and "length (master_demo_last_regs (app_demo s)) = 2"
  shows "\<exists>t. main_loop m n s = Some t \<and> idle (app_ports t) \<and> length (master_demo_last_regs (app_demo t)) = 2"
  using assms
proof (induction n arbitrary: s)
  case (Suc n)
  from iteration_ends [OF Suc.prems] obtain t where
    "main_iteration m s = Some t" "idle (app_ports t)" "length (master_demo_last_regs (app_demo t)) = 2" by blast
  with Suc.IH [of t] show ?case by simp
qed simp

end

section \<open>Start\<close>

text \<open>The statics at reset, as far as the code relies on them: the sizes of the arrays.\<close>

definition reset_ports :: "'e ports \<Rightarrow> bool" where
  "reset_ports p \<longleftrightarrow> power_up (local_slave p) \<and> can_wf (g_can (env p)) \<and> co_app (g_can (env p)) = Board_App \<and> length (s_frame p) = 256 \<and>
     (\<forall>f \<in> {rs485 p, rs232 p}. length (rx_buffer f) = 256 \<and> length (completed_buffer f) = 256)"

definition start_app :: "'e ports \<Rightarrow> demo \<Rightarrow> 'e app" where
  "start_app p d = \<lparr>app_ports = p, last_scan_tick = 0, master_demo_last_run = 0, app_demo = d\<rparr>"

lemma init_port_wf:
  assumes "length (rx_buffer f) = 256" "length (completed_buffer f) = 256"
  shows "port_wf 40000 (rtu_framer_set_callback True (rtu_framer_init (rx_buffer f) (completed_buffer f) 256 115200 f))"
  using assms
  by (simp add: port_wf_def framer_wf_def rtu_framer_set_callback_def rtu_framer_init_def timeouts_115200 Let_def)

lemma power_up_board: "power_up s \<Longrightarrow> board_wf b \<Longrightarrow> power_up (s\<lparr>s_board := b\<rparr>)"
  by (simp add: power_up_def)

lemma main_init_idle:
  assumes "reset_ports p"
  shows "\<exists>q. main_init p = Some q \<and> idle q \<and> nmt_state (node_nmt (g_canopen_node (env q))) = NMT_STATE_PRE_OPERATIONAL \<and>
    rx_callback (rs485 q) \<and> rx_callback (rs232 q) \<and> eth_link_up (g_eth (env q)) \<and> eth_rx_callback (g_eth (env q)) \<and>
    modbus_slave_id (local_slave q) = 1 \<and> holding_regs (local_slave q) = replicate 256 0 \<and>
    digital_outputs_read_all (s_board (local_slave q)) = 0 \<and>
    BSRR DO_PORT (push_bit 16 0x07E3) \<in> set (hw (s_board (local_slave q))) \<and>
    (\<forall>h l. store (g_can (env p)) (0x1017, 0) = [l, h] \<longrightarrow> heartbeat_period_ms (node_nmt (g_canopen_node (env q))) = be16 h l)"
proof -
  define b where "b = analog_outputs_init (relays_init (digital_outputs_init (s_board (local_slave p))))"
  define sl where "sl = modbus_rtu_init 1 ((local_slave p)\<lparr>s_board := b\<rparr>)"
  have b: "board_wf b" using assms by (simp add: b_def reset_ports_def power_up_def)
  have b0: "digital_outputs_read_all b = 0"
    by (simp add: b_def analog_outputs_init_def digital_outputs_read_all_def analog_output_write_raw_def emit_def)
      (simp add: digital_outputs_init_def)
  have "BSRR DO_PORT (push_bit 16 0x07E3) \<in> set (hw (digital_outputs_init (s_board (local_slave p))))"
    by (simp add: digital_outputs_init_def emit_def)
  then have off: "BSRR DO_PORT (push_bit 16 0x07E3) \<in> set (hw (analog_output_write_raw 1 0 (analog_output_write_raw 0 0 b)))"
    unfolding b_def by (rule hw_init)
  have "power_up ((local_slave p)\<lparr>s_board := b\<rparr>)"
    using assms b by (simp add: reset_ports_def power_up_board)
  from rtu_init_state(1,2) [OF this, of 1] have
    sl: "slave_wf sl" "modbus_slave_id sl = 1" "s_board sl = b" "holding_regs sl = replicate 256 0"
    by (simp_all add: sl_def) (simp_all add: modbus_rtu_init_def)
  let ?c = "(g_can (env p))\<lparr>co_board := b\<rparr>"
  have "can_wf ?c" using assms b can_wf_board by (simp add: reset_ports_def)
  from init_ok [OF this, of 1] obtain s where
    s: "canopen_init 1 None ?c = Some (Some s)" "node_ok canopen_default_od_get 1 s" "co_board (snd s) = b"
      "co_app (snd s) = co_app (g_can (env p))"
      "nmt_state (node_nmt (fst s)) = NMT_STATE_PRE_OPERATIONAL"
      "\<forall>h l. store (g_can (env p)) (0x1017, 0) = [l, h] \<longrightarrow> heartbeat_period_ms (node_nmt (fst s)) = be16 h l" by auto
  define q where "q = on_board (\<lambda>b. analog_output_write_raw 1 0 (analog_output_write_raw 0 0 b))
     (p\<lparr>rs485 := rtu_framer_set_callback True (rtu_framer_init (rx_buffer (rs485 p)) (completed_buffer (rs485 p)) 256 115200 (rs485 p)),
        rs232 := rtu_framer_set_callback True (rtu_framer_init (rx_buffer (rs232 p)) (completed_buffer (rs232 p)) 256 115200 (rs232 p)),
        rs485_de := False, s_waiting := False, s_frame_ready := False, s_frame_len := 0, local_slave := sl,
        env := (env p)\<lparr>g_canopen_node := fst s, g_can := snd s, g_eth := (g_eth (env p))\<lparr>eth_link_up := True, eth_rx_callback := True\<rparr>\<rparr>\<rparr>)"
  have "main_init p = Some q"
    using s(1,3) sl(3)
    by (simp add: main_init_def Let_def the_node_def put_node_def q_def on_board_def on_slave_def b_def [symmetric] sl_def [symmetric]
        rs485_init_def rs232_init_def rs485_set_rx_callback_def rs232_set_rx_callback_def ethernet_init_def ethernet_set_rx_callback_def)
  moreover have "port_wf 40000 (rs485 q)" "port_wf 40000 (rs232 q)"
    using assms init_port_wf [of "rs485 p"] init_port_wf [of "rs232 p"] by (simp_all add: q_def on_board_def on_slave_def reset_ports_def)
  then have "idle q"
    using assms sl s(2,4) b
    by (simp add: idle_def live_def serial_wf_def q_def on_board_def on_slave_def fw_ok_def reset_ports_def)
  ultimately show ?thesis
    using s(5,6) sl b0 off
    by (simp add: q_def on_board_def on_slave_def) (simp add: rtu_framer_set_callback_def)
qed

section \<open>Properties\<close>

text \<open>
  C9: The firmware starts and never gets stuck: \<open>main\<close>'s initialisation leaves the Modbus registers zero,
  the digital outputs off and the CANopen node pre-operational, and from there every number of rounds of the main loop
  runs to its end, each with all of its services and, when due, the demo of the master with its up to
  four transactions and the work the yield pump does meanwhile. Nothing on the way reads or writes out
  of bounds, and between the rounds the state is well formed, no transaction is open and the RS485
  driver is released, whatever is received on any port.
\<close>

theorem firmware_runs:
  assumes "machine_ok m quiet left D" and "reset_ports p" and "length (master_demo_last_regs d) = 2"
  shows "\<exists>q. main_init p = Some q \<and> modbus_slave_id (local_slave q) = 1 \<and> holding_regs (local_slave q) = replicate 256 0 \<and>
    digital_outputs_read_all (s_board (local_slave q)) = 0 \<and> nmt_state (node_nmt (g_canopen_node (env q))) = NMT_STATE_PRE_OPERATIONAL \<and>
    (\<forall>n. \<exists>s. main_loop m n (start_app q d) = Some s \<and> live (app_ports s) \<and> \<not> s_waiting (app_ports s) \<and> \<not> rs485_de (app_ports s))"
proof -
  have "machine_env m quiet left D" by unfold_locales (rule assms(1))
  note * = machine_env.loop_ends [OF this]
  obtain q where q: "main_init p = Some q" "idle q" "modbus_slave_id (local_slave q) = 1"
      "holding_regs (local_slave q) = replicate 256 0" "digital_outputs_read_all (s_board (local_slave q)) = 0"
      "nmt_state (node_nmt (g_canopen_node (env q))) = NMT_STATE_PRE_OPERATIONAL"
    using main_init_idle [OF assms(2)] by blast
  have "\<exists>s. main_loop m n (start_app q d) = Some s \<and> idle (app_ports s)" for n
    using * [of "start_app q d"] q(2) assms(3) by (simp add: start_app_def) metis
  with q(1,3-6) show ?thesis by (simp add: idle_def)
qed

text \<open>A machine on which time goes by and CAN messages come from a list.\<close>

definition calm_machine :: "(can_rx_header \<times> u8 list) list machine" where
  "calm_machine = \<lparr>uart_transmit = (\<lambda>_ _ _ w. (True, [], w)), uart_clock = (\<lambda>_ w. (0, of_nat, [], w)),
     pending_irqs = (\<lambda>w. ([SysTick_IRQ ms0 ms0], ms0, w)), bxcan = list_hal, eth_frames = (\<lambda>w. ([[1, 2, 3]], w)),
     di_port = (\<lambda>_. 0xFE)\<rparr>"

definition boot_demo :: demo where
  "boot_demo = \<lparr>master_demo_ok_count = 0, master_demo_err_count = 0, master_demo_last_status = MODBUS_OK,
     master_demo_last_exception = 0, master_demo_last_regs = [0, 0], master_demo_write_value = 0,
     master_demo_diag_echo = 0, master_demo_seq = 0\<rparr>"

definition boot_ports :: "canopen_node \<Rightarrow> 'e \<Rightarrow> 'e ports" where
  "boot_ports node w = (reset_serial \<lparr>g_canopen_node = node, g_can = start_can,
      g_eth = \<lparr>eth_rx_callback = False, eth_link_up = False, eth_packets = [], eth_results = (\<lambda>_. True)\<rparr>,
      s_last_yield_tick = 0, world = w\<rparr>)\<lparr>local_slave := boot_slave\<rparr>"

lemma calm_ok: "machine_ok calm_machine (\<lambda>_. 0) length 0"
proof -
  have "40000 \<le> (of_nat 40000 :: u32) - 0" by simp
  then have "\<exists>i. 40000 \<le> (of_nat i :: u32) - 0" by blast
  then show ?thesis by (auto simp: machine_ok_def calm_machine_def list_hal_def split: list.split)
qed

interpretation calm: machine_env calm_machine "\<lambda>_. 0" length 0
  by unfold_locales (rule calm_ok)

lemma boot_reset: "reset_ports (boot_ports node w)"
proof -
  have "can_wf start_can" "co_app start_can = Board_App" using start_power_on by (simp_all add: power_on_def)
  then show ?thesis
    by (simp add: reset_ports_def boot_ports_def reset_serial_def boot_power_up) (simp add: reset_framer_def)
qed

lemma firmware_runs_witness:
  "\<exists>node q s. main_init (boot_ports node [(\<lparr>rx_StdId = 0x601, rx_remote = False, rx_DLC = 8\<rparr>, replicate 8 0x40)]) = Some q \<and>
     main_loop calm_machine 5000 (start_app q boot_demo) = Some s"
proof -
  have "length (master_demo_last_regs boot_demo) = 2" by (simp add: boot_demo_def)
  from firmware_runs [OF calm_ok boot_reset this] show ?thesis by blast
qed

text \<open>
  C11: A scan publishes the inputs on both protocols: afterwards the Modbus discrete inputs and the CANopen
  object 0x6000 both show the debounced digital inputs of this scan, and each analog conversion that was
  delivered is in its Modbus input register, mirrored from holding register 100 + i.
\<close>

theorem inputs_published:
  assumes "live p"
    and "adc = snd (adc_scans (g_can (env p)) (adc_count (g_can (env p))))"
    and "b = digital_inputs_scan (di_port m (world (env p))) (s_board (local_slave p))"
  shows "\<exists>q. scan_inputs m delta p = Some q \<and> live q \<and>
    (\<forall>i < 8. modbus_bit_read (discrete_bits (local_slave q)) (of_nat i) = digital_input_read b (of_nat i)) \<and>
    store (g_can (env q)) p_digital_inputs = [digital_inputs_read_all b] \<and>
    (\<forall>i < 4. input_regs (local_slave q) ! i = holding_regs (local_slave q) ! (100 + i)) \<and>
    (\<forall>i < 4. \<forall>v. adc i = Some v \<longrightarrow> input_regs (local_slave q) ! i = v)"
proof -
  have "drop_bit i (digital_inputs_read_all b) AND 1 = digital_input_read b (of_nat i)" if "i < 8" for i
    using that by (simp add: digital_input_read_def digital_inputs_read_all_def word_le_nat_alt unat_of_nat)
  with scan_inputs_live [OF assms(1), of m delta "\<lambda>_. 0"] assms(2,3) show ?thesis by (auto simp: published_def)
qed

lemma inputs_published_witness:
  "\<exists>node p q. main_init (boot_ports node []) = Some p \<and> scan_inputs calm_machine 10 p = Some q \<and>
     store (g_can (env q)) p_digital_inputs = [digital_inputs_read_all (digital_inputs_scan 0xFE (s_board (local_slave p)))]"
proof -
  have calm: "di_port calm_machine w = 0xFE" for w :: "(can_rx_header \<times> u8 list) list" by (simp add: calm_machine_def)
  obtain node and p :: "(can_rx_header \<times> u8 list) list ports" where
    p: "main_init (boot_ports node []) = Some p" "live p"
    using main_init_idle [OF boot_reset] idle_def by metis
  from inputs_published [OF p(2) refl refl, of calm_machine 10] p(1) show ?thesis by (auto simp: calm)
qed

text \<open>
  C10: The demo succeeds against a board of this firmware: over the line it reads two registers, writes its
  sequence number to register 0 of the far board, reads it back and gets its query data echoed; the run
  counts as a success, the far board's register 0 holds the number and no other register has changed.
\<close>

theorem demo_succeeds:
  assumes "bus_ready 2 p" and "\<not> s_listen_only (s_diag (far_slave (env p)))"
    and "s_transport m = Some (rtu_transport default_hooks far_hal)" and "s_timeout_ms m = 500"
    and "length (master_demo_last_regs d) = 2"
  shows "\<exists>d' q. master_demo_run m (d, p) = Some (d', q) \<and> bus_ready 2 q \<and>
    master_demo_ok_count d' = master_demo_ok_count d + 1 \<and> master_demo_err_count d' = master_demo_err_count d \<and>
    master_demo_last_status d' = MODBUS_OK \<and> master_demo_seq d' = master_demo_seq d + 1 \<and>
    master_demo_last_regs d' = [master_demo_seq d, holding_regs (far_slave (env p)) ! 1] \<and> master_demo_diag_echo d' = 0xA5A5 \<and>
    holding_regs (far_slave (env q)) = (holding_regs (far_slave (env p)))[0 := master_demo_seq d]"
proof -
  have m: "bus.linked m" using assms(3,4) by (simp add: bus.linked_def)
  have ready: "slave_wf (far_slave (env x))" "modbus_slave_id (far_slave (env x)) \<noteq> 0" if "bus_ready 2 x" for x
    using that by (auto simp: bus_ready_def)
  let ?H = "holding_regs (far_slave (env p))"
  have len: "length ?H = 256" using ready(1) [OF assms(1)] by (rule slave_wfD(1))
  then obtain h0 h1 hs where H: "?H = h0 # h1 # hs" by (cases ?H; cases "tl ?H") auto
  let ?v = "master_demo_seq d"
  have 2: "unat (2 :: u16) = 2" "unat (1 :: u16) = 1" "(2 :: u16) * 2 = 4" by simp_all
  from answer_read_registers [OF ready(1) [OF assms(1)] assms(2) ready(2) [OF assms(1)], of 2 0] obtain s1 where
    s1: "slave_answer (0x03 # be_bytes [0, 2]) (far_slave (env p)) = (0x03 # ucast ((2 :: u16) * 2) # be_bytes [h0, h1], s1)"
      "holding_regs s1 = ?H" "\<not> s_listen_only (s_diag s1)" by (auto simp: H)
  from bus.link_read_registers [OF m assms(1) _ _ s1(1)] obtain p1 where
    p1: "bus_ready 2 p1" "far_slave (env p1) = s1" "modbus_master_read_holding_registers m 2 0 2 p = Some (Inr [h0, h1], 0, p1)" by auto
  from answer_write_register [OF ready(1) [OF p1(1)] _ ready(2) [OF p1(1)], of 0 ?v] s1(2,3) p1(2) obtain s2 where
    s2: "slave_answer (0x06 # be_bytes [0, ?v]) (far_slave (env p1)) = (0x06 # be_bytes [0, ?v], s2)"
      "holding_regs s2 = ?H[0 := ?v]" "\<not> s_listen_only (s_diag s2)" by auto
  from bus.link_write_register [OF m p1(1) s2(1)] obtain p2 where
    p2: "bus_ready 2 p2" "far_slave (env p2) = s2" "modbus_master_write_single_register m 2 0 ?v p1 = Some (Inr (), 0, p2)" by blast
  from answer_read_registers [OF ready(1) [OF p2(1)] _ ready(2) [OF p2(1)], of 1 0] s2(2,3) p2(2) obtain s3 where
    s3: "slave_answer (0x03 # be_bytes [0, 1]) (far_slave (env p2)) = (0x03 # ucast ((1 :: u16) * 2) # be_bytes [?v], s3)"
      "holding_regs s3 = ?H[0 := ?v]" "\<not> s_listen_only (s_diag s3)" by (auto simp: H)
  from bus.link_read_registers [OF m p2(1) _ _ s3(1)] obtain p3 where
    p3: "bus_ready 2 p3" "far_slave (env p3) = s3" "modbus_master_read_holding_registers m 2 0 1 p2 = Some (Inr [?v], 0, p3)" by auto
  from answer_query_data [of "far_slave (env p3)" "0xA5A5"] ready(2) [OF p3(1)] s3(2,3) p3(2) obtain s4 where
    s4: "slave_answer (0x08 # be_bytes [0, 0xA5A5]) (far_slave (env p3)) = (0x08 # be_bytes [0, 0xA5A5], s4)"
      "holding_regs s4 = ?H[0 := ?v]" by auto
  from bus.link_query_data [OF m p3(1) s4(1)] obtain p4 where
    p4: "bus_ready 2 p4" "far_slave (env p4) = s4" "modbus_master_diag_query_data m 2 0xA5A5 p3 = Some (Inr 0xA5A5, 0, p4)" by blast
  obtain a b where l: "master_demo_last_regs d = [a, b]" using assms(5) by (auto simp: length_Suc_conv numeral_2_eq_2)
  have regs: "demo_regs 2 [h0, h1] x = Some (x\<lparr>master_demo_last_regs := [h0, h1]\<rparr>)" if "master_demo_last_regs x = [a, b]" for x
    using that by (simp add: demo_regs_def numeral_2_eq_2 rd_def wr_def)
  have regs1: "demo_regs (Suc 0) [v] x = Some (x\<lparr>master_demo_last_regs := [v, h1]\<rparr>)" if "master_demo_last_regs x = [h0, h1]" for x v
    using that by (simp add: demo_regs_def rd_def wr_def)
  show ?thesis
    using p1(3) p2(3) p3(3) p4 s4(2) l H
    by (simp add: master_demo_run_def demo_note_def outcome_status_def regs regs1 Let_def)
qed

lemma demo_succeeds_witness:
  "\<exists>d q. master_demo_run master500 (boot_demo\<lparr>master_demo_seq := 7\<rparr>, start_serial far2) = Some (d, q) \<and>
     master_demo_last_regs d = [7, 0] \<and> holding_regs (far_slave (env q)) ! 0 = 7"
  using demo_succeeds [of "start_serial far2" master500 "boot_demo\<lparr>master_demo_seq := 7\<rparr>"] master500_linked
  by (auto simp: bus.linked_def boot_demo_def)

end
