(* ===== verification/Firmware_Live.thy ===== *)
theory Firmware_Live
  imports Firmware_Spec
begin

text \<open>
  Liveness of the whole firmware: the main loop scans again and again, and the node's heartbeat goes on
  through the scans, the transactions of the master and their yield pump. The rank of a state falls in
  every round that does not scan: by the first component when the demo runs, and else by the time since
  the last scan or, in a round without a tick, by \<open>quiet\<close>.
\<close>

definition ready :: "'e app \<Rightarrow> bool" where
  "ready s \<longleftrightarrow> idle (app_ports s) \<and> length (master_demo_last_regs (app_demo s)) = 2"

section \<open>The rank\<close>

definition demo_rank :: "'e app \<Rightarrow> nat" where
  "demo_rank s = min 10 (unat (master_demo_last_run s - last_scan_tick s))"

text \<open>The largest difference is one tick before the wrap, after which the time starts from zero again.\<close>

definition scan_rank :: "'e app \<Rightarrow> nat" where
  "scan_rank s = (let x = unat (sys_tick (app_ports s) - last_scan_tick s) in
     if x < 10 then 11 - x else if x < 2 ^ 32 - 1 then 0 else 12)"

definition rank :: "('e \<Rightarrow> nat) \<Rightarrow> ('e app \<times> 'e app) set" where
  "rank quiet = inv_image (less_than <*lex*> less_than <*lex*> less_than)
     (\<lambda>s. (demo_rank s, scan_rank s, quiet (world (env (app_ports s)))))"

lemma wf_rank: "wf (rank quiet)"
  unfolding rank_def by (intro wf_inv_image wf_lex_prod wf_less_than)

lemma unat_add_small: "unat (a :: u32) + n < 2 ^ 32 \<Longrightarrow> unat (a + of_nat n) = unat a + n"
  by (simp add: unat_word_ariths unat_of_nat)

text \<open>A round scans, or the rank falls.\<close>

lemma round_progress:
  assumes "round_times quiet B s t" and "B + 20 < 2 ^ 32" and "unat (last_scan_tick t - last_scan_tick s) < 10"
  shows "last_scan_tick t = last_scan_tick s \<and> (t, s) \<in> rank quiet"
proof -
  let ?c = "last_scan_tick s"
  define y x where "y = master_demo_last_run s - ?c" and "x = sys_tick (app_ports s) - ?c"
  from assms(1) obtain now n0 where n0: "n0 \<le> 1" "now = sys_tick (app_ports s) + of_nat n0"
      "last_scan_tick t = (if now - ?c \<ge> 10 then now else ?c)"
      "master_demo_last_run t = (if now - master_demo_last_run s \<ge> 2000 then now else master_demo_last_run s)"
      "now - master_demo_last_run s < 2000 \<longrightarrow> (\<exists>n \<le> B. sys_tick (app_ports t) = now + of_nat n \<and>
         (n0 + n = 0 \<longrightarrow> quiet (world (env (app_ports t))) < quiet (world (env (app_ports s)))))"
    unfolding round_times_def by blast
  define a where "a = now - ?c"
  have small: "unat a < 10" and same_scan: "last_scan_tick t = ?c"
    using assms(3) n0(3) by (cases "now - ?c \<ge> 10"; simp add: a_def word_le_nat_alt)+
  have ax: "a = x + of_nat n0" by (simp add: a_def x_def n0(2))
  have ay: "now - master_demo_last_run s = a - y" by (simp add: a_def y_def)
  show ?thesis
  proof (cases "a - y \<ge> 2000")
    case True
    have "unat a < unat y"
    proof (rule ccontr)
      assume "\<not> ?thesis"
      then have "unat (a - y) \<le> unat a" by (simp add: unat_sub word_le_nat_alt)
      with True small show False by (simp add: word_le_nat_alt)
    qed
    moreover have "demo_rank t = min 10 (unat a)" using True n0(4) same_scan by (simp add: demo_rank_def ay a_def)
    ultimately have "demo_rank t < demo_rank s" using small by (simp add: demo_rank_def y_def)
    then show ?thesis by (simp add: rank_def same_scan)
  next
    case False
    then have same: "demo_rank t = demo_rank s" using n0(4) same_scan by (simp add: demo_rank_def ay)
    from False n0(5) obtain n where n: "n \<le> B" "sys_tick (app_ports t) = now + of_nat n"
        "n0 + n = 0 \<longrightarrow> quiet (world (env (app_ports t))) < quiet (world (env (app_ports s)))"
      by (auto simp: ay not_le)
    have "sys_tick (app_ports t) - last_scan_tick t = a + of_nat n" by (simp add: n(2) same_scan a_def)
    then have x': "unat (sys_tick (app_ports t) - last_scan_tick t) = unat a + n"
      using small n(1) assms(2) by (simp add: unat_add_small)
    have t: "scan_rank t = (if unat a + n < 10 then 11 - (unat a + n) else 0)"
      using small n(1) assms(2) by (simp add: scan_rank_def x')
    have s: "scan_rank s = (if unat x < 10 then 11 - unat x else if unat x < 2 ^ 32 - 1 then 0 else 12)"
      by (simp add: scan_rank_def x_def Let_def)
    have "scan_rank t < scan_rank s \<or> scan_rank t = scan_rank s \<and> n0 + n = 0"
    proof (cases "unat x = 2 ^ 32 - 1")
      case True
      then show ?thesis using t s by auto
    next
      case False
      then have "unat x + n0 < 2 ^ 32" using n0(1) unsigned_less [of x, where ?'a = nat] by simp
      then have "unat a = unat x + n0" by (simp add: ax unat_add_small)
      then show ?thesis using t s small by auto
    qed
    then show ?thesis using same n(3) by (auto simp: rank_def same_scan)
  qed
qed

section \<open>The heartbeat goes on\<close>

context machine_env
begin

lemma round_ends:
  assumes "ready s"
  shows "\<exists>t. main_iteration m s = Some t \<and> ready t \<and> round_times quiet (4 * D + 2) s t"
  using iteration_ends [of s] assms unfolding ready_def by blast

lemma scan_comes:
  assumes "ready s"
  shows "\<exists>k t. main_loop m k s = Some t \<and> ready t \<and>
    (\<forall>L P j. watched L P j (env (app_ports s)) \<longrightarrow> watched L P (j - 10) (env (app_ports t)))"
  using assms
proof (induction s rule: wf_induct_rule [OF wf_rank [of quiet], case_names less])
  case (less s)
  obtain t where t: "main_iteration m s = Some t" "ready t" "round_times quiet (4 * D + 2) s t"
    using round_ends [OF less.prems] by blast
  then have w: "watched L P (j - unat (last_scan_tick t - last_scan_tick s)) (env (app_ports t))"
    if "watched L P j (env (app_ports s))" for L P j using that unfolding round_times_def by blast
  show ?case
  proof (cases "unat (last_scan_tick t - last_scan_tick s) < 10")
    case True
    from round_progress [OF t(3) _ True] short have falls: "last_scan_tick t = last_scan_tick s" "(t, s) \<in> rank quiet" by auto
    from less.IH [OF falls(2) t(2)] obtain k u where u: "main_loop m k t = Some u" "ready u"
      "\<forall>L P j. watched L P j (env (app_ports t)) \<longrightarrow> watched L P (j - 10) (env (app_ports u))" by blast
    have "main_loop m (Suc k) s = Some u" using t(1) u(1) by simp
    with u(2,3) w falls(1) show ?thesis by (metis diff_self diff_zero unat_0)
  next
    case False
    have "watched L P (j - 10) (env (app_ports t))" if "watched L P j (env (app_ports s))" for L P j
      using watched_mono [OF w [OF that]] False by simp
    moreover have "main_loop m (Suc 0) s = Some t" using t(1) by simp
    ultimately show ?thesis using t(2) by blast
  qed
qed

lemma main_loop_add: "main_loop m (k + n) s = do { t \<leftarrow> main_loop m k s; main_loop m n t }"
  by (induction k arbitrary: s) (simp_all split: bind_split)

lemma timer_runs_out:
  assumes "ready s"
  shows "\<exists>k t. main_loop m k s = Some t \<and> ready t \<and>
    (\<forall>L P. watched L P (10 * j) (env (app_ports s)) \<longrightarrow> watched L P 0 (env (app_ports t)))"
  using assms
proof (induction j arbitrary: s)
  case 0
  then show ?case by (intro exI [of _ 0]) simp
next
  case (Suc j)
  from scan_comes [OF Suc.prems] obtain k t where t: "main_loop m k s = Some t" "ready t"
    "\<forall>L P j. watched L P j (env (app_ports s)) \<longrightarrow> watched L P (j - 10) (env (app_ports t))" by blast
  from Suc.IH [OF t(2)] obtain n u where u: "main_loop m n t = Some u" "ready u"
    "\<forall>L P. watched L P (10 * j) (env (app_ports t)) \<longrightarrow> watched L P 0 (env (app_ports u))" by blast
  have "main_loop m (k + n) s = Some u" using t(1) u(1) by (simp add: main_loop_add)
  moreover have "watched L P 0 (env (app_ports u))" if "watched L P (10 * Suc j) (env (app_ports s))" for L P
    using t(3) [rule_format, OF that] u(3) by simp
  ultimately show ?case using u(2) by blast
qed

text \<open>Rounds of the loop, by the time between their scans.\<close>

lemma loop_watched:
  assumes "ready s" and "main_loop m k s = Some t"
  shows "ready t \<and> (\<forall>L P j. watched L P j (env (app_ports s)) \<longrightarrow>
    watched L P (j - unat (last_scan_tick t - last_scan_tick s)) (env (app_ports t)))"
  using assms
proof (induction k arbitrary: s)
  case (Suc k)
  obtain u where u: "main_iteration m s = Some u" "ready u" "round_times quiet (4 * D + 2) s u"
    using round_ends [OF Suc.prems(1)] by blast
  let ?a = "last_scan_tick u - last_scan_tick s" and ?b = "last_scan_tick t - last_scan_tick u"
  have IH: "ready t" "\<And>L P j. watched L P j (env (app_ports u)) \<Longrightarrow> watched L P (j - unat ?b) (env (app_ports t))"
    using Suc.IH [OF u(2)] Suc.prems(2) u(1) by auto
  have sum: "unat (last_scan_tick t - last_scan_tick s) \<le> unat ?b + unat ?a"
    using unat_word_ariths(1) [of ?b ?a] by simp
  have "watched L P (j - unat (last_scan_tick t - last_scan_tick s)) (env (app_ports t))"
    if "watched L P j (env (app_ports s))" for L P j
  proof -
    have "watched L P (j - unat ?a) (env (app_ports u))" using u(3) that unfolding round_times_def by blast
    from watched_mono [OF IH(2) [OF this]] sum show ?thesis by simp
  qed
  with IH(1) show ?case by blast
qed simp

lemma ready_board: "ready s \<Longrightarrow> board_wf (s_board (local_slave (app_ports s)))"
  using slave_wfD(12) [OF serial_wfD(3)] by (auto simp: ready_def idle_def live_def)

text \<open>What is shown of a watched heartbeat that has run out.\<close>

lemma watched_beats:
  assumes "watched (tx_log (g_can (env p))) P 0 (env q)" and "live q" and "0 < P"
  shows "beats 1 (the_node p) (the_node q)"
proof -
  from assms(2) have "nmt_wf (node_nmt (g_canopen_node (env q)))" by (simp add: live_def fw_ok_def node_ok_def node_wf_def)
  with assms(1,3) show ?thesis by (auto simp: watched_def beats_def the_node_def nmt_wf_def word_gt_0 unat_eq_0)
qed

lemma beats_on:
  assumes "ready s" and "heartbeat_period_ms (node_nmt (g_canopen_node (env (app_ports s)))) = P" and "0 < P"
  shows "(\<forall>k t. main_loop m k s = Some t \<and> unat P \<le> unat (last_scan_tick t - last_scan_tick s) \<longrightarrow>
      beats 1 (the_node (app_ports s)) (the_node (app_ports t))) \<and>
    (\<exists>k t. main_loop m k s = Some t \<and> beats 1 (the_node (app_ports s)) (the_node (app_ports t)))"
proof -
  let ?h = "env (app_ports s)"
  have "nmt_wf (node_nmt (g_canopen_node ?h))"
    using assms(1) by (simp add: ready_def idle_def live_def fw_ok_def node_ok_def node_wf_def)
  then have w: "watched (tx_log (g_can ?h)) P (unat P) ?h" "watched (tx_log (g_can ?h)) P (10 * unat P) ?h"
    using watched_mono [OF watched_start [of ?h]] assms(2) by (auto simp: nmt_wf_def word_le_nat_alt)
  have live: "live (app_ports t)" if "ready t" for t :: "'e app" using that by (simp add: ready_def idle_def)
  have "beats 1 (the_node (app_ports s)) (the_node (app_ports t))"
    if "main_loop m k s = Some t" "unat P \<le> unat (last_scan_tick t - last_scan_tick s)" for k t
    using loop_watched [OF assms(1) that(1)] w(1) that(2) live watched_beats [OF _ _ assms(3)] by fastforce
  moreover obtain k t where "main_loop m k s = Some t" "ready t" "watched (tx_log (g_can ?h)) P 0 (env (app_ports t))"
    using timer_runs_out [OF assms(1), of "unat P"] w(2) by blast
  ultimately show ?thesis using watched_beats [OF _ live assms(3)] by blast
qed

lemma loop_period:
  assumes "ready s" and "main_loop m k s = Some t"
  shows "ready t" "heartbeat_period_ms (node_nmt (g_canopen_node (env (app_ports t)))) =
    heartbeat_period_ms (node_nmt (g_canopen_node (env (app_ports s))))"
  using loop_watched [OF assms] watched_start [of "env (app_ports s)"] by (fastforce simp: watched_def)+

end

section \<open>Property\<close>

text \<open>
  C19: The heartbeat goes on for as long as the firmware runs: after any number of rounds of the main loop
  the node sends a further frame on its heartbeat identifier, at the latest when its scans have covered the
  heartbeat period, and there is always a later round at which that has happened. This holds whatever the
  ports, the CAN bus and the network receive, and also while the master waits for responses.
\<close>

theorem heartbeat_forever:
  assumes "machine_ok m quiet left D" and "reset_ports p" and "length (master_demo_last_regs d) = 2"
    and "store (g_can (env p)) (0x1017, 0) = [l, h]" and "P = be16 h l" and "0 < P"
    and "main_init p = Some q" and "main_loop m n (start_app q d) = Some s"
  shows "(\<forall>k t. main_loop m k s = Some t \<and> unat P \<le> unat (last_scan_tick t - last_scan_tick s) \<longrightarrow>
      beats 1 (the_node (app_ports s)) (the_node (app_ports t))) \<and>
    (\<exists>k t. main_loop m k s = Some t \<and> beats 1 (the_node (app_ports s)) (the_node (app_ports t)))"
proof -
  have env: "machine_env m quiet left D" by unfold_locales (rule assms(1))
  have "ready (start_app q d)"
    using main_init_idle [OF assms(2)] assms(3,7) by (auto simp: ready_def start_app_def)
  moreover have "heartbeat_period_ms (node_nmt (g_canopen_node (env q))) = P"
    using main_init_idle [OF assms(2)] assms(4,5,7) by auto
  ultimately have
    "ready s" "heartbeat_period_ms (node_nmt (g_canopen_node (env (app_ports s)))) = P"
    using machine_env.loop_period [OF env _ assms(8)] by (simp_all add: start_app_def)
  from machine_env.beats_on [OF env this assms(6)] show ?thesis .
qed

lemma heartbeat_forever_witness:
  "\<exists>node q k t. main_init (boot_ports node []) = Some q \<and> main_loop calm_machine k (start_app q boot_demo) = Some t \<and>
     beats 1 (the_node q) (the_node (app_ports t))"
proof -
  fix node
  obtain q :: "(can_rx_header \<times> u8 list) list ports" where q: "main_init (boot_ports node []) = Some q"
    using main_init_idle [OF boot_reset] by metis
  have "store start_can (0x1017, 0) = [0xE8, 0x03]"
    by (simp add: start_can_def boot_store_def Board_vars_def le16_def hi8_def lo8_def)
  then have s: "store (g_can (env (boot_ports node []))) (0x1017, 0) = [0xE8, 0x03]" by (simp add: boot_ports_def reset_serial_def)
  have "length (master_demo_last_regs boot_demo) = 2" "main_loop calm_machine 0 (start_app q boot_demo) = Some (start_app q boot_demo)"
    by (simp_all add: boot_demo_def)
  moreover have "1000 = be16 0x03 0xE8" by (simp add: be16_def)
  ultimately show ?thesis
    using heartbeat_forever [OF calm_ok boot_reset _ s, of boot_demo 1000 q 0] q by (fastforce simp: start_app_def)
qed

end
