(* ===== verification/Board_Setup.thy ===== *)
theory Board_Setup
  imports Framer Can_Driver "HOL-Library.Multiset"
begin

text \<open>
  What the firmware sets up on the chip: the pins and clocks of \<open>inc/board_config.h\<close>, and what the
  initialisation functions ask of the vendor HAL, as lists of \<open>setup_call\<close> entries, one per call or
  register write, in order and with the structure that is passed. The variables the same functions
  set are in the theories of their components. \<open>chip_after\<close> replays the calls as the reference manual has them: a
  call configures the pins in its mask, unless the clock of the port is off.
\<close>

section \<open>Data\<close>

datatype gpio_bank = GPIOA | GPIOB | GPIOC | GPIOD | GPIOE

datatype rcc_clock =
    GPIO_CLK gpio_bank | ADC1_CLK | DAC_CLK | USART1_CLK | USART2_CLK | CAN1_CLK | ETH_CLK | SYSCFG_CLK | PWR_CLK

datatype gpio_mode = GPIO_MODE_INPUT | GPIO_MODE_OUTPUT_PP | GPIO_MODE_AF_PP | GPIO_MODE_ANALOG
datatype gpio_pull = GPIO_NOPULL | GPIO_PULLUP
datatype gpio_speed =
    GPIO_SPEED_FREQ_LOW | GPIO_SPEED_FREQ_MEDIUM | GPIO_SPEED_FREQ_HIGH | GPIO_SPEED_FREQ_VERY_HIGH | GPIO_SPEED_HIGH
datatype gpio_af = GPIO_AF0 | GPIO_AF7_USART1 | GPIO_AF7_USART2 | GPIO_AF9_CAN1 | GPIO_AF11_ETH

record gpio_init =
  Pin :: u32
  Mode :: gpio_mode
  Pull :: gpio_pull
  Speed :: gpio_speed
  Alternate :: gpio_af

text \<open>The zeroed structure every function starts from.\<close>

definition gpio_zero :: gpio_init where
  "gpio_zero = \<lparr>Pin = 0, Mode = GPIO_MODE_INPUT, Pull = GPIO_NOPULL, Speed = GPIO_SPEED_FREQ_LOW, Alternate = GPIO_AF0\<rparr>"

datatype uart_parity = UART_PARITY_NONE | UART_PARITY_EVEN | UART_PARITY_ODD

record uart_init =
  BaudRate :: u32
  WordLength :: nat
  StopBits :: nat
  Parity :: uart_parity
  TxRx :: bool
  HwFlowCtl :: bool
  OverSampling :: nat

datatype adc_eoc = ADC_EOC_SEQ_CONV | ADC_EOC_SINGLE_CONV

record adc_init =
  ClockPrescaler :: nat
  Resolution :: nat
  ScanConvMode :: bool
  ContinuousConvMode :: bool
  DiscontinuousConvMode :: bool
  ExternalTrigger :: bool
  DataAlignRight :: bool
  NbrOfConversion :: nat
  DMAContinuousRequests :: bool
  EOCSelection :: adc_eoc

record eth_init =
  MACAddr :: "u8 list"
  MediaRMII :: bool
  RxBuffLen :: nat

record osc_init =
  HSE_On :: bool
  PLL_On :: bool
  PLL_From_HSE :: bool
  PLLM :: nat
  PLLN :: nat
  PLLP :: nat
  PLLQ :: nat

record clk_init =
  SYSCLK_From_PLL :: bool
  AHBCLKDivider :: nat
  APB1CLKDivider :: nat
  APB2CLKDivider :: nat

datatype usart_dev = USART1_dev | USART2_dev
datatype irqn = USART1_IRQn | USART2_IRQn | ETH_IRQn

datatype setup_call =
    CLK_ENABLE rcc_clock
  | HAL_GPIO_Init gpio_bank gpio_init
  | BSRR_Write gpio_bank u32
  | Relays_Set_All u8
  | Analog_Output_Write_Raw u8 u16
  | HAL_UART_Init usart_dev uart_init
  | Framer_Init usart_dev nat u32
  | UART_ENABLE_RXNE usart_dev
  | HAL_NVIC_SetPriority irqn nat nat
  | HAL_NVIC_EnableIRQ irqn
  | HAL_ADC_Init adc_init
  | HAL_DAC_Init
  | HAL_DAC_ConfigChannel nat bool bool
  | HAL_ETH_Init eth_init
  | HAL_ETH_Start
  | PWR_VOLTAGESCALING_CONFIG nat
  | HAL_RCC_OscConfig osc_init
  | HAL_RCC_ClockConfig clk_init nat
  | HAL_Init
  | SysTick_Config u32

definition GPIO_PIN :: "nat \<Rightarrow> u32" where
  "GPIO_PIN n = push_bit n 1"

section \<open>Constants of the board\<close>

definition HSE_VALUE :: nat where "HSE_VALUE = 8000000"
definition SYSTEM_CLOCK :: nat where "SYSTEM_CLOCK = 168000000"
definition APB1_CLOCK :: nat where "APB1_CLOCK = 42000000"
definition APB2_CLOCK :: nat where "APB2_CLOCK = 84000000"

text \<open>
  The pins the header gives to each function, channel by channel. Two drivers use a mask constant
  instead of the pins.
\<close>

definition DI_pins :: "(gpio_bank \<times> nat) list" where
  "DI_pins = map (Pair GPIOE) [0, 1, 2, 3, 4, 5, 6, 7]"

definition DI_PIN_MASK :: u32 where "DI_PIN_MASK = 0x00FF"

definition DO_pins :: "(gpio_bank \<times> nat) list" where
  "DO_pins = map (Pair GPIOB) [0, 1, 5, 6, 8, 9, 10, 7]"

definition DO_PIN_MASK :: u32 where "DO_PIN_MASK = 0x07E3"

definition RELAY_pins :: "(gpio_bank \<times> nat) list" where
  "RELAY_pins = map (Pair GPIOC) [8, 9, 10, 11]"

definition RELAY_LED_pins :: "(gpio_bank \<times> nat) list" where
  "RELAY_LED_pins = map (Pair GPIOD) [0, 1, 2, 3]"

text \<open>Transmit, receive and, on the half-duplex line, driver enable.\<close>

definition RS485_pins :: "(gpio_bank \<times> nat) list" where
  "RS485_pins = [(GPIOD, 5), (GPIOD, 6), (GPIOD, 7)]"

definition RS232_pins :: "(gpio_bank \<times> nat) list" where
  "RS232_pins = [(GPIOA, 9), (GPIOA, 10)]"

definition CAN_pins :: "(gpio_bank \<times> nat) list" where
  "CAN_pins = [(GPIOA, 12), (GPIOA, 11)]"

text \<open>Port and pin of each analog input with its ADC channel, and of each analog output.\<close>

definition ai_config :: "(gpio_bank \<times> nat \<times> nat) list" where
  "ai_config = [(GPIOA, 0, 0), (GPIOC, 0, 10), (GPIOC, 2, 12), (GPIOC, 3, 13)]"

definition ao_config :: "(gpio_bank \<times> nat) list" where
  "ao_config = [(GPIOA, 4), (GPIOA, 5)]"

text \<open>Reference clock, MDIO, CRS/DV, MDC, RXD0, RXD1, TX enable, TXD0 and TXD1 of the RMII interface.\<close>

definition eth_config :: "(gpio_bank \<times> nat) list" where
  "eth_config = [(GPIOA, 1), (GPIOA, 2), (GPIOA, 7), (GPIOC, 1), (GPIOC, 4), (GPIOC, 5), (GPIOB, 11), (GPIOB, 12), (GPIOB, 13)]"

definition ETH_RX_DESC_COUNT :: nat where "ETH_RX_DESC_COUNT = 4"
definition ETH_TX_DESC_COUNT :: nat where "ETH_TX_DESC_COUNT = 4"
definition MAC_ADDR :: "u8 list" where "MAC_ADDR = [0x00, 0x80, 0xE1, 0x00, 0x00, 0x01]"

section \<open>The calls of the initialisation functions\<close>

definition digital_inputs_init_calls :: "setup_call list" where
  "digital_inputs_init_calls = [CLK_ENABLE (GPIO_CLK GPIOE),
     HAL_GPIO_Init GPIOE (gpio_zero\<lparr>Pin := DI_PIN_MASK, Mode := GPIO_MODE_INPUT, Pull := GPIO_PULLUP, Speed := GPIO_SPEED_FREQ_LOW\<rparr>)]"

definition digital_outputs_init_calls :: "setup_call list" where
  "digital_outputs_init_calls = [CLK_ENABLE (GPIO_CLK GPIOB),
     HAL_GPIO_Init GPIOB (gpio_zero\<lparr>Pin := DO_PIN_MASK, Mode := GPIO_MODE_OUTPUT_PP, Pull := GPIO_NOPULL, Speed := GPIO_SPEED_FREQ_LOW\<rparr>),
     BSRR_Write GPIOB (push_bit 16 DO_PIN_MASK)]"

definition relays_init_calls :: "setup_call list" where
  "relays_init_calls =
     (let gpio = gpio_zero\<lparr>Pin := GPIO_PIN 8 OR GPIO_PIN 9 OR GPIO_PIN 10 OR GPIO_PIN 11,
            Mode := GPIO_MODE_OUTPUT_PP, Pull := GPIO_NOPULL, Speed := GPIO_SPEED_FREQ_LOW\<rparr>
      in [CLK_ENABLE (GPIO_CLK GPIOC), HAL_GPIO_Init GPIOC gpio, CLK_ENABLE (GPIO_CLK GPIOD),
          HAL_GPIO_Init GPIOD (gpio\<lparr>Pin := GPIO_PIN 0 OR GPIO_PIN 1 OR GPIO_PIN 2 OR GPIO_PIN 3,
            Mode := GPIO_MODE_OUTPUT_PP, Pull := GPIO_NOPULL, Speed := GPIO_SPEED_FREQ_LOW\<rparr>),
          Relays_Set_All 0x00])"

definition analog_pins :: "(gpio_bank \<times> nat) list \<Rightarrow> setup_call list" where
  "analog_pins pins =
     (let gpio = gpio_zero\<lparr>Mode := GPIO_MODE_ANALOG, Pull := GPIO_NOPULL, Speed := GPIO_SPEED_FREQ_LOW\<rparr>
      in map (\<lambda>(port, pin). HAL_GPIO_Init port (gpio\<lparr>Pin := GPIO_PIN pin\<rparr>)) pins)"

definition ai_adc :: adc_init where
  "ai_adc = \<lparr>ClockPrescaler = 4, Resolution = 12, ScanConvMode = True, ContinuousConvMode = False,
     DiscontinuousConvMode = False, ExternalTrigger = False, DataAlignRight = True, NbrOfConversion = 4,
     DMAContinuousRequests = False, EOCSelection = ADC_EOC_SEQ_CONV\<rparr>"

definition analog_inputs_init_calls :: "setup_call list" where
  "analog_inputs_init_calls =
     [CLK_ENABLE (GPIO_CLK GPIOA), CLK_ENABLE (GPIO_CLK GPIOC), CLK_ENABLE ADC1_CLK] @
     analog_pins (map (\<lambda>(port, pin, _). (port, pin)) ai_config) @ [HAL_ADC_Init ai_adc]"

definition analog_outputs_init_calls :: "setup_call list" where
  "analog_outputs_init_calls =
     [CLK_ENABLE (GPIO_CLK GPIOA), CLK_ENABLE DAC_CLK] @ analog_pins ao_config @
     [HAL_DAC_Init, HAL_DAC_ConfigChannel 0 False True, HAL_DAC_ConfigChannel 1 False True,
      Analog_Output_Write_Raw 0 0, Analog_Output_Write_Raw 1 0]"

definition uart_8N1 :: "u32 \<Rightarrow> uart_init" where
  "uart_8N1 baudrate = \<lparr>BaudRate = baudrate, WordLength = 8, StopBits = 1, Parity = UART_PARITY_NONE,
     TxRx = True, HwFlowCtl = False, OverSampling = 16\<rparr>"

definition rs485_init_calls :: "u32 \<Rightarrow> setup_call list" where
  "rs485_init_calls baudrate =
     (let gpio = gpio_zero\<lparr>Pin := GPIO_PIN 5 OR GPIO_PIN 6, Mode := GPIO_MODE_AF_PP, Pull := GPIO_PULLUP,
            Speed := GPIO_SPEED_FREQ_HIGH, Alternate := GPIO_AF7_USART2\<rparr>
      in [CLK_ENABLE (GPIO_CLK GPIOD), CLK_ENABLE USART2_CLK, HAL_GPIO_Init GPIOD gpio,
          HAL_GPIO_Init GPIOD (gpio\<lparr>Pin := GPIO_PIN 7, Mode := GPIO_MODE_OUTPUT_PP, Pull := GPIO_NOPULL, Speed := GPIO_SPEED_FREQ_MEDIUM\<rparr>),
          BSRR_Write GPIOD (push_bit 16 (GPIO_PIN 7)),
          HAL_UART_Init USART2_dev (uart_8N1 baudrate), Framer_Init USART2_dev 256 baudrate, UART_ENABLE_RXNE USART2_dev,
          HAL_NVIC_SetPriority USART2_IRQn 1 0, HAL_NVIC_EnableIRQ USART2_IRQn])"

definition rs232_init_calls :: "u32 \<Rightarrow> setup_call list" where
  "rs232_init_calls baudrate =
     [CLK_ENABLE (GPIO_CLK GPIOA), CLK_ENABLE USART1_CLK,
      HAL_GPIO_Init GPIOA (gpio_zero\<lparr>Pin := GPIO_PIN 9 OR GPIO_PIN 10, Mode := GPIO_MODE_AF_PP, Pull := GPIO_PULLUP,
        Speed := GPIO_SPEED_FREQ_HIGH, Alternate := GPIO_AF7_USART1\<rparr>),
      HAL_UART_Init USART1_dev (uart_8N1 baudrate), Framer_Init USART1_dev 256 baudrate, UART_ENABLE_RXNE USART1_dev,
      HAL_NVIC_SetPriority USART1_IRQn 1 0, HAL_NVIC_EnableIRQ USART1_IRQn]"

text \<open>Run by \<open>HAL_ETH_Init\<close>.\<close>

definition HAL_ETH_MspInit_calls :: "setup_call list" where
  "HAL_ETH_MspInit_calls =
     (let gpio = gpio_zero\<lparr>Speed := GPIO_SPEED_HIGH, Alternate := GPIO_AF11_ETH\<rparr>
      in [CLK_ENABLE (GPIO_CLK GPIOA), CLK_ENABLE (GPIO_CLK GPIOB), CLK_ENABLE (GPIO_CLK GPIOC), CLK_ENABLE ETH_CLK, CLK_ENABLE SYSCFG_CLK] @
         map (\<lambda>(port, pin). HAL_GPIO_Init port (gpio\<lparr>Pin := GPIO_PIN pin, Mode := GPIO_MODE_AF_PP, Pull := GPIO_NOPULL\<rparr>)) eth_config @
         [HAL_NVIC_SetPriority ETH_IRQn 0 0, HAL_NVIC_EnableIRQ ETH_IRQn])"

definition ethernet_init_calls :: "setup_call list" where
  "ethernet_init_calls = HAL_ETH_Init \<lparr>MACAddr = MAC_ADDR, MediaRMII = True, RxBuffLen = 1524\<rparr> # HAL_ETH_MspInit_calls @ [HAL_ETH_Start]"

text \<open>In the variant with the CAN hardware; the controller itself is in \<open>Can_Driver\<close>.\<close>

definition can_driver_init_calls :: "setup_call list" where
  "can_driver_init_calls =
     (let gpio_init = gpio_zero\<lparr>Pin := GPIO_PIN 12, Mode := GPIO_MODE_AF_PP, Pull := GPIO_PULLUP,
            Speed := GPIO_SPEED_FREQ_VERY_HIGH, Alternate := GPIO_AF9_CAN1\<rparr>
      in [CLK_ENABLE CAN1_CLK, CLK_ENABLE (GPIO_CLK GPIOA), HAL_GPIO_Init GPIOA gpio_init,
          HAL_GPIO_Init GPIOA (gpio_init\<lparr>Pin := GPIO_PIN 11\<rparr>)])"

definition pll_config :: osc_init where
  "pll_config = \<lparr>HSE_On = True, PLL_On = True, PLL_From_HSE = True, PLLM = 8, PLLN = 336, PLLP = 2, PLLQ = 7\<rparr>"

definition bus_config :: clk_init where
  "bus_config = \<lparr>SYSCLK_From_PLL = True, AHBCLKDivider = 1, APB1CLKDivider = 4, APB2CLKDivider = 2\<rparr>"

definition system_clock_config_calls :: "setup_call list" where
  "system_clock_config_calls = [CLK_ENABLE PWR_CLK, PWR_VOLTAGESCALING_CONFIG 1, HAL_RCC_OscConfig pll_config, HAL_RCC_ClockConfig bus_config 5]"

text \<open>\<open>main\<close> up to the initialisation of the protocol stacks; \<open>SystemCoreClock\<close> is a variable of the vendor.\<close>

definition main_calls :: "u32 \<Rightarrow> setup_call list" where
  "main_calls SystemCoreClock =
     [HAL_Init] @ system_clock_config_calls @ [SysTick_Config (SystemCoreClock div 1000)] @
     digital_inputs_init_calls @ digital_outputs_init_calls @ relays_init_calls @
     analog_inputs_init_calls @ analog_outputs_init_calls @ rs485_init_calls 115200 @ rs232_init_calls 115200 @
     ethernet_init_calls @ can_driver_init_calls"

section \<open>What the calls leave on the chip\<close>

type_synonym setting = "gpio_mode \<times> gpio_pull \<times> gpio_speed \<times> gpio_af"

record chip =
  clocked :: "gpio_bank \<Rightarrow> bool"
  pin_setting :: "gpio_bank \<Rightarrow> nat \<Rightarrow> setting option"

fun setup_step :: "setup_call \<Rightarrow> chip \<Rightarrow> chip" where
  "setup_step (CLK_ENABLE (GPIO_CLK b)) h = h\<lparr>clocked := (clocked h)(b := True)\<rparr>"
| "setup_step (HAL_GPIO_Init b g) h =
     (if clocked h b then h\<lparr>pin_setting := (pin_setting h)(b := (\<lambda>i.
        if i < 16 \<and> bit (Pin g) i then Some (Mode g, Pull g, Speed g, Alternate g) else pin_setting h b i))\<rparr>
      else h)"
| "setup_step _ h = h"

definition reset_chip :: chip where
  "reset_chip = \<lparr>clocked = (\<lambda>_. False), pin_setting = (\<lambda>_ _. None)\<rparr>"

definition chip_after :: "setup_call list \<Rightarrow> chip" where
  "chip_after calls = fold setup_step calls reset_chip"

text \<open>The settings a call makes, and whether every port is clocked before its pins are configured.\<close>

fun settings :: "setup_call \<Rightarrow> ((gpio_bank \<times> nat) \<times> setting) list" where
  "settings (HAL_GPIO_Init b g) = map (\<lambda>i. ((b, i), (Mode g, Pull g, Speed g, Alternate g))) (filter (bit (Pin g)) [0..<16])"
| "settings _ = []"

fun clock_first :: "gpio_bank list \<Rightarrow> setup_call list \<Rightarrow> bool" where
  "clock_first on [] = True"
| "clock_first on (c # cs) = (case c of
     CLK_ENABLE (GPIO_CLK b) \<Rightarrow> clock_first (b # on) cs
   | HAL_GPIO_Init b g \<Rightarrow> b \<in> set on \<and> clock_first on cs
   | _ \<Rightarrow> clock_first on cs)"

lemma map_of_settings:
  "map_of (map (\<lambda>i. ((b, i), x)) is) (c, j) = (if c = b \<and> j \<in> set is then Some x else None)"
  by (induction "is") auto

lemma replay:
  assumes "clock_first on calls" and "\<And>b. b \<in> set on \<Longrightarrow> clocked h b" and "distinct (map fst (concat (map settings calls)))"
  shows "pin_setting (fold setup_step calls h) b i =
    (case map_of (concat (map settings calls)) (b, i) of None \<Rightarrow> pin_setting h b i | Some x \<Rightarrow> Some x)"
  using assms
proof (induction calls arbitrary: on h)
  case (Cons c cs)
  show ?case
  proof (cases "(c, h)" rule: setup_step.cases)
    case (1 x h')
    have "pin_setting (fold setup_step cs (setup_step c h)) b i =
        (case map_of (concat (map settings cs)) (b, i) of None \<Rightarrow> pin_setting (setup_step c h) b i | Some x \<Rightarrow> Some x)"
      by (rule Cons.IH [of "x # on"]) (use 1 Cons.prems in \<open>auto split: if_splits\<close>)
    then show ?thesis using 1 by (simp split: option.split)
  next
    case (2 x g h')
    have later: "map_of (concat (map settings cs)) (b, i) = None" if "map_of (settings c) (b, i) = Some y" for y
      using Cons.prems(3) map_of_SomeD [OF that] by (force simp: map_of_eq_None_iff)
    from 2 have "clocked h x" using Cons.prems(1,2) by simp
    have "pin_setting (fold setup_step cs (setup_step c h)) b i =
        (case map_of (concat (map settings cs)) (b, i) of None \<Rightarrow> pin_setting (setup_step c h) b i | Some x \<Rightarrow> Some x)"
      by (rule Cons.IH [of on]) (use 2 Cons.prems in auto)
    moreover have "pin_setting (setup_step c h) b i =
        (case map_of (settings c) (b, i) of None \<Rightarrow> pin_setting h b i | Some x \<Rightarrow> Some x)"
      using 2 \<open>clocked h x\<close> by (auto simp: map_of_settings)
    ultimately show ?thesis using later by (auto simp: map_add_def split: option.splits)
  qed (use Cons.IH [of on h] Cons.prems in auto)
qed simp

text \<open>The pins of the header, and how the driver of each needs them.\<close>

definition output_setting :: setting where
  "output_setting = (GPIO_MODE_OUTPUT_PP, GPIO_NOPULL, GPIO_SPEED_FREQ_LOW, GPIO_AF0)"

definition analog_setting :: setting where
  "analog_setting = (GPIO_MODE_ANALOG, GPIO_NOPULL, GPIO_SPEED_FREQ_LOW, GPIO_AF0)"

definition board_pins :: "((gpio_bank \<times> nat) \<times> setting) list" where
  "board_pins =
     map (\<lambda>p. (p, (GPIO_MODE_INPUT, GPIO_PULLUP, GPIO_SPEED_FREQ_LOW, GPIO_AF0))) DI_pins @
     map (\<lambda>p. (p, output_setting)) (DO_pins @ RELAY_pins @ RELAY_LED_pins) @
     map (\<lambda>p. (p, analog_setting)) (map (\<lambda>(b, i, _). (b, i)) ai_config @ ao_config) @
     map (\<lambda>p. (p, (GPIO_MODE_AF_PP, GPIO_PULLUP, GPIO_SPEED_FREQ_HIGH, GPIO_AF7_USART2))) (take 2 RS485_pins) @
     map (\<lambda>p. (p, (GPIO_MODE_OUTPUT_PP, GPIO_NOPULL, GPIO_SPEED_FREQ_MEDIUM, GPIO_AF7_USART2))) (drop 2 RS485_pins) @
     map (\<lambda>p. (p, (GPIO_MODE_AF_PP, GPIO_PULLUP, GPIO_SPEED_FREQ_HIGH, GPIO_AF7_USART1))) RS232_pins @
     map (\<lambda>p. (p, (GPIO_MODE_AF_PP, GPIO_NOPULL, GPIO_SPEED_HIGH, GPIO_AF11_ETH))) eth_config @
     map (\<lambda>p. (p, (GPIO_MODE_AF_PP, GPIO_PULLUP, GPIO_SPEED_FREQ_VERY_HIGH, GPIO_AF9_CAN1))) CAN_pins"

text \<open>The tick does not touch the pins.\<close>

lemma main_calls_tick:
  "chip_after (main_calls c) = chip_after (main_calls 0)" "map settings (main_calls c) = map settings (main_calls 0)"
  by (simp_all add: main_calls_def chip_after_def)

lemma main_clock_first: "clock_first [] (main_calls 0)"
  by code_simp

lemma main_settings: "mset (concat (map settings (main_calls 0))) = mset board_pins"
  by code_simp

lemma board_pins_distinct: "distinct (map fst board_pins)"
  by code_simp

lemma same_settings:
  "distinct (map fst (concat (map settings (main_calls 0))))" "map_of (concat (map settings (main_calls 0))) = map_of board_pins"
proof -
  have "mset (map fst (concat (map settings (main_calls 0)))) = mset (map fst board_pins)"
    using main_settings by (metis mset_map)
  then show d: "distinct (map fst (concat (map settings (main_calls 0))))"
    using board_pins_distinct mset_eq_imp_distinct_iff by blast
  show "map_of (concat (map settings (main_calls 0))) = map_of board_pins"
    using mset_eq_setD [OF main_settings] map_of_inject_set [OF d board_pins_distinct] by blast
qed

lemma main_pins: "pin_setting (chip_after (main_calls c)) b i = map_of board_pins (b, i)"
  using replay [OF main_clock_first _ same_settings(1), of reset_chip b i] main_calls_tick(1) [of c]
  by (simp add: chip_after_def same_settings(2) reset_chip_def split: option.split)

text \<open>
  The start-up of \<open>main\<close> configures every pin that the header of the board assigns, each by exactly one
  call, with the setting its driver needs, and no other pin; no pin is assigned twice, and no call comes
  before the clock of its port is enabled, where the chip would ignore it.
\<close>

theorem pins_configured:
  "(\<forall>b i. pin_setting (chip_after (main_calls c)) b i = map_of board_pins (b, i)) \<and>
   mset (concat (map settings (main_calls c))) = mset board_pins \<and> distinct (map fst board_pins)"
  using main_pins main_settings board_pins_distinct main_calls_tick(2) [of c] by simp

text \<open>The pins as \<open>Board_IO\<close> numbers them, and the two masks.\<close>

definition bank_of :: "gpio_port \<Rightarrow> gpio_bank" where
  "bank_of p = (case p of DO_PORT \<Rightarrow> GPIOB | RELAY_PORT \<Rightarrow> GPIOC | RELAY_LED_PORT \<Rightarrow> GPIOD)"

lemma bank_pins:
  "map (Pair (bank_of DO_PORT)) (bank_pin_no DO_PORT) = DO_pins"
  "map (Pair (bank_of RELAY_PORT)) (bank_pin_no RELAY_PORT) = RELAY_pins"
  "map (Pair (bank_of RELAY_LED_PORT)) (bank_pin_no RELAY_LED_PORT) = RELAY_LED_pins"
  by code_simp+

lemma masks_cover: "DI_PIN_MASK = foldr (OR) (map ucast di_pins) 0" "DO_PIN_MASK = foldr (OR) (map ucast do_pins) 0"
  by (simp_all add: DI_PIN_MASK_def di_pins_def DO_PIN_MASK_def do_pins_def)

lemma bank_pin_setting:
  assumes "i \<in> set (bank_pin_no p)"
  shows "pin_setting (chip_after (main_calls c)) (bank_of p) i = Some output_setting" "(bank_of p, i) \<notin> set RS485_pins"
proof -
  have "(bank_of p, i) \<in> set (DO_pins @ RELAY_pins @ RELAY_LED_pins)"
    unfolding bank_pins [symmetric] using assms by (cases p) auto
  then have "((bank_of p, i), output_setting) \<in> set board_pins" unfolding board_pins_def by auto
  then show "pin_setting (chip_after (main_calls c)) (bank_of p) i = Some output_setting"
    using board_pins_distinct by (simp add: main_pins)
  have "set (DO_pins @ RELAY_pins @ RELAY_LED_pins) \<inter> set RS485_pins = {}" by code_simp
  then show "(bank_of p, i) \<notin> set RS485_pins" using \<open>(bank_of p, i) \<in> set (DO_pins @ RELAY_pins @ RELAY_LED_pins)\<close> by blast
qed

section \<open>Interrupts\<close>

text \<open>
  A port takes bytes from the moment its interrupt is enabled; by then its line and its framing engine
  have been initialised.
\<close>

definition comes_before :: "setup_call \<Rightarrow> setup_call \<Rightarrow> setup_call list \<Rightarrow> bool" where
  "comes_before x y calls \<longleftrightarrow> x \<in> set (takeWhile (\<lambda>c. c \<noteq> y) calls) \<and> y \<in> set calls"

lemma engine_before_interrupt:
  "comes_before (Framer_Init USART2_dev 256 115200) (HAL_NVIC_EnableIRQ USART2_IRQn) (main_calls c)"
  "comes_before (HAL_UART_Init USART2_dev (uart_8N1 115200)) (UART_ENABLE_RXNE USART2_dev) (main_calls c)"
  "comes_before (Framer_Init USART1_dev 256 115200) (HAL_NVIC_EnableIRQ USART1_IRQn) (main_calls c)"
  "comes_before (HAL_UART_Init USART1_dev (uart_8N1 115200)) (UART_ENABLE_RXNE USART1_dev) (main_calls c)"
  by (simp_all add: comes_before_def main_calls_def system_clock_config_calls_def digital_inputs_init_calls_def
      digital_outputs_init_calls_def relays_init_calls_def analog_inputs_init_calls_def analog_outputs_init_calls_def
      analog_pins_def ai_config_def ao_config_def rs485_init_calls_def rs232_init_calls_def Let_def)

section \<open>The clock tree\<close>

text \<open>The frequencies behind the phase-locked loop and the dividers, from the crystal.\<close>

definition vco :: "nat \<Rightarrow> osc_init \<Rightarrow> nat" where
  "vco hse p = hse div PLLM p * PLLN p"

definition sysclk :: "nat \<Rightarrow> osc_init \<Rightarrow> nat" where
  "sysclk hse p = vco hse p div PLLP p"

definition hclk :: "nat \<Rightarrow> osc_init \<Rightarrow> clk_init \<Rightarrow> nat" where
  "hclk hse p k = sysclk hse p div AHBCLKDivider k"

definition pclk1 :: "nat \<Rightarrow> osc_init \<Rightarrow> clk_init \<Rightarrow> nat" where
  "pclk1 hse p k = hclk hse p k div APB1CLKDivider k"

definition pclk2 :: "nat \<Rightarrow> osc_init \<Rightarrow> clk_init \<Rightarrow> nat" where
  "pclk2 hse p k = hclk hse p k div APB2CLKDivider k"

lemmas clock_defs = vco_def sysclk_def hclk_def pclk1_def pclk2_def pll_config_def bus_config_def HSE_VALUE_def

text \<open>
  The configured clocks are the constants of the header, the loop and the buses stay within the limits of
  the chip (input 1 to 2 MHz, output at most 432 MHz, buses at most 42 and 84 MHz, ADC at most 36 MHz),
  and the divider Q gives the 48 MHz of the USB and random number clocks.
\<close>

lemma clock_tree:
  "sysclk HSE_VALUE pll_config = SYSTEM_CLOCK" "pclk1 HSE_VALUE pll_config bus_config = APB1_CLOCK"
  "pclk2 HSE_VALUE pll_config bus_config = APB2_CLOCK"
  "HSE_VALUE div PLLM pll_config \<in> {1000000..2000000}" "vco HSE_VALUE pll_config \<le> 432000000"
  "vco HSE_VALUE pll_config div PLLQ pll_config = 48000000"
  "pclk2 HSE_VALUE pll_config bus_config div ClockPrescaler ai_adc \<le> 36000000"
  by (simp_all add: clock_defs SYSTEM_CLOCK_def APB1_CLOCK_def APB2_CLOCK_def ai_adc_def)

text \<open>The bit rates of the CAN driver are exact on the bus it is clocked from.\<close>

lemma can_rate_on_apb1:
  assumes "can_bit_timing False baudrate = Some (prescaler, seg1, seg2)"
  shows "prescaler * (1 + seg1 + seg2) * unat baudrate = pclk1 HSE_VALUE pll_config bus_config"
  using can_bit_rate [OF assms] clock_tree(2) by (simp add: APB1_CLOCK_def)

text \<open>
  SysTick counts down from its reload value, one less than the argument, and \<open>systick_clock k\<close> says that
  this is how \<open>main\<close> has set it up and that the counter is in range.
\<close>

definition systick_clock :: "systick \<Rightarrow> bool" where
  "systick_clock k \<longleftrightarrow> LOAD k = of_nat (sysclk HSE_VALUE pll_config) div 1000 - 1 \<and> VAL k \<le> LOAD k \<and> VAL_again k \<le> LOAD k"

lemma systick_load: "systick_clock k \<Longrightarrow> LOAD k = 167999"
  by (simp add: systick_clock_def clock_defs)

theorem timebase_exact:
  assumes "systick_clock k" and "val = (if PENDSTSET k then VAL_again k else VAL k)"
  shows "rtu_time_us f k = 1000 * (ms_tick f + of_bool (PENDSTSET k)) +
      of_nat (unat (LOAD k - val) div (sysclk HSE_VALUE pll_config div 1000000)) \<and>
    unat (LOAD k - val) div (sysclk HSE_VALUE pll_config div 1000000) < 1000"
proof -
  have load: "LOAD k = 167999" using systick_load [OF assms(1)] .
  define w where "w = LOAD k - val"
  have "val \<le> LOAD k" using assms unfolding systick_clock_def by metis
  then have w: "unat w \<le> 167999" by (simp add: w_def load unat_sub word_le_nat_alt)
  have frac: "unat w * 1000 div 168000 = unat w div 168" by simp
  have "unat (w * 1000) = unat w * 1000" using w by (simp add: unat_word_ariths)
  then have "unat ((w * 1000) div 168000) = unat w div 168" by (simp only: unat_div frac) (simp add: frac)
  then have "(w * 1000) div 168000 = of_nat (unat w div 168)"
    using w by (intro unsigned_word_eqI [where 'a = nat]) (simp add: unat_of_nat less_mult_imp_div_less)
  moreover have "sysclk HSE_VALUE pll_config div 1000000 = 168" by (simp add: clock_defs)
  moreover have "unat w div 168 < 1000" using w by simp
  ultimately show ?thesis using assms(2) by (simp add: rtu_time_us_def Let_def w_def load)
qed

section \<open>The serial line\<close>

text \<open>
  Bits of one character: start, data, parity and stop. \<open>modbus_get_timeouts_us\<close> counts 11, which the line
  without parity does not have.
\<close>

definition character_bits :: "uart_init \<Rightarrow> nat" where
  "character_bits u = 1 + WordLength u + (if Parity u = UART_PARITY_NONE then 0 else 1) + StopBits u"

lemma line_is_8N1:
  assumes "HAL_UART_Init u i \<in> set (main_calls c)"
  shows "i = uart_8N1 115200" "Parity i = UART_PARITY_NONE" "character_bits i = 10"
proof -
  show i: "i = uart_8N1 115200"
    using assms by (auto simp: main_calls_def system_clock_config_calls_def digital_inputs_init_calls_def
      digital_outputs_init_calls_def relays_init_calls_def analog_inputs_init_calls_def analog_outputs_init_calls_def
      analog_pins_def ethernet_init_calls_def HAL_ETH_MspInit_calls_def can_driver_init_calls_def
      rs485_init_calls_def rs232_init_calls_def Let_def)
  show "Parity i = UART_PARITY_NONE" "character_bits i = 10" by (simp_all add: i uart_8N1_def character_bits_def)
qed

section \<open>The analog conversions\<close>

text \<open>
  \<open>analog_inputs_scan_all\<close> puts the channel of each input at rank 1 and starts a conversion. The converter
  is the argument \<open>converted\<close>: the channel whose result is in the data register when the poll returns, for a
  configuration and the ranks.
\<close>

definition scan_channels :: "(adc_init \<Rightarrow> nat list \<Rightarrow> nat) \<Rightarrow> adc_init \<Rightarrow> nat list \<Rightarrow> nat list" where
  "scan_channels converted a ranks =
     snd (fold (\<lambda>i (ranks, got).
         let channel = (if i = 0 then 0 else if i = 1 then 10 else if i = 2 then 12 else 13);
             ranks = ranks[0 := channel]
         in (ranks, got @ [converted a ranks])) [0..<4] (ranks, []))"

text \<open>
  With scanning enabled and the end-of-conversion flag at the end of the sequence, the data register holds
  the conversion of the last of the \<open>NbrOfConversion\<close> ranks. The driver asks for four ranks and sets only
  the first; the others are at their reset value, channel 0. So every input shows the first one.
\<close>

lemma inputs_show_channel_0:
  assumes "\<And>a ranks. ScanConvMode a \<Longrightarrow> EOCSelection a = ADC_EOC_SEQ_CONV \<Longrightarrow> converted a ranks = ranks ! (NbrOfConversion a - 1)"
  shows "scan_channels converted ai_adc (replicate 16 0) = [0, 0, 0, 0]"
    and "scan_channels converted (ai_adc\<lparr>NbrOfConversion := 1\<rparr>) (replicate 16 0) = map (\<lambda>(_, _, c). c) ai_config"
  using assms by (simp_all add: scan_channels_def ai_adc_def ai_config_def numeral_eq_Suc)

section \<open>The descriptor rings of the Ethernet port\<close>

text \<open>A buffer and the next descriptor by their numbers; \<open>None\<close> is what \<open>HAL_ETH_Init\<close> left.\<close>

record dma_desc =
  BackupAddr0 :: "nat option"
  DESC3 :: "nat option"

definition eth_rx_ring :: "dma_desc list \<Rightarrow> dma_desc list" where
  "eth_rx_ring ring =
     fold (\<lambda>i r. let r = r[i := (r ! i)\<lparr>BackupAddr0 := Some i\<rparr>]
        in if i < ETH_RX_DESC_COUNT - 1 then r[i := (r ! i)\<lparr>DESC3 := Some (i + 1)\<rparr>] else r) [0..<ETH_RX_DESC_COUNT] ring"

definition eth_tx_ring :: "dma_desc list \<Rightarrow> dma_desc list" where
  "eth_tx_ring ring =
     fold (\<lambda>i r. if i < ETH_TX_DESC_COUNT - 1 then r[i := (r ! i)\<lparr>DESC3 := Some (i + 1)\<rparr>] else r) [0..<ETH_TX_DESC_COUNT] ring"

text \<open>Every receive descriptor has a buffer of its own, and the links lead through all descriptors in order.\<close>

lemma eth_rings:
  assumes "length rx = 4" "length tx = 4"
  shows "map BackupAddr0 (eth_rx_ring rx) = map Some [0..<4]"
    and "map DESC3 (eth_rx_ring rx) = map Some [1..<4] @ [DESC3 (rx ! 3)]"
    and "map DESC3 (eth_tx_ring tx) = map Some [1..<4] @ [DESC3 (tx ! 3)]"
proof -
  obtain a b c d where rx: "rx = [a, b, c, d]" using assms(1) by (auto simp: length_Suc_conv numeral_eq_Suc)
  obtain a' b' c' d' where tx: "tx = [a', b', c', d']" using assms(2) by (auto simp: length_Suc_conv numeral_eq_Suc)
  show "map BackupAddr0 (eth_rx_ring rx) = map Some [0..<4]"
    and "map DESC3 (eth_rx_ring rx) = map Some [1..<4] @ [DESC3 (rx ! 3)]"
    and "map DESC3 (eth_tx_ring tx) = map Some [1..<4] @ [DESC3 (tx ! 3)]"
    by (simp_all add: eth_rx_ring_def eth_tx_ring_def ETH_RX_DESC_COUNT_def ETH_TX_DESC_COUNT_def rx tx upt_rec)
qed

text \<open>The address of the board is one of a single station.\<close>

lemma mac_is_unicast: "length MAC_ADDR = 6" "\<not> bit (hd MAC_ADDR) 0"
  by (simp_all add: MAC_ADDR_def)

end
