(* ===== verification/Generic_Uart.thy ===== *)
theory Generic_Uart
  imports Slave_Rtu Master_Link
begin

text \<open>
  The transport for other boards, \<open>examples/generic_hal_transport/modbus_generic_uart_transport.c\<close>:
  the master's callbacks and the polled slave over byte-wise calls of the UART and the millisecond
  clock. These are the record \<open>uart\<close> of functions over the hardware \<open>'e\<close>; the four loops of the file
  are partial functions, shown to end where the locale \<open>uart_clock\<close> holds. The weak stubs of the
  board drivers are not modelled: the slave works on the drivers of this board.
\<close>

section \<open>State and hardware\<close>

record 'e uart =
  uart_receive :: "u32 \<Rightarrow> 'e \<Rightarrow> u8 option \<times> 'e"
  uart_send :: "u8 list \<Rightarrow> u32 \<Rightarrow> 'e \<Rightarrow> bool \<times> 'e"
  get_tick :: "'e \<Rightarrow> u32 \<times> 'e"

record 'e modbus_generic_uart =
  huart :: 'e
  t15_ms :: u32
  t35_ms :: u32
  rx_buf :: "u8 list"
  rx_len :: u16
  last_rx_ms :: u32

definition modbus_generic_uart_init :: "u32 \<Rightarrow> 'e \<Rightarrow> 'e modbus_generic_uart \<Rightarrow> 'e modbus_generic_uart" where
  "modbus_generic_uart_init baudrate h port =
     (let (t15_us, t35_us) = modbus_rtu_timeouts_us baudrate
      in port\<lparr>huart := h, t15_ms := (t15_us + 999) div 1000, t35_ms := (t35_us + 999) div 1000, rx_len := 0, last_rx_ms := 0\<rparr>)"

section \<open>The master's callbacks\<close>

definition modbus_generic_uart_send ::
    "'e uart \<Rightarrow> u8 list \<Rightarrow> 'e modbus_generic_uart \<Rightarrow> (modbus_status \<times> 'e modbus_generic_uart) option" where
  "modbus_generic_uart_send u adu port =
     (let (ok, h) = uart_send u adu 1000 (huart port)
      in Some (if ok then MODBUS_OK else MODBUS_ERROR, port\<lparr>huart := h\<rparr>))"

text \<open>The receive loop, with \<open>start\<close>, \<open>last_ms\<close> and the bytes stored so far.\<close>

partial_function (option) recv_bytes ::
    "'e uart \<Rightarrow> u32 \<Rightarrow> u32 \<Rightarrow> u32 \<Rightarrow> u32 \<Rightarrow> nat \<Rightarrow> u32 \<Rightarrow> u8 list \<Rightarrow> 'e \<Rightarrow> (u8 list \<times> 'e) option" where
  "recv_bytes u t15 t35 start timeout_ms max_len last_ms adu h =
     (case get_tick u h of (now, h) \<Rightarrow>
      if now - start < timeout_ms then
        (case uart_receive u 1 h of
           (Some b, h) \<Rightarrow>
             (case get_tick u h of (now, h) \<Rightarrow>
              let adu = (if length adu > 0 \<and> now - last_ms > t15 then [] else adu);
                  adu = (if length adu < max_len then adu @ [b] else adu)
              in recv_bytes u t15 t35 start timeout_ms max_len now adu h)
         | (None, h) \<Rightarrow>
             if length adu > 0 then
               (case get_tick u h of (now, h) \<Rightarrow>
                if now - last_ms \<ge> t35 then Some (adu, h)
                else recv_bytes u t15 t35 start timeout_ms max_len last_ms adu h)
             else recv_bytes u t15 t35 start timeout_ms max_len last_ms adu h)
      else Some (adu, h))"

definition modbus_generic_uart_recv ::
    "'e uart \<Rightarrow> nat \<Rightarrow> u32 \<Rightarrow> 'e modbus_generic_uart \<Rightarrow> (modbus_status \<times> u8 list \<times> 'e modbus_generic_uart) option" where
  "modbus_generic_uart_recv u max_len timeout_ms port =
     (let (start, h) = get_tick u (huart port) in do {
        (adu, h) \<leftarrow> recv_bytes u (t15_ms port) (t35_ms port) start timeout_ms max_len start [] h;
        let port = port\<lparr>huart := h\<rparr>;
        Some (if length adu = 0 then (MODBUS_TIMEOUT, [], port) else (MODBUS_OK, adu, port))
      })"

partial_function (option) wait_ticks :: "'e uart \<Rightarrow> u32 \<Rightarrow> u32 \<Rightarrow> 'e \<Rightarrow> 'e option" where
  "wait_ticks u start t35 h =
     (case get_tick u h of (now, h) \<Rightarrow> if now - start < t35 then wait_ticks u start t35 h else Some h)"

definition modbus_generic_uart_delay_t35 :: "'e uart \<Rightarrow> 'e modbus_generic_uart \<Rightarrow> 'e modbus_generic_uart option" where
  "modbus_generic_uart_delay_t35 u port =
     (let (start, h) = get_tick u (huart port) in do {
        h \<leftarrow> wait_ticks u start (t35_ms port) h;
        Some (port\<lparr>huart := h\<rparr>)
      })"

partial_function (option) drain :: "'e uart \<Rightarrow> 'e \<Rightarrow> 'e option" where
  "drain u h = (case uart_receive u 0 h of (Some _, h) \<Rightarrow> drain u h | (None, h) \<Rightarrow> Some h)"

definition modbus_generic_uart_flush_rx :: "'e uart \<Rightarrow> 'e modbus_generic_uart \<Rightarrow> 'e modbus_generic_uart option" where
  "modbus_generic_uart_flush_rx u port = do { h \<leftarrow> drain u (huart port); Some (port\<lparr>huart := h\<rparr>) }"

definition generic_transport :: "'e uart \<Rightarrow> 'e modbus_generic_uart transport" where
  "generic_transport u = \<lparr>t_send = modbus_generic_uart_send u, t_recv = modbus_generic_uart_recv u,
     t_delay_t35 = modbus_generic_uart_delay_t35 u, t_flush_rx = modbus_generic_uart_flush_rx u, t_end = None\<rparr>"

section \<open>The polled slave\<close>

text \<open>Taking in one byte, and answering the frame that silence has closed.\<close>

definition poll_byte :: "u8 \<Rightarrow> u32 \<Rightarrow> 'e modbus_generic_uart \<Rightarrow> 'e modbus_generic_uart option" where
  "poll_byte b now port = do {
     let port = (if rx_len port > 0 \<and> now - last_rx_ms port > t15_ms port then port\<lparr>rx_len := 0\<rparr> else port);
     port \<leftarrow> (if rx_len port < 256 then do {
         buf \<leftarrow> wr (rx_buf port) (unat (rx_len port)) b;
         Some (port\<lparr>rx_buf := buf, rx_len := rx_len port + 1\<rparr>)
       } else Some port);
     Some (port\<lparr>last_rx_ms := now\<rparr>)
   }"

definition poll_frame ::
    "modbus_sync_hooks \<Rightarrow> 'e uart \<Rightarrow> slave \<times> 'e modbus_generic_uart \<Rightarrow> (slave \<times> 'e modbus_generic_uart) option" where
  "poll_frame hk u = (\<lambda>(s, port). do {
     rx \<leftarrow> rd_span (rx_buf port) 0 (unat (rx_len port));
     (_, tx_buf, s) \<leftarrow> modbus_rtu_process hk rx s;
     let port = port\<lparr>rx_len := 0\<rparr>;
     if length tx_buf > 0 then do {
       port \<leftarrow> modbus_generic_uart_delay_t35 u port;
       Some (s, port\<lparr>huart := snd (uart_send u tx_buf 100 (huart port))\<rparr>)
     } else Some (s, port)
   })"

definition modbus_generic_uart_slave_poll ::
    "modbus_sync_hooks \<Rightarrow> 'e uart \<Rightarrow> slave \<times> 'e modbus_generic_uart \<Rightarrow> (slave \<times> 'e modbus_generic_uart) option" where
  "modbus_generic_uart_slave_poll hk u = (\<lambda>(s, port).
     case uart_receive u 0 (huart port) of
       (Some b, h) \<Rightarrow> (case get_tick u h of (now, h) \<Rightarrow> do {
         port \<leftarrow> poll_byte b now (port\<lparr>huart := h\<rparr>);
         Some (s, port)
       })
     | (None, h) \<Rightarrow>
         if rx_len port > 0 then
           (case get_tick u h of (now, h) \<Rightarrow>
            if now - last_rx_ms port \<ge> t35_ms port then poll_frame hk u (s, port\<lparr>huart := h\<rparr>)
            else Some (s, port\<lparr>huart := h\<rparr>))
         else Some (s, port\<lparr>huart := h\<rparr>))"

primrec slave_polls ::
    "modbus_sync_hooks \<Rightarrow> 'e uart \<Rightarrow> nat \<Rightarrow> slave \<times> 'e modbus_generic_uart \<Rightarrow> (slave \<times> 'e modbus_generic_uart) option" where
  "slave_polls hk u 0 s = Some s"
| "slave_polls hk u (Suc n) s = do { s \<leftarrow> modbus_generic_uart_slave_poll hk u s; slave_polls hk u n s }"

section \<open>The loops end\<close>

definition generic_wf :: "nat \<Rightarrow> 'e modbus_generic_uart \<Rightarrow> bool" where
  "generic_wf D port \<longleftrightarrow> length (rx_buf port) = 256 \<and> rx_len port \<le> 256 \<and> unat (t35_ms port) + D < 2 ^ 32"

text \<open>
  A millisecond clock that goes on: a call takes at most \<open>D\<close> milliseconds, \<open>quiet\<close> bounds the readings
  that still show the present one, and \<open>left\<close> what a receiver that does not wait can still fetch.
\<close>

locale uart_clock =
  fixes u :: "'e uart" and clock :: "'e \<Rightarrow> u32" and quiet left :: "'e \<Rightarrow> nat" and D :: nat
  assumes tick: "get_tick u h = (now, h') \<Longrightarrow>
      now = clock h \<and> (\<exists>n \<le> D. clock h' = clock h + of_nat n \<and> (n = 0 \<longrightarrow> quiet h' < quiet h))"
    and receive: "uart_receive u w h = (b, h') \<Longrightarrow>
      \<exists>n \<le> D. clock h' = clock h + of_nat n \<and> (n = 0 \<longrightarrow> quiet h' \<le> quiet h)"
    and drains: "uart_receive u 0 h = (Some v, h') \<Longrightarrow> left h' < left h"
begin

definition rounds :: "u32 \<Rightarrow> u32 \<Rightarrow> ('e \<times> 'e) set" where
  "rounds start tmo =
     inv_image (less_than <*lex*> less_than) (\<lambda>h. (unat tmo - unat (clock h - start), quiet h))"

lemma wf_rounds: "wf (rounds start tmo)"
  unfolding rounds_def by (intro wf_inv_image wf_lex_prod wf_less_than)

text \<open>A round of a loop that is still within its time makes progress.\<close>

lemma round_goes_on:
  assumes "clock h - start < tmo" and "clock h' = clock h + of_nat n" and "n = 0 \<longrightarrow> quiet h' < quiet h"
    and "unat tmo + n < 2 ^ 32"
  shows "(h', h) \<in> rounds start tmo"
proof -
  have "unat (clock h - start) < unat tmo" using assms(1) by (simp add: word_less_nat_alt)
  with elapsed_add [of "clock h" start n] assms show ?thesis by (cases "n = 0") (auto simp: rounds_def)
qed

lemma wait_ends: "unat t35 + D < 2 ^ 32 \<Longrightarrow> \<exists>h'. wait_ticks u start t35 h = Some h'"
proof (induction h rule: wf_induct_rule [OF wf_rounds [of start t35], case_names less])
  case (less h)
  obtain now h1 where g: "get_tick u h = (now, h1)" by fastforce
  from tick [OF this] obtain n where n: "now = clock h" "n \<le> D" "clock h1 = clock h + of_nat n" "n = 0 \<longrightarrow> quiet h1 < quiet h" by blast
  show ?case
  proof (cases "now - start < t35")
    case True
    with n less.prems have "(h1, h) \<in> rounds start t35" by (intro round_goes_on [of h start t35 h1 n]) auto
    from less.IH [OF this less.prems] g True show ?thesis by (subst wait_ticks.simps) simp
  qed (use g in \<open>subst wait_ticks.simps, simp\<close>)
qed

lemma recv_bytes_ends:
  assumes "unat tmo + 3 * D < 2 ^ 32" and "length adu \<le> m"
  shows "\<exists>adu' h'. recv_bytes u t15 t35 start tmo m last_ms adu h = Some (adu', h') \<and> length adu' \<le> m"
  using assms(2)
proof (induction h arbitrary: last_ms adu rule: wf_induct_rule [OF wf_rounds [of start tmo], case_names less])
  case (less h)
  obtain now h1 where g: "get_tick u h = (now, h1)" by fastforce
  from tick [OF this] obtain n where n: "now = clock h" "n \<le> D" "clock h1 = clock h + of_nat n" "n = 0 \<longrightarrow> quiet h1 < quiet h" by blast
  obtain b h2 where r: "uart_receive u 1 h1 = (b, h2)" by fastforce
  from receive [OF this] obtain k where k: "k \<le> D" "clock h2 = clock h1 + of_nat k" "k = 0 \<longrightarrow> quiet h2 \<le> quiet h1" by blast
  obtain now' h3 where g3: "get_tick u h2 = (now', h3)" by fastforce
  from tick [OF this] obtain j where j: "j \<le> D" "clock h3 = clock h2 + of_nat j" "j = 0 \<longrightarrow> quiet h3 < quiet h2" by blast
  show ?case
  proof (cases "now - start < tmo")
    case True
    have "(h2, h) \<in> rounds start tmo"
      using True n k assms(1) by (intro round_goes_on [of h start tmo h2 "n + k"]) auto
    moreover have "(h3, h) \<in> rounds start tmo"
      using True n k j assms(1) by (intro round_goes_on [of h start tmo h3 "n + k + j"]) auto
    ultimately have IH: "length x \<le> m \<Longrightarrow> \<exists>adu' h'. recv_bytes u t15 t35 start tmo m l x h2 = Some (adu', h') \<and> length adu' \<le> m"
      "length x \<le> m \<Longrightarrow> \<exists>adu' h'. recv_bytes u t15 t35 start tmo m l x h3 = Some (adu', h') \<and> length adu' \<le> m" for l x
      using less.IH by blast+
    show ?thesis
    proof (cases b)
      case None
      with True g r g3 less.prems IH show ?thesis by (subst recv_bytes.simps) auto
    next
      case (Some v)
      define x where "x = (if length adu > 0 \<and> now' - last_ms > t15 then [] else adu)"
      have "recv_bytes u t15 t35 start tmo m last_ms adu h =
          recv_bytes u t15 t35 start tmo m now' (if length x < m then x @ [v] else x) h3"
        using True g r g3 Some by (subst recv_bytes.simps) (simp add: x_def Let_def)
      moreover have "length (if length x < m then x @ [v] else x) \<le> m" using less.prems by (simp add: x_def)
      ultimately show ?thesis using IH(2) by metis
    qed
  qed (use g less.prems in \<open>subst recv_bytes.simps, simp\<close>)
qed

lemma drain_ends: "\<exists>h'. drain u h = Some h'"
proof (induction h rule: measure_induct_rule [of left])
  case (less h)
  then show ?case by (subst drain.simps) (auto split: prod.split option.split dest: drains)
qed

lemma delay_total:
  "unat (t35_ms port) + D < 2 ^ 32 \<Longrightarrow> \<exists>h. modbus_generic_uart_delay_t35 u port = Some (port\<lparr>huart := h\<rparr>)"
  using wait_ends [of "t35_ms port" "fst (get_tick u (huart port))" "snd (get_tick u (huart port))"]
  by (auto simp: modbus_generic_uart_delay_t35_def split: prod.split)

lemma flush_total: "\<exists>h. modbus_generic_uart_flush_rx u port = Some (port\<lparr>huart := h\<rparr>)"
  using drain_ends [of "huart port"] by (auto simp: modbus_generic_uart_flush_rx_def)

lemma recv_total:
  assumes "unat tmo + 3 * D < 2 ^ 32"
  shows "\<exists>st adu h. modbus_generic_uart_recv u m tmo port = Some (st, adu, port\<lparr>huart := h\<rparr>) \<and> length adu \<le> m"
proof -
  obtain start h where g: "get_tick u (huart port) = (start, h)" by fastforce
  from recv_bytes_ends [OF assms, of "[]" m] obtain adu h' where
    "recv_bytes u (t15_ms port) (t35_ms port) start tmo m start [] h = Some (adu, h')" "length adu \<le> m" by force
  with g show ?thesis by (auto simp: modbus_generic_uart_recv_def Let_def)
qed

text \<open>A transaction over this transport ends, and only the hardware has changed.\<close>

lemma generic_transaction_ends:
  assumes "unat tmo + 3 * D < 2 ^ 32" and "unat (t35_ms port) + D < 2 ^ 32"
  shows "\<exists>r c h. modbus_master_transaction (Some (generic_transport u)) a req m tmo port = Some (r, c, port\<lparr>huart := h\<rparr>)"
proof -
  define P where "P x \<longleftrightarrow> (\<exists>h. x = port\<lparr>huart := h\<rparr>)" for x
  have "P port" unfolding P_def by (rule exI [of _ "huart port"]) simp
  have "\<exists>r c w'. modbus_master_transaction (Some (generic_transport u)) a req m tmo port = Some (r, c, w') \<and> P w'"
  proof (rule transaction_total [where P = P])
    obtain h where h: "modbus_generic_uart_flush_rx u port = Some (port\<lparr>huart := h\<rparr>)" using flush_total by blast
    obtain k where k: "modbus_generic_uart_delay_t35 u (port\<lparr>huart := h\<rparr>) = Some (port\<lparr>huart := k\<rparr>)"
      using delay_total [of "port\<lparr>huart := h\<rparr>"] assms(2) by auto
    show "\<exists>st w'. request_sent (generic_transport u) a req port = Some (st, w') \<and> P w'"
      using h k by (auto simp: request_sent_def generic_transport_def modbus_generic_uart_send_def P_def split: prod.split)
    show "\<exists>st adu w'. t_recv (generic_transport u) 256 tmo w = Some (st, adu, w') \<and> P w'" if "P w" for w
      using that recv_total [OF assms(1), of 256 w] by (auto simp: generic_transport_def P_def)
  qed (use \<open>P port\<close> in \<open>simp_all add: finish_def generic_transport_def\<close>)
  then show ?thesis by (auto simp: P_def)
qed

text \<open>The slave.\<close>

lemma poll_byte_total:
  assumes "generic_wf D port"
  shows "\<exists>q. poll_byte b now port = Some q \<and> generic_wf D q"
proof -
  have "unat (n + 1) \<le> 256 \<and> unat n < 256" if "n < 256" for n :: u16
    using that by (simp add: word_less_nat_alt unat_word_ariths)
  then show ?thesis
    using assms by (auto simp: poll_byte_def generic_wf_def wr_Some word_le_nat_alt Let_def)
qed

lemma poll_frame_total:
  assumes "generic_wf D port" and "sync_hooks hk" and "slave_wf s"
  shows "\<exists>s' q. poll_frame hk u (s, port) = Some (s', q) \<and> slave_wf s' \<and> generic_wf D q"
proof -
  have rx: "rd_span (rx_buf port) 0 (unat (rx_len port)) = Some (take (unat (rx_len port)) (rx_buf port))"
    using assms(1) by (simp add: generic_wf_def rd_span_Some word_le_nat_alt)
  obtain st tx s' where s: "modbus_rtu_process hk (take (unat (rx_len port)) (rx_buf port)) s = Some (st, tx, s')" "slave_wf s'"
    using sync_hooks.rtu_process_total [OF assms(2,3)] by blast
  obtain h where h: "modbus_generic_uart_delay_t35 u (port\<lparr>rx_len := 0\<rparr>) = Some (port\<lparr>rx_len := 0, huart := h\<rparr>)"
    using delay_total [of "port\<lparr>rx_len := 0\<rparr>"] assms(1) by (auto simp: generic_wf_def)
  show ?thesis
    using assms(1) rx s h by (cases "tx = []") (simp_all add: poll_frame_def generic_wf_def Let_def)
qed

lemma slave_poll_total:
  assumes "generic_wf D port" and "sync_hooks hk" and "slave_wf s"
  shows "\<exists>s' q. modbus_generic_uart_slave_poll hk u (s, port) = Some (s', q) \<and> slave_wf s' \<and> generic_wf D q"
proof -
  have keep: "generic_wf D (port\<lparr>huart := h\<rparr>)" for h using assms(1) by (simp add: generic_wf_def)
  obtain b h where r: "uart_receive u 0 (huart port) = (b, h)" by fastforce
  obtain now k where g: "get_tick u h = (now, k)" by fastforce
  show ?thesis
  proof (cases b)
    case None
    with r g poll_frame_total [OF keep assms(2,3), of k] keep assms(3) show ?thesis
      by (auto simp: modbus_generic_uart_slave_poll_def)
  next
    case (Some v)
    with r g poll_byte_total [OF keep, of v now k] assms(3) show ?thesis
      by (auto simp: modbus_generic_uart_slave_poll_def)
  qed
qed

lemma slave_polls_total:
  assumes "generic_wf D port" and "sync_hooks hk" and "slave_wf s"
  shows "\<exists>s' q. slave_polls hk u n (s, port) = Some (s', q) \<and> slave_wf s' \<and> generic_wf D q"
  using assms
proof (induction n arbitrary: s port)
  case (Suc n)
  from slave_poll_total [OF Suc.prems] Suc.IH [OF _ Suc.prems(2)] show ?case by fastforce
qed simp

end

section \<open>Properties\<close>

text \<open>
  On a clock that goes on, nothing of this file gets stuck or out of bounds: each transaction of the
  master returns with the port as it was, and any number of polls of the slave goes through.
\<close>

theorem generic_never_stuck:
  assumes "uart_clock u clock quiet left D" and "generic_wf D port" and "unat tmo + 3 * D < 2 ^ 32" and "slave_wf s"
  shows "(\<exists>r c h. modbus_master_transaction (Some (generic_transport u)) a req m tmo port = Some (r, c, port\<lparr>huart := h\<rparr>)) \<and>
    (\<exists>s' q. slave_polls default_hooks u n (s, port) = Some (s', q) \<and> slave_wf s' \<and> generic_wf D q)"
proof
  have "unat (t35_ms port) + D < 2 ^ 32" using assms(2) by (simp add: generic_wf_def)
  then show "\<exists>r c h. modbus_master_transaction (Some (generic_transport u)) a req m tmo port = Some (r, c, port\<lparr>huart := h\<rparr>)"
    by (rule uart_clock.generic_transaction_ends [OF assms(1,3)])
  show "\<exists>s' q. slave_polls default_hooks u n (s, port) = Some (s', q) \<and> slave_wf s' \<and> generic_wf D q"
    using uart_clock.slave_polls_total [OF assms(1,2) dflt.sync_hooks_axioms assms(4)] .
qed

text \<open>What \<open>n\<close> polls find: a byte or none, and the time then.\<close>

primrec seen :: "'e uart \<Rightarrow> nat \<Rightarrow> 'e \<Rightarrow> (u8 option \<times> u32) list \<times> 'e" where
  "seen u 0 h = ([], h)"
| "seen u (Suc n) h =
     (let (b, h) = uart_receive u 0 h; (now, h) = get_tick u h; (es, h) = seen u n h in ((b, now) # es, h))"

abbreviation bytes_seen :: "(u8 option \<times> u32) list \<Rightarrow> u8 list" where
  "bytes_seen \<equiv> List.map_filter fst"

text \<open>Bytes within T1.5 of one another and no silence of T3.5; the time of the last byte.\<close>

fun in_time :: "u32 \<Rightarrow> u32 \<Rightarrow> u32 \<Rightarrow> (u8 option \<times> u32) list \<Rightarrow> u32 option" where
  "in_time t15 t35 l [] = Some l"
| "in_time t15 t35 l ((Some _, now) # es) = (if now - l \<le> t15 then in_time t15 t35 now es else None)"
| "in_time t15 t35 l ((None, now) # es) = (if now - l < t35 then in_time t15 t35 l es else None)"

lemma slave_polls_Suc: "slave_polls hk u (Suc n) x = slave_polls hk u n x \<bind> modbus_generic_uart_slave_poll hk u"
proof (induction n arbitrary: x)
  case (Suc n)
  show ?case
  proof (cases "modbus_generic_uart_slave_poll hk u x")
    case (Some y)
    with Suc.IH [of y] show ?thesis
      by (simp only: slave_polls.simps(2) [of hk u "Suc n" x] slave_polls.simps(2) [of hk u n x] bind.bind_lunit)
  qed simp
qed simp

lemma delay_other:
  assumes "modbus_generic_uart_delay_t35 u (port\<lparr>huart := h\<rparr>) = Some (port\<lparr>huart := k\<rparr>)"
    and "huart q = h" and "t35_ms q = t35_ms port"
  shows "modbus_generic_uart_delay_t35 u q = Some (q\<lparr>huart := k\<rparr>)"
  using assms by (cases port) (auto simp: modbus_generic_uart_delay_t35_def split: prod.splits bind_splits)

lemma poll_byte_stores:
  assumes "length (rx_buf port) = 256" and "rx_len port = of_nat (length bs)" and "length bs < 256"
    and "take (length bs) (rx_buf port) = bs" and "bs \<noteq> [] \<longrightarrow> now - last_rx_ms port \<le> t15_ms port"
  shows "\<exists>buf. poll_byte b now port = Some (port\<lparr>rx_buf := buf, rx_len := of_nat (length (bs @ [b])), last_rx_ms := now\<rparr>) \<and>
    length buf = 256 \<and> take (length (bs @ [b])) buf = bs @ [b]"
proof -
  have n: "unat (rx_len port) = length bs" "rx_len port < 256" using assms(2,3) by (simp_all add: word_less_nat_alt)
  then have "bs = [] \<longleftrightarrow> rx_len port = 0" by (metis length_0_conv unat_eq_0)
  then have "\<not> (rx_len port > 0 \<and> now - last_rx_ms port > t15_ms port)" using assms(5) by (auto simp: word_gt_0)
  then have "poll_byte b now port =
      Some (port\<lparr>rx_buf := (rx_buf port)[length bs := b], rx_len := of_nat (length (bs @ [b])), last_rx_ms := now\<rparr>)"
    using assms(1-3) n by (simp only: poll_byte_def if_False Let_def) (simp add: wr_Some)
  then show ?thesis using assms(1,3,4) by (intro exI [of _ "(rx_buf port)[length bs := b]"]) (simp add: take_Suc_conv_app_nth)
qed

lemma polls_collect:
  assumes "length (rx_buf port) = 256" and "rx_len port = of_nat (length bs)" and "bs \<noteq> []"
    and "take (length bs) (rx_buf port) = bs" and "seen u n (huart port) = (es, h)"
    and "in_time (t15_ms port) (t35_ms port) (last_rx_ms port) es = Some l" and "length (bs @ bytes_seen es) \<le> 256"
  shows "\<exists>buf. slave_polls hk u n (s, port) =
      Some (s, port\<lparr>huart := h, rx_buf := buf, rx_len := of_nat (length (bs @ bytes_seen es)), last_rx_ms := l\<rparr>) \<and>
    length buf = 256 \<and> take (length (bs @ bytes_seen es)) buf = bs @ bytes_seen es"
  using assms
proof (induction n arbitrary: port bs es)
  case 0
  then show ?case by (intro exI [of _ "rx_buf port"]) (simp add: List.map_filter_simps)
next
  case (Suc n)
  obtain b h1 where r: "uart_receive u 0 (huart port) = (b, h1)" by fastforce
  obtain now h2 where g: "get_tick u h1 = (now, h2)" by fastforce
  obtain es' h' where s: "seen u n h2 = (es', h')" by fastforce
  from Suc.prems(5) r g s have es: "es = (b, now) # es'" "h' = h" by auto
  show ?case
  proof (cases b)
    case None
    then have t: "now - last_rx_ms port < t35_ms port" "in_time (t15_ms port) (t35_ms port) (last_rx_ms port) es' = Some l"
      using Suc.prems(6) es by (simp_all split: if_splits)
    have "rx_len port > 0" using Suc.prems(2,3,7) by (simp add: word_less_nat_alt)
    then have "modbus_generic_uart_slave_poll hk u (s, port) = Some (s, port\<lparr>huart := h2\<rparr>)"
      using r g t(1) None by (simp add: modbus_generic_uart_slave_poll_def not_le [symmetric])
    with Suc.IH [of "port\<lparr>huart := h2\<rparr>" bs es'] Suc.prems(1-4,7) t(2) s es None show ?thesis
      by (simp add: List.map_filter_simps)
  next
    case (Some v)
    then have t: "now - last_rx_ms port \<le> t15_ms port" "in_time (t15_ms port) (t35_ms port) now es' = Some l"
      using Suc.prems(6) es by (simp_all split: if_splits)
    from poll_byte_stores [of "port\<lparr>huart := h2\<rparr>" bs now v] Suc.prems(1,2,4,7) t(1) Some es obtain buf where
      buf: "poll_byte v now (port\<lparr>huart := h2\<rparr>) =
        Some (port\<lparr>huart := h2, rx_buf := buf, rx_len := of_nat (length (bs @ [v])), last_rx_ms := now\<rparr>)"
        "length buf = 256" "take (length (bs @ [v])) buf = bs @ [v]"
      by (auto simp: List.map_filter_simps)
    then have "modbus_generic_uart_slave_poll hk u (s, port) =
        Some (s, port\<lparr>huart := h2, rx_buf := buf, rx_len := of_nat (length (bs @ [v])), last_rx_ms := now\<rparr>)"
      using r g Some by (simp add: modbus_generic_uart_slave_poll_def)
    with Suc.IH [of "port\<lparr>huart := h2, rx_buf := buf, rx_len := of_nat (length (bs @ [v])), last_rx_ms := now\<rparr>" "bs @ [v]" es']
      Suc.prems(7) t(2) s es Some buf(2,3) show ?thesis
      by (simp add: List.map_filter_simps)
  qed
qed

text \<open>
  C39: The polled slave answers a frame: when its bytes come within T1.5 of one another, up to 256 of them,
  and T3.5 of silence follow, the poll that sees the silence has the RTU processor serve exactly these
  bytes and, when there is a response, sends it after another T3.5; the buffer is empty again.
\<close>

theorem generic_slave_answers:
  assumes clock: "uart_clock u clock quiet left D" and wf: "generic_wf D port" and idle: "rx_len port = 0"
    and bytes: "seen u (Suc n) (huart port) = ((Some b, t) # es, h)" "in_time (t15_ms port) (t35_ms port) t es = Some l"
      "length (bytes_seen es) < 256"
    and silence: "uart_receive u 0 h = (None, h1)" "get_tick u h1 = (now, h2)" "now - l \<ge> t35_ms port"
    and serve: "modbus_rtu_process hk (b # bytes_seen es) s = Some (st, resp, s')"
  shows "\<exists>q. slave_polls hk u (Suc (Suc n)) (s, port) = Some (s', q) \<and> rx_len q = 0 \<and>
    (if resp = [] then huart q = h2
     else \<exists>k. modbus_generic_uart_delay_t35 u (port\<lparr>huart := h2\<rparr>) = Some (port\<lparr>huart := k\<rparr>) \<and> huart q = snd (uart_send u resp 100 k))"
proof -
  obtain h0 h0' where r: "uart_receive u 0 (huart port) = (Some b, h0)" "get_tick u h0 = (t, h0')" "seen u n h0' = (es, h)"
    using bytes(1) by (auto simp: Let_def split: prod.splits)
  from poll_byte_stores [of "port\<lparr>huart := h0'\<rparr>" "[]" t b] wf idle obtain buf0 where
    b0: "poll_byte b t (port\<lparr>huart := h0'\<rparr>) = Some (port\<lparr>huart := h0', rx_buf := buf0, rx_len := 1, last_rx_ms := t\<rparr>)"
      "length buf0 = 256" "take 1 buf0 = [b]" by (auto simp: generic_wf_def)
  let ?p0 = "port\<lparr>huart := h0', rx_buf := buf0, rx_len := 1, last_rx_ms := t\<rparr>"
  let ?m = "length (b # bytes_seen es)"
  from polls_collect [of ?p0 "[b]" u n es h l hk s] b0(2,3) r(3) bytes(2,3) obtain buf where
    p1: "slave_polls hk u n (s, ?p0) = Some (s, ?p0\<lparr>huart := h, rx_buf := buf, rx_len := of_nat ?m, last_rx_ms := l\<rparr>)"
      "length buf = 256" "take ?m buf = b # bytes_seen es" by auto
  let ?p1 = "?p0\<lparr>huart := h, rx_buf := buf, rx_len := of_nat ?m, last_rx_ms := l\<rparr>"
  have m: "unat (of_nat ?m :: u16) = ?m" by (rule unat_u16_of_nat) (use bytes(3) in simp)
  then have "(of_nat ?m :: u16) > 0" unfolding word_less_nat_alt by (simp only: m) simp
  have "modbus_generic_uart_slave_poll hk u (s, port) = Some (s, ?p0)"
    using r b0(1) by (simp add: modbus_generic_uart_slave_poll_def)
  moreover have "modbus_generic_uart_slave_poll hk u (s, ?p1) = poll_frame hk u (s, ?p1\<lparr>huart := h2\<rparr>)"
    using silence \<open>(of_nat ?m :: u16) > 0\<close> by (simp add: modbus_generic_uart_slave_poll_def)
  moreover have "slave_polls hk u (Suc n) (s, port) = Some (s, ?p1)" using calculation(1) p1(1) by simp
  ultimately have "slave_polls hk u (Suc (Suc n)) (s, port) = poll_frame hk u (s, ?p1\<lparr>huart := h2\<rparr>)"
    by (simp only: slave_polls_Suc [of hk u "Suc n"] bind.bind_lunit)
  moreover obtain k where "modbus_generic_uart_delay_t35 u (port\<lparr>huart := h2\<rparr>) = Some (port\<lparr>huart := k\<rparr>)"
    using uart_clock.delay_total [OF clock, of "port\<lparr>huart := h2\<rparr>"] wf by (auto simp: generic_wf_def)
  moreover have "rd_span buf 0 ?m = Some (b # bytes_seen es)" using bytes(3) p1(2,3) rd_span_Some [of 0 ?m buf] by simp
  ultimately show ?thesis
    using serve m delay_other [where port = port and h = h2 and q = "?p1\<lparr>huart := h2, rx_len := 0\<rparr>"]
    by (cases "resp = []") (auto simp: poll_frame_def Let_def)
qed

text \<open>A machine whose clock shows a new millisecond at each reading.\<close>

type_synonym script = "nat \<times> u8 option list \<times> u8 list"

definition script_uart :: "script uart" where
  "script_uart = \<lparr>uart_receive = (\<lambda>_ (c, xs, sent). case xs of [] \<Rightarrow> (None, (c, [], sent)) | x # xs \<Rightarrow> (x, (c, xs, sent))),
     uart_send = (\<lambda>bs _ (c, xs, sent). (True, (c, xs, sent @ bs))), get_tick = (\<lambda>(c, xs, sent). (of_nat c, (Suc c, xs, sent)))\<rparr>"

definition start_port :: "script modbus_generic_uart" where
  "start_port = modbus_generic_uart_init 115200 (0, map Some [1, 3, 0, 0, 0, 1, 0x84, 0x0A], [])
     \<lparr>huart = (0, [], []), t15_ms = 0, t35_ms = 0, rx_buf = replicate 256 0, rx_len = 0, last_rx_ms = 0\<rparr>"

lemma script_steps [simp]:
  "uart_receive script_uart w (c, x # xs, sent) = (x, (c, xs, sent))"
  "uart_receive script_uart w (c, [], sent) = (None, (c, [], sent))"
  "get_tick script_uart (c, xs, sent) = (of_nat c, (Suc c, xs, sent))"
  by (simp_all add: script_uart_def)

lemma start_port_eq:
  "start_port = \<lparr>huart = (0, map Some [1, 3, 0, 0, 0, 1, 0x84, 0x0A], []), t15_ms = 1, t35_ms = 2, rx_buf = replicate 256 0,
     rx_len = 0, last_rx_ms = 0\<rparr>"
  by (simp add: start_port_def modbus_generic_uart_init_def modbus_rtu_timeouts_us_def del: replicate_Suc)

lemma start_port_wf: "generic_wf 1 start_port"
  by (simp add: generic_wf_def start_port_eq)

interpretation script: uart_clock script_uart "\<lambda>(c, _). of_nat c" "\<lambda>_. 0" "\<lambda>(_, xs, _). length xs" 1
  by unfold_locales (auto simp: script_uart_def split: list.splits)

lemma generic_never_stuck_witness:
  "\<exists>r c h s' q. modbus_master_transaction (Some (generic_transport script_uart)) 2 [3, 0, 0, 0, 1] 256 500 start_port =
      Some (r, c, start_port\<lparr>huart := h\<rparr>) \<and> slave_polls default_hooks script_uart 1000 (slave1, start_port) = Some (s', q)"
  using generic_never_stuck [OF script.uart_clock_axioms start_port_wf _ slave1_wf, of 500 2 "[3, 0, 0, 0, 1]" 256 1000] by auto

lemma generic_slave_answers_witness:
  "\<exists>st resp s' q. modbus_rtu_process default_hooks [1, 3, 0, 0, 0, 1, 0x84, 0x0A] slave1 = Some (st, resp, s') \<and>
    slave_polls default_hooks script_uart 10 (slave1, start_port) = Some (s', q)"
proof -
  obtain st resp s' where s: "modbus_rtu_process default_hooks [1, 3, 0, 0, 0, 1, 0x84, 0x0A] slave1 = Some (st, resp, s')"
    using dflt.rtu_process_total [OF slave1_wf] by blast
  let ?es = "[(Some 3, 1), (Some 0, 2), (Some 0, 3), (Some 0, 4), (Some 1, 5), (Some 0x84, 6), (Some 0x0A, 7), (None, 8)] ::
    (u8 option \<times> u32) list"
  have "seen script_uart (Suc 8) (huart start_port) = ((Some 1, 0) # ?es, (9, [], []))"
    by (simp add: start_port_eq numeral_eq_Suc)
  moreover have "in_time (t15_ms start_port) (t35_ms start_port) 0 ?es = Some 7" by (simp add: start_port_eq)
  moreover have "bytes_seen ?es = [3, 0, 0, 0, 1, 0x84, 0x0A]" by (simp add: List.map_filter_simps)
  moreover have "rx_len start_port = 0" "t35_ms start_port = 2" by (simp_all add: start_port_eq)
  ultimately have "\<exists>q. slave_polls default_hooks script_uart (Suc (Suc 8)) (slave1, start_port) = Some (s', q)"
    using generic_slave_answers [OF script.uart_clock_axioms start_port_wf _ _ _ _ _ _ _, of 8 1 0 ?es "(9, [], [])" 7 "(9, [], [])" 9 "(10, [], [])"
        default_hooks slave1 st resp s'] s by (simp del: slave_polls.simps) blast
  then have "\<exists>q. slave_polls default_hooks script_uart 10 (slave1, start_port) = Some (s', q)"
    by (simp only: eval_nat_numeral BitM.simps)
  with s show ?thesis by blast
qed

end
