(* ===== verification/Custom_Map.thy ===== *)
theory Custom_Map
  imports Slave_Rtu
begin

text \<open>
  The register map of \<open>examples/custom_register_map\<close>: an application that replaces the board's sync by
  hooks of its own. The hooks run on the slave and on the application's data; what the slave sees of
  them, for given data, is \<open>app_hooks\<close>, with which the locale \<open>sync_hooks\<close> is interpreted a second time.
  The data pointer is never null here.
\<close>

section \<open>Data and hooks\<close>

record app_process_data =
  motor_enabled :: bool
  alarm_reset_requested :: bool
  auto_mode :: bool
  cooling_valve_open :: bool
  target_temp_sp :: u16
  max_pressure_limit :: u16
  pid_kp :: u16
  pid_ki :: u16
  pid_kd :: u16
  e_stop_active :: bool
  door_closed :: bool
  pressure_ok :: bool
  motor_fault :: bool
  temperature_raw :: u16
  pressure_mbar :: u16
  motor_current_ma :: u16
  supply_voltage_mv :: u16

definition on_modbus_registers_written :: "app_process_data \<times> slave \<Rightarrow> app_process_data \<times> slave" where
  "on_modbus_registers_written = (\<lambda>(data, s).
     let data = data\<lparr>motor_enabled := modbus_read_coil s 0 \<noteq> 0, alarm_reset_requested := modbus_read_coil s 1 \<noteq> 0,
                     auto_mode := modbus_read_coil s 2 \<noteq> 0, cooling_valve_open := modbus_read_coil s 3 \<noteq> 0\<rparr>;
         (data, s) = (if alarm_reset_requested data
                      then (data\<lparr>alarm_reset_requested := False\<rparr>, modbus_write_coil 1 0 s) else (data, s))
     in (data\<lparr>target_temp_sp := modbus_read_holding_register s 0, max_pressure_limit := modbus_read_holding_register s 1,
              pid_kp := modbus_read_holding_register s 2, pid_ki := modbus_read_holding_register s 3,
              pid_kd := modbus_read_holding_register s 4\<rparr>, s))"

definition on_modbus_inputs_refresh :: "app_process_data \<Rightarrow> slave \<Rightarrow> slave" where
  "on_modbus_inputs_refresh data s =
     (let s = modbus_write_holding_register (100 + 0) (temperature_raw data) s;
          s = modbus_write_holding_register (100 + 1) (pressure_mbar data) s;
          s = modbus_write_holding_register (100 + 2) (motor_current_ma data) s
      in modbus_write_holding_register (100 + 3) (supply_voltage_mv data) s)"

definition app_hooks :: "app_process_data \<Rightarrow> modbus_sync_hooks" where
  "app_hooks data = modbus_register_sync_hooks (Some
     \<lparr>on_registers_written = Some (\<lambda>s. snd (on_modbus_registers_written (data, s))),
      on_inputs_refresh = Some (on_modbus_inputs_refresh data)\<rparr>)"

definition app_custom_register_map_init :: "slave \<Rightarrow> app_process_data \<times> slave" where
  "app_custom_register_map_init s =
     (let data = \<lparr>motor_enabled = False, alarm_reset_requested = False, auto_mode = False, cooling_valve_open = False,
            target_temp_sp = 250, max_pressure_limit = 5000, pid_kp = 120, pid_ki = 15, pid_kd = 45,
            e_stop_active = False, door_closed = False, pressure_ok = False, motor_fault = False,
            temperature_raw = 0, pressure_mbar = 0, motor_current_ma = 0, supply_voltage_mv = 0\<rparr>;
          s = modbus_write_holding_register 0 (target_temp_sp data) s;
          s = modbus_write_holding_register 1 (max_pressure_limit data) s;
          s = modbus_write_holding_register 2 (pid_kp data) s;
          s = modbus_write_holding_register 3 (pid_ki data) s
      in (data, modbus_write_holding_register 4 (pid_kd data) s))"

definition app_custom_process_step :: "app_process_data \<times> slave \<Rightarrow> app_process_data \<times> slave" where
  "app_custom_process_step = (\<lambda>(data, s).
     let data = data\<lparr>temperature_raw := 248, pressure_mbar := 1013,
                     motor_current_ma := (if motor_enabled data then 1450 else 0), supply_voltage_mv := 24120\<rparr>
     in (data, modbus_sync_inputs (app_hooks data) s))"

section \<open>The hooks keep the slave well formed\<close>

lemma slave_wf_write [simp]:
  "slave_wf s \<Longrightarrow> slave_wf (modbus_write_holding_register a v s)"
  "slave_wf s \<Longrightarrow> slave_wf (modbus_write_coil a v s)"
  by (simp_all add: slave_wf_def modbus_write_holding_register_def modbus_write_coil_def)

lemma written_slave:
  "snd (on_modbus_registers_written (data, s)) = (if modbus_read_coil s 1 \<noteq> 0 then modbus_write_coil 1 0 s else s)"
  by (simp add: on_modbus_registers_written_def Let_def)

lemma app_sync:
  "modbus_sync_registers (app_hooks data) s = (if modbus_read_coil s 1 \<noteq> 0 then modbus_write_coil 1 0 s else s)"
  "modbus_sync_inputs (app_hooks data) s = on_modbus_inputs_refresh data s"
  by (simp_all add: app_hooks_def modbus_register_sync_hooks_def modbus_sync_registers_def modbus_sync_inputs_def written_slave)

interpretation app: sync_hooks "app_hooks data" for data
  by unfold_locales (simp_all add: app_sync on_modbus_inputs_refresh_def Let_def)

section \<open>Properties\<close>

text \<open>
  A slave with this map is as safe as the board's own: each frame is processed in bounds, with at most
  256 bytes of answer, and leaves the slave well formed.
\<close>

theorem app_slave_safe:
  assumes "slave_wf s"
  shows "\<exists>st tx t. modbus_rtu_process (app_hooks data) rx s = Some (st, tx, t) \<and> slave_wf t \<and> length tx \<le> 256"
  using app.rtu_process_total [OF assms, of data rx] by blast

text \<open>
  After a write the application sees the coils and set points of the tables, with one exception: an
  alarm reset is taken back in the same call that notices it, so the application never sees one.
\<close>

theorem app_sees_tables:
  assumes "slave_wf s" and "on_modbus_registers_written (data, s) = (data', t)"
  shows "(motor_enabled data' \<longleftrightarrow> modbus_read_coil t 0 \<noteq> 0) \<and> (auto_mode data' \<longleftrightarrow> modbus_read_coil t 2 \<noteq> 0) \<and>
    (cooling_valve_open data' \<longleftrightarrow> modbus_read_coil t 3 \<noteq> 0) \<and> \<not> alarm_reset_requested data' \<and> modbus_read_coil t 1 = 0 \<and>
    [target_temp_sp data', max_pressure_limit data', pid_kp data', pid_ki data', pid_kd data'] = take 5 (holding_regs t) \<and>
    holding_regs t = holding_regs s"
proof -
  have len: "length (coil_bits s) = 16" "length (holding_regs s) = 256" using assms(1) by (simp_all add: slave_wf_def)
  have r: "[x ! 0, x ! 1, x ! 2, x ! 3, x ! 4] = take 5 x" if "length x = 256" for x :: "u16 list"
    using that by (intro nth_equalityI) (auto simp: less_Suc_eq numeral_eq_Suc nth_Cons')
  have coil: "modbus_read_coil (modbus_write_coil 1 0 s) i = (if i = 1 then 0 else modbus_read_coil s i)" if "i < 128" for i
    using bit_bank.get_put [OF len(1), of 1 i 0] that by (simp add: modbus_read_coil_def modbus_write_coil_def)
  have "holding_regs (modbus_write_coil 1 0 s) = holding_regs s" "\<not> (256 :: u16) \<le> 1"
    by (simp_all add: modbus_write_coil_def word_le_nat_alt)
  then show ?thesis
    using assms(2) coil [of 0] coil [of 1] coil [of 2] coil [of 3] r [OF len(2)]
    by (auto simp: on_modbus_registers_written_def modbus_read_holding_register_def word_le_nat_alt Let_def split: if_splits)
qed

text \<open>
  A processing step publishes the telemetry: Read Input Registers from address 0 then returns the four
  values of the application.
\<close>

theorem app_telemetry_read:
  assumes "slave_wf s" and "app_custom_process_step (data, s) = (data', t)"
  shows "\<exists>u. modbus_pdu_process (app_hooks data') (request 0x04 0 4) False t =
    Some (MODBUS_OK, [0x04, 8] @ be_bytes [248, 1013, if motor_enabled data then 1450 else 0, 24120], 10, u)"
proof -
  define vs where "vs = [248, 1013, if motor_enabled data then 1450 else 0, 24120 :: u16]"
  have regs: "holding_regs t = (holding_regs s)[100 := vs ! 0, 101 := vs ! 1, 102 := vs ! 2, 103 := vs ! 3]"
    using assms(2)
    by (auto simp: app_custom_process_step_def app_sync on_modbus_inputs_refresh_def modbus_write_holding_register_def
        modbus_regs_write_def word_le_nat_alt vs_def Let_def)
  have wf: "slave_wf t" using assms app.refresh_wf by (auto simp: app_custom_process_step_def Let_def)
  have len: "length (holding_regs s) = 256" using assms(1) by (simp add: slave_wf_def)
  have "input_regs (mirror_analog t) ! j = vs ! j" if "j < 4" for j
  proof -
    have "j = 0 \<or> j = 1 \<or> j = 2 \<or> j = 3" using that by linarith
    with regs len show ?thesis using mirror_analog_regs [OF wf, of j] by (elim disjE) simp_all
  qed
  moreover have "length (input_regs (mirror_analog t)) = 256" using wf by (metis slave_wfD(2) slave_wf_mirror)
  ultimately have "take 4 (input_regs (mirror_analog t)) = vs"
    by (intro nth_equalityI) (simp_all add: vs_def)
  with read_input_response [OF wf, of 4 0 "app_hooks data'"] show ?thesis by (simp add: vs_def)
qed

end
