(* ===== verification/Framer_Irq.thy ===== *)
theory Framer_Irq
  imports Framer
begin

text \<open>
  The framing engine with interrupts between the statements of its functions. The port's receive
  interrupt has a higher priority than SysTick (1 and 15), and both interrupt the main program; a
  section with interrupts disabled is one atom, and so is every store outside one. The relation
  \<open>irq_step\<close> interleaves the receive interrupt, the SysTick handler and the main program in these atoms;
  \<open>Framer\<close> takes whole operations as steps.
\<close>

section \<open>Atoms\<close>

datatype framer_atom =
    Fast_Path systick
  | Complete systick
  | Bump
  | Deliver
  | Fetch u16
  | Clear_All
  | Disarm
  | Zero_Len
  | Go_Idle
  | Drop_Ready

text \<open>The second section of \<open>rtu_framer_process\<close>.\<close>

definition take_frame :: "rtu_framer \<Rightarrow> (u8 list \<times> rtu_framer) option" where
  "take_frame f =
     (if \<not> rx_callback f then Some ([], f)
      else if frame_ready f \<and> completed_len f > 0 then do {
        loc \<leftarrow> rd_span (completed_buffer f) 0 (unat (completed_len f));
        Some (loc, f\<lparr>frame_ready := False, completed_len := 0\<rparr>)
      }
      else Some ([], f))"

text \<open>What an atom does: the atoms to go on with, the bytes handed out, and the new state.\<close>

definition just :: "rtu_framer \<Rightarrow> (framer_atom list \<times> u8 list \<times> rtu_framer) option" where
  "just f = Some ([], [], f)"

primrec exec :: "framer_atom \<Rightarrow> rtu_framer \<Rightarrow> (framer_atom list \<times> u8 list \<times> rtu_framer) option" where
  "exec (Fast_Path k) f = Some (if t35_armed f then [Complete k] else [], [], f)"
| "exec (Complete k) f = do { f \<leftarrow> rtu_try_complete_frame k f; just f }"
| "exec Bump f = just (f\<lparr>ms_tick := ms_tick f + 1\<rparr>)"
| "exec Deliver f = do { (out, f) \<leftarrow> take_frame f; Some ([], out, f) }"
| "exec (Fetch n) f = do { (out, f) \<leftarrow> rtu_framer_read n f; Some ([], out, f) }"
| "exec Clear_All f = just (rtu_framer_flush f)"
| "exec Disarm f = just (f\<lparr>t35_armed := False\<rparr>)"
| "exec Zero_Len f = just (f\<lparr>rx_len := 0\<rparr>)"
| "exec Go_Idle f = just (f\<lparr>fstate := RTU_FRAMER_IDLE\<rparr>)"
| "exec Drop_Ready f = just (f\<lparr>frame_ready := False\<rparr>)"

text \<open>The operations of the main program, and the SysTick hook.\<close>

fun atoms_of :: "framer_event \<Rightarrow> framer_atom list" where
  "atoms_of (Process k) = [Fast_Path k, Deliver]"
| "atoms_of (Read n) = [Fetch n]"
| "atoms_of Flush = [Clear_All]"
| "atoms_of Tx_Begin = [Disarm, Zero_Len, Go_Idle, Disarm, Drop_Ready]"
| "atoms_of (Tick k) = [Bump, Fast_Path k]"
| "atoms_of (Byte _ _ _) = []"

fun from_main :: "framer_event \<Rightarrow> bool" where
  "from_main (Byte _ _ _) = False"
| "from_main (Tick _) = False"
| "from_main _ = True"

section \<open>Steps\<close>

text \<open>A state: what the main program and the SysTick handler have still to do, and the engine.\<close>

type_synonym irq_state = "framer_atom list \<times> framer_atom list \<times> rtu_framer"

inductive irq_step :: "irq_state \<Rightarrow> u8 list \<Rightarrow> irq_state \<Rightarrow> bool" where
  byte: "rtu_framer_on_byte k k' b f = Some g \<Longrightarrow> irq_step (m, h, f) [] (m, h, g)"
| tick: "irq_step (m, [], f) [] (m, atoms_of (Tick k), f)"
| handler: "exec a f = Some (as, out, g) \<Longrightarrow> irq_step (m, a # h, f) out (m, as @ h, g)"
| main: "exec a f = Some (as, out, g) \<Longrightarrow> irq_step (a # m, [], f) out (as @ m, [], g)"
| call: "from_main e \<Longrightarrow> irq_step ([], [], f) [] (atoms_of e, [], f)"

inductive irq_run :: "irq_state \<Rightarrow> u8 list list \<Rightarrow> irq_state \<Rightarrow> bool" where
  stop: "irq_run s [] s"
| go: "irq_step s out t \<Longrightarrow> irq_run t outs u \<Longrightarrow> irq_run s (out # outs) u"

section \<open>Safety\<close>

text \<open>
  What every interleaving keeps: the lengths. That the timer runs only while a frame is received, part
  of \<open>framer_wf\<close>, does not survive a byte between the stores of \<open>rtu_framer_tx_begin\<close>.
\<close>

definition irq_wf :: "rtu_framer \<Rightarrow> bool" where
  "irq_wf f \<longleftrightarrow> 0 < unat (buffer_size f) \<and> unat (buffer_size f) \<le> 256 \<and>
     unat (buffer_size f) \<le> length (rx_buffer f) \<and> unat (buffer_size f) \<le> length (completed_buffer f) \<and>
     unat (rx_len f) \<le> unat (buffer_size f) \<and> unat (completed_len f) \<le> unat (buffer_size f)"

lemma framer_wf_irq: "framer_wf f \<Longrightarrow> irq_wf f"
  by (simp add: framer_wf_def irq_wf_def)

lemma try_complete_irq:
  assumes "irq_wf f"
  shows "\<exists>g. rtu_try_complete_frame k f = Some g \<and> irq_wf g"
proof -
  have "\<not> rx_len f > buffer_size f" using assms by (simp add: irq_wf_def word_less_nat_alt)
  then show ?thesis
    using assms by (auto simp: rtu_try_complete_frame_def irq_wf_def Let_def copy_bytes_eq)
qed

lemma on_byte_irq:
  assumes "irq_wf f"
  shows "\<exists>g. rtu_framer_on_byte k k' b f = Some g \<and> irq_wf g"
proof -
  have sz: "0 < unat (buffer_size f)" "unat (buffer_size f) \<le> length (rx_buffer f)"
    "unat (rx_len f) \<le> unat (buffer_size f)" "unat (buffer_size f) \<le> 256"
    using assms by (simp_all add: irq_wf_def)
  moreover from this have "rx_buffer f \<noteq> []" by auto
  moreover have "unat (rx_len f + 1) = unat (rx_len f) + 1" using sz by (simp add: unat_word_ariths)
  ultimately show ?thesis
    using assms by (auto simp: rtu_framer_on_byte_def wr_def irq_wf_def rtu_timer_start_t35_def word_less_nat_alt)
qed

lemma take_frame_irq:
  assumes "irq_wf f"
  shows "\<exists>out g. take_frame f = Some (out, g) \<and> irq_wf g \<and> length out \<le> 256"
  using assms by (auto simp: take_frame_def irq_wf_def rd_span_Some)

lemma read_irq:
  assumes "irq_wf f"
  shows "\<exists>out g. rtu_framer_read n f = Some (out, g) \<and> irq_wf g \<and> length out \<le> 256"
proof -
  have "unat (if completed_len f > n then n else completed_len f) \<le> min 256 (length (completed_buffer f))"
    using assms by (auto simp: irq_wf_def word_less_nat_alt)
  with assms show ?thesis by (auto simp: rtu_framer_read_def irq_wf_def rd_span_Some Let_def)
qed

lemma exec_irq:
  assumes "irq_wf f"
  shows "\<exists>as out g. exec a f = Some (as, out, g) \<and> irq_wf g \<and> length out \<le> 256"
proof (cases a)
  case (Complete k)
  with try_complete_irq [OF assms, of k] show ?thesis by (auto simp: just_def)
next
  case Deliver
  with take_frame_irq [OF assms] show ?thesis by auto
next
  case (Fetch n)
  with read_irq [OF assms, of n] show ?thesis by auto
qed (use assms in \<open>auto simp: just_def irq_wf_def rtu_framer_flush_def rtu_reset_frame_def rtu_timer_stop_def\<close>)

lemma irq_step_keeps: "irq_step s out t \<Longrightarrow> irq_wf (snd (snd s)) \<Longrightarrow> irq_wf (snd (snd t)) \<and> length out \<le> 256"
proof (induction rule: irq_step.induct)
  case (byte k k' b f g m h)
  with on_byte_irq [of f k k' b] show ?case by auto
next
  case (handler a f as out g m h)
  with exec_irq [of f a] show ?case by auto
next
  case (main a f as out g m)
  with exec_irq [of f a] show ?case by auto
qed simp_all

lemma irq_run_keeps:
  "irq_run s outs t \<Longrightarrow> irq_wf (snd (snd s)) \<Longrightarrow> irq_wf (snd (snd t)) \<and> (\<forall>out \<in> set outs. length out \<le> 256)"
  by (induction rule: irq_run.induct) (auto dest: irq_step_keeps)

text \<open>Without further interrupts the handler and then the operation of the main program come to their end.\<close>

fun work :: "framer_atom \<Rightarrow> nat" where
  "work (Fast_Path _) = 2"
| "work _ = 1"

lemma exec_less: "exec a f = Some (as, out, g) \<Longrightarrow> sum_list (map work as) < work a"
  by (cases a) (auto simp: just_def split: bind_splits)

lemma irq_drains:
  assumes "irq_wf f"
  shows "\<exists>outs g. irq_run (m, h, f) outs ([], [], g) \<and> irq_wf g"
  using assms
proof (induction "sum_list (map work (h @ m))" arbitrary: m h f rule: less_induct)
  case less
  show ?case
  proof (cases "h @ m")
    case Nil
    with less.prems irq_run.stop [of "([], [], f)"] show ?thesis by auto
  next
    case (Cons a r)
    obtain as out g where e: "exec a f = Some (as, out, g)" "irq_wf g" using exec_irq [OF less.prems] by blast
    show ?thesis
    proof (cases h)
      case (Cons b h')
      then have "b = a" "sum_list (map work ((as @ h') @ m)) < sum_list (map work (h @ m))"
        using \<open>h @ m = a # r\<close> exec_less [OF e(1)] by auto
      with less.hyps [of "as @ h'" m g] e Cons irq_step.handler [OF e(1)] irq_run.go show ?thesis by metis
    next
      case Nil
      then have "m = a # r" "sum_list (map work ([] @ as @ r)) < sum_list (map work (h @ m))"
        using \<open>h @ m = a # r\<close> exec_less [OF e(1)] by auto
      with less.hyps [of "[]" "as @ r" g] e Nil irq_step.main [OF e(1)] irq_run.go show ?thesis by metis
    qed
  qed
qed

section \<open>The atomic steps among the interleavings\<close>

lemma process_parts: "rtu_framer_process k f = rtu_try_complete_frame k f \<bind> take_frame"
  unfolding rtu_framer_process_def by (rule arg_cong [where f = "\<lambda>h. rtu_try_complete_frame k f \<bind> h"]) (simp add: fun_eq_iff take_frame_def)

lemma irq_run_append: "irq_run s outs t \<Longrightarrow> irq_run t outs' u \<Longrightarrow> irq_run s (outs @ outs') u"
  by (induction rule: irq_run.induct) (auto intro: irq_run.go)

text \<open>Undisturbed, the atoms of an operation do what the operation does.\<close>

primrec exec_all :: "framer_atom list \<Rightarrow> rtu_framer \<Rightarrow> (u8 list \<times> rtu_framer) option" where
  "exec_all [] f = Some ([], f)"
| "exec_all (a # as) f = do {
     (next, out, f) \<leftarrow> exec a f;
     (out', f) \<leftarrow> (case next of [] \<Rightarrow> Some ([], f) | c # _ \<Rightarrow> do { (_, out', f) \<leftarrow> exec c f; Some (out', f) });
     (rest, f) \<leftarrow> exec_all as f;
     Some (out @ out' @ rest, f)
   }"

lemma fast_path: "\<not> t35_armed f \<Longrightarrow> rtu_try_complete_frame k f = Some f"
  by (simp add: rtu_try_complete_frame_def)

lemma atoms_agree: "from_main e \<or> (\<exists>k. e = Tick k) \<Longrightarrow> framer_step f e out g \<longleftrightarrow> exec_all (atoms_of e) f = Some (out, g)"
  by (cases e)
    (auto simp: process_parts fast_path just_def rtu_framer_on_systick_def rtu_framer_flush_def rtu_framer_tx_begin_def
      rtu_reset_frame_def rtu_timer_stop_def framer_step.simps split: bind_splits)

text \<open>Hence each run in whole operations is one of the interleavings.\<close>

lemma exec_next: "exec a f = Some (as, out, g) \<Longrightarrow> as = [] \<or> (\<exists>k. a = Fast_Path k \<and> as = [Complete k])"
  by (cases a) (auto simp: just_def split: bind_splits if_splits)

text \<open>\<open>st\<close> is the state with these atoms to do, in the main program or in the handler.\<close>

lemma exec_all_run:
  assumes step: "\<And>a as f new out g. exec a f = Some (new, out, g) \<Longrightarrow> irq_step (st (a # as) f) out (st (new @ as) g)"
  shows "exec_all as f = Some (out, g) \<Longrightarrow> \<exists>outs. irq_run (st as f) outs (st [] g) \<and> concat outs = out"
proof (induction as arbitrary: f out)
  case Nil
  then show ?case using irq_run.stop by fastforce
next
  case (Cons a as)
  obtain new o1 f1 where a: "exec a f = Some (new, o1, f1)" using Cons.prems by (auto split: bind_splits)
  note s1 = step [OF a, of as]
  from exec_next [OF a] show ?case
  proof
    assume n: "new = []"
    with Cons.prems a obtain rest where "exec_all as f1 = Some (rest, g)" "out = o1 @ rest" by (auto split: bind_splits)
    with Cons.IH [of f1 rest] s1 n irq_run.go show ?thesis by (metis append_Nil concat.simps(2))
  next
    assume "\<exists>k. a = Fast_Path k \<and> new = [Complete k]"
    then obtain k where k: "new = [Complete k]" by blast
    with Cons.prems a obtain n2 o2 f2 rest where c: "exec (Complete k) f1 = Some (n2, o2, f2)" "exec_all as f2 = Some (rest, g)"
      "out = o1 @ o2 @ rest" by (auto split: bind_splits)
    from exec_next [OF c(1)] have "n2 = []" by simp
    with step [OF c(1), of as] have "irq_step (st (new @ as) f1) o2 (st as f2)" using k by simp
    with Cons.IH [OF c(2)] s1 c(3) irq_run.go show ?thesis by (metis concat.simps(2))
  qed
qed

lemma exec_all_main: "exec_all as f = Some (out, g) \<Longrightarrow> \<exists>outs. irq_run (as, [], f) outs ([], [], g) \<and> concat outs = out"
  by (rule exec_all_run [where st = "\<lambda>as f. (as, [], f)"]) (rule irq_step.main)

lemma exec_all_handler: "exec_all as f = Some (out, g) \<Longrightarrow> \<exists>outs. irq_run (m, as, f) outs (m, [], g) \<and> concat outs = out"
  by (rule exec_all_run [where st = "\<lambda>as f. (m, as, f)"]) (rule irq_step.handler)

lemma atomic_step_run:
  assumes "framer_step f e out g"
  shows "\<exists>outs. irq_run ([], [], f) outs ([], [], g) \<and> concat outs = out"
proof (cases "from_main e")
  case True
  then have "exec_all (atoms_of e) f = Some (out, g)" using atoms_agree assms by blast
  from exec_all_main [OF this] irq_step.call [OF True, of f] irq_run.go [of "([], [], f)" "[]"] show ?thesis by fastforce
next
  case False
  then consider k k' b where "e = Byte k k' b" | k where "e = Tick k" by (cases e) auto
  then show ?thesis
  proof cases
    case 1
    with assms have "irq_step ([], [], f) [] ([], [], g)" "out = []" by (auto simp: framer_step_Byte intro: irq_step.byte)
    then show ?thesis using irq_run.go irq_run.stop by fastforce
  next
    case (2 k)
    then have "exec_all (atoms_of (Tick k)) f = Some (out, g)" using atoms_agree assms by blast
    from exec_all_handler [OF this, of "[]"] irq_step.tick [of "[]" f k] irq_run.go [of "([], [], f)" "[]"] show ?thesis by fastforce
  qed
qed

section \<open>Properties\<close>

text \<open>
  C21: Whatever the interrupts do between the stores of the framing engine, nothing faults: in every
  interleaving the buffers are kept, each frame handed out has at most 256 bytes, no statement and no
  receive interrupt reaches outside a buffer, and operations and handlers that are under way come to
  their end. The runs in which operations are not interrupted are among the interleavings.
\<close>

theorem interleaving_safe:
  assumes "framer_wf f" and "irq_run ([], [], f) outs (m, h, g)"
  shows "irq_wf g \<and> (\<forall>out \<in> set outs. length out \<le> 256) \<and> (\<forall>a. exec a g \<noteq> None) \<and>
    (\<forall>k k' b. rtu_framer_on_byte k k' b g \<noteq> None) \<and> (\<exists>outs' g'. irq_run (m, h, g) outs' ([], [], g'))"
proof -
  have "irq_wf g \<and> (\<forall>out \<in> set outs. length out \<le> 256)" using irq_run_keeps [OF assms(2)] framer_wf_irq [OF assms(1)] by simp
  moreover from this have "exec a g \<noteq> None" "rtu_framer_on_byte k k' b g \<noteq> None" for a k k' b
    using exec_irq [of g a] on_byte_irq [of g k k' b] by auto
  ultimately show ?thesis using irq_drains [of g m h] by blast
qed

lemma interleaving_safe_witness:
  "\<exists>outs m h g. irq_run ([], [], port_framer) outs (m, h, g) \<and> irq_wf g \<and> fstate g = RTU_FRAMER_RECEIVING \<and> \<not> t35_armed g"
proof -
  define k where "k = \<lparr>LOAD = 999, VAL = 999, PENDSTSET = False, VAL_again = (0 :: u32)\<rparr>"
  define f where "f = port_framer\<lparr>t35_armed := False, rx_len := 0, fstate := RTU_FRAMER_IDLE\<rparr>"
  have "framer_wf f" "fstate f = RTU_FRAMER_IDLE" "\<not> frame_ready f"
    using port_framer_simps(1,3) by (simp_all add: f_def framer_wf_def)
  from first_byte [OF this, of k k 7] obtain g where g: "rtu_framer_on_byte k k 7 f = Some g" "fstate g = RTU_FRAMER_RECEIVING"
    by (auto simp: assembling_def)
  have "irq_run ([], [], port_framer) [[], [], [], [], [], []] ([Drop_Ready], [], g\<lparr>t35_armed := False\<rparr>)"
  proof (intro irq_run.go)
    show "irq_step ([], [], port_framer) [] ([Disarm, Zero_Len, Go_Idle, Disarm, Drop_Ready], [], port_framer)"
      using irq_step.call [of Tx_Begin port_framer] by simp
    show "irq_step ([Disarm, Zero_Len, Go_Idle, Disarm, Drop_Ready], [], port_framer) []
        ([Zero_Len, Go_Idle, Disarm, Drop_Ready], [], port_framer\<lparr>t35_armed := False\<rparr>)"
      using irq_step.main [of Disarm] by (fastforce simp: just_def)
    show "irq_step ([Zero_Len, Go_Idle, Disarm, Drop_Ready], [], port_framer\<lparr>t35_armed := False\<rparr>) []
        ([Go_Idle, Disarm, Drop_Ready], [], port_framer\<lparr>t35_armed := False, rx_len := 0\<rparr>)"
      using irq_step.main [of Zero_Len] by (fastforce simp: just_def)
    show "irq_step ([Go_Idle, Disarm, Drop_Ready], [], port_framer\<lparr>t35_armed := False, rx_len := 0\<rparr>) []
        ([Disarm, Drop_Ready], [], f)"
      using irq_step.main [of Go_Idle] by (fastforce simp: just_def f_def)
    show "irq_step ([Disarm, Drop_Ready], [], f) [] ([Disarm, Drop_Ready], [], g)" by (rule irq_step.byte [OF g(1)])
    show "irq_step ([Disarm, Drop_Ready], [], g) [] ([Drop_Ready], [], g\<lparr>t35_armed := False\<rparr>)"
      using irq_step.main [of Disarm] by (fastforce simp: just_def)
  qed (rule irq_run.stop)
  from interleaving_safe [OF port_framer_simps(1) this] this g(2) show ?thesis by fastforce
qed

theorem atomic_runs_included:
  assumes "framer_run f es outs g"
  shows "\<exists>outs'. irq_run ([], [], f) outs' ([], [], g) \<and> concat outs' = concat outs"
  using assms
proof (induction rule: framer_run.induct)
  case (run_nil f)
  then show ?case using irq_run.stop by fastforce
next
  case (run_step f e out g es outs h)
  with atomic_step_run irq_run_append show ?case by (metis concat.simps(2) concat_append)
qed

text \<open>
  A completed frame is safe in every interleaving: until the main program takes it, clears it or
  begins to transmit, neither interrupts nor the other statements change it.
\<close>

fun consumes :: "framer_atom \<Rightarrow> bool" where
  "consumes Deliver = True"
| "consumes (Fetch _) = True"
| "consumes Clear_All = True"
| "consumes Drop_Ready = True"
| "consumes _ = False"

lemma exec_keeps_pending:
  "exec a f = Some (as, out, g) \<Longrightarrow> frame_ready f \<Longrightarrow> \<not> consumes a \<Longrightarrow>
    frame_ready g \<and> completed_buffer g = completed_buffer f \<and> completed_len g = completed_len f \<and> out = []"
  by (cases a) (auto simp: just_def rtu_try_complete_frame_def Let_def split: bind_splits if_splits)

theorem pending_frame_survives:
  assumes "irq_step (m, h, f) out (m', h', g)" and "frame_ready f" and "\<forall>a \<in> set (take 1 h @ take 1 m). \<not> consumes a"
  shows "frame_ready g \<and> completed_buffer g = completed_buffer f \<and> completed_len g = completed_len f \<and> out = []"
  using assms(1)
proof (cases rule: irq_step.cases)
  case (byte k k' b)
  with pending_frame_kept [of f "Byte k k' b" "[]" g] assms(2) show ?thesis by (simp add: framer_step_Byte)
next
  case (handler a as h)
  with exec_keeps_pending assms(2,3) show ?thesis by fastforce
next
  case (main a as m)
  with exec_keeps_pending assms(2,3) show ?thesis by fastforce
qed (use assms(2) in simp_all)

text \<open>
  A receive interrupt that comes after SysTick has fired and before its handler has counted the
  millisecond sees a time that is one millisecond too early: SysTick is no longer pending, and its
  counter has started again. The time since the last byte then wraps round, and a frame is thrown away
  although its bytes follow one another without a gap.
\<close>

lemma clock_Suc: "clock (ms + 1) k = clock ms k + 1000"
  by (simp add: clock_def rtu_time_us_def algebra_simps)

theorem preempted_tick_restarts:
  assumes "framer_wf f" and "fstate f = RTU_FRAMER_RECEIVING" and "\<not> frame_ready f"
    and "clock (ms_tick f + 1) k - last_byte_us f = e" and "unat e < 1000" and "unat (t15_us f) + 1000 < 2 ^ 32"
  shows "\<exists>g. irq_run ([], [], f) [[], []] ([], [Bump, Fast_Path kt], g) \<and> rx_len g = 1 \<and> rx_buffer g ! 0 = b"
proof -
  obtain g where g: "rtu_framer_on_byte k k' b f = Some g" using on_byte_total [OF assms(1)] by blast
  have "rtu_elapsed_us f k = e - 1000" using assms(4) [symmetric] by (simp add: rtu_elapsed_us_def rtu_time_clock clock_Suc)
  moreover have "unat (e - 1000) = 2 ^ 32 - 1000 + unat e"
  proof -
    have "e - 1000 = e + of_nat (2 ^ 32 - 1000)" by simp
    then have "unat (e - 1000) = (unat e + (2 ^ 32 - 1000)) mod 2 ^ 32" by (simp only: unat_word_ariths unat_of_nat) simp
    with assms(5) show ?thesis by simp
  qed
  ultimately have "rtu_elapsed_us f k > t15_us f" using assms(6) by (simp add: word_less_nat_alt)
  moreover have "0 < length (rx_buffer f)" using assms(1) by (auto simp: framer_wf_def)
  ultimately have "rx_len g = 1 \<and> rx_buffer g ! 0 = b"
    using g assms(2,3) by (auto simp: rtu_framer_on_byte_def wr_def rtu_timer_start_t35_def)
  moreover have "irq_run ([], [], f) [[], []] ([], [Bump, Fast_Path kt], g)"
    using irq_step.tick [of "[]" f kt] irq_step.byte [OF g] by (auto intro!: irq_run.intros)
  ultimately show ?thesis by blast
qed

end
