(* ===== verification/F767_Example.thy ===== *)
theory F767_Example
  imports Can_Driver
begin

text \<open>
  The CANopen slave of \<open>examples/stm32f767_canopen/main_canopen_f767.c\<close>: its start, its loop and its receive
  interrupt, around the node of this library. Its synchronisation functions and the mirrors they use are in
  \<open>Co_Od\<close> with the board's. The machine is what the HAL does: set-up and receive FIFO of the
  controller, the tick, and how many receive interrupts come at a point where they are taken, before
  each pass of the loop and before it polls; none, as long as nobody enables the vector, which these
  sources do not. An error loop at the start is the inner \<open>None\<close>.

  Shown: once the controller is set up, any number of passes goes through in bounds, with the outputs
  mirrored and the input mirrors as they started; and the heartbeat goes on by the tick.
\<close>

section \<open>Operations\<close>

text \<open>Of \<open>can_f767_hal.h\<close>, the peripheral clock and the bit timing, in time quanta; the driver has its own copy.\<close>

abbreviation (input) F767_APB1_FREQ :: nat where "F767_APB1_FREQ \<equiv> 54000000"
abbreviation (input) F767_CAN_PRESCALER :: nat where "F767_CAN_PRESCALER \<equiv> 6"
abbreviation (input) F767_CAN_BS1 :: nat where "F767_CAN_BS1 \<equiv> 13"
abbreviation (input) F767_CAN_BS2 :: nat where "F767_CAN_BS2 \<equiv> 4"

record 'h f767_machine =
  f7_setup :: "'h can_setup"
  f7_can :: "'h can_hal"
  HAL_GetTick :: "'h \<Rightarrow> u32 \<times> 'h"
  pending_rx :: "'h \<Rightarrow> nat \<times> 'h"

record 'h f767 =
  f7_stack :: "canopen_node \<times> can"
  last_tick :: u32
  hardware :: 'h

definition HAL_CAN_RxFifo0MsgPendingCallback ::
    "'h can_hal \<Rightarrow> (canopen_node \<times> can) \<times> 'h \<Rightarrow> ((canopen_node \<times> can) \<times> 'h) option" where
  "HAL_CAN_RxFifo0MsgPendingCallback hal s =
     (case can_driver_receive hal (snd s) of
        (None, h) \<Rightarrow> Some (fst s, h)
      | (Some (frame, len), h) \<Rightarrow> do {
          (_, t) \<leftarrow> canopen_rx_frame (cob_id frame) (frame_data frame) len (fst s);
          Some (t, h) })"

definition take_rx_irqs :: "'h f767_machine \<Rightarrow> (canopen_node \<times> can) \<times> 'h \<Rightarrow> ((canopen_node \<times> can) \<times> 'h) option" where
  "take_rx_irqs m s =
     (let (n, h) = pending_rx m (snd s) in for_n n (\<lambda>_. HAL_CAN_RxFifo0MsgPendingCallback (f7_can m)) (fst s, h))"

definition f767_init :: "'h f767_machine \<Rightarrow> can \<Rightarrow> 'h \<Rightarrow> 'h f767 option option" where
  "f767_init m c h =
     (case can_driver_init (f7_setup m) True 500000 h of (ok, h) \<Rightarrow>
        if \<not> ok then Some None
        else case canopen_init 1 None c of
          None \<Rightarrow> None
        | Some None \<Rightarrow> Some None
        | Some (Some s) \<Rightarrow>
          let (_, h) = can_driver_filter_config (f7_setup m) 1 h;
              (_, h) = can_driver_start (f7_setup m) h;
              (tick, h) = HAL_GetTick m h
          in Some (Some \<lparr>f7_stack = s, last_tick = tick, hardware = h\<rparr>))"

definition f767_pass :: "'h f767_machine \<Rightarrow> 'h f767 \<Rightarrow> 'h f767 option" where
  "f767_pass m s = do {
     (nc, h) \<leftarrow> take_rx_irqs m (f7_stack s, hardware s);
     let (current_tick, h) = HAL_GetTick m h;
     let delta_ms = current_tick - last_tick s;
     if delta_ms \<ge> 1 then do {
       nc \<leftarrow> canopen_process delta_ms nc;
       (nc, h) \<leftarrow> take_rx_irqs m (nc, h);
       (nc, h) \<leftarrow> service_can (f7_can m) h nc;
       Some \<lparr>f7_stack = nc, last_tick = current_tick, hardware = h\<rparr>
     } else Some (s\<lparr>f7_stack := nc, hardware := h\<rparr>)
   }"

definition f767_loop :: "'h f767_machine \<Rightarrow> nat \<Rightarrow> 'h f767 \<Rightarrow> 'h f767 option" where
  "f767_loop m n s = for_n n (\<lambda>_. f767_pass m) s"

text \<open>The initialisers of the statics.\<close>

definition f767_reset_io :: f767_io where
  "f767_reset_io = \<lparr>s_hw_digital_inputs = 0, s_hw_digital_outputs = 0, s_hw_analog_inputs = [0, 0, 0, 0],
     s_hw_analog_outputs = [0, 0]\<rparr>"

definition f767_power_on :: "can \<Rightarrow> bool" where
  "f767_power_on c \<longleftrightarrow> can_wf c \<and> co_app c = F767_App f767_reset_io"

text \<open>What the FIFO of the controller is relied on for; \<open>left\<close> bounds the messages in it.\<close>

definition f767_fifo_ok :: "'h f767_machine \<Rightarrow> ('h \<Rightarrow> nat) \<Rightarrow> bool" where
  "f767_fifo_ok m left \<longleftrightarrow> (\<forall>w. case HAL_CAN_GetRxMessage (f7_can m) w of (msg, w') \<Rightarrow>
     (case msg of Some (hdr, data) \<Rightarrow>
        length data = 8 \<and> (HAL_CAN_GetRxFifoFillLevel (f7_can m) w \<noteq> 0 \<longrightarrow> left w' < left w) | None \<Rightarrow> True))"

lemma f767_fifo:
  assumes "f767_fifo_ok m left"
  shows "can_fifo (f7_can m) left"
proof
  have *: "length data = 8 \<and> (HAL_CAN_GetRxFifoFillLevel (f7_can m) w \<noteq> 0 \<longrightarrow> left w' < left w)"
    if "HAL_CAN_GetRxMessage (f7_can m) w = (Some (hdr, data), w')" for w hdr data w'
    using assms [unfolded f767_fifo_ok_def, rule_format, of w] that by simp
  show "HAL_CAN_GetRxMessage (f7_can m) w = (Some (hdr, data), w') \<Longrightarrow> length data = 8" for w hdr data w' using * by blast
  show "HAL_CAN_GetRxFifoFillLevel (f7_can m) w \<noteq> 0 \<Longrightarrow> HAL_CAN_GetRxMessage (f7_can m) w = (Some x, w') \<Longrightarrow> left w' < left w"
    for w x w' using * by (cases x) blast
qed

section \<open>The loop is a run of the node\<close>

lemma node_run_append: "node_run (xs @ ys) s = do { t \<leftarrow> node_run xs s; node_run ys t }"
  by (induction xs arbitrary: s) (auto split: bind_splits)

text \<open>Calls in bounds that lead from one state of the node to another, and the time they pass.\<close>

definition runs_for :: "nat \<Rightarrow> canopen_node \<times> can \<Rightarrow> canopen_node \<times> can \<Rightarrow> bool" where
  "runs_for k s t \<longleftrightarrow> (\<exists>es. node_run es s = Some t \<and> (\<forall>e \<in> set es. call_ok e) \<and> sum_list (map tick es) = k)"

lemma runs_for_refl: "runs_for 0 s s"
  unfolding runs_for_def by (rule exI [of _ "[]"]) simp

lemma runs_for_trans:
  assumes "runs_for j s t" "runs_for k t u"
  shows "runs_for (j + k) s u"
proof -
  obtain xs ys where "node_run xs s = Some t" "\<forall>e \<in> set xs. call_ok e" "sum_list (map tick xs) = j"
    "node_run ys t = Some u" "\<forall>e \<in> set ys. call_ok e" "sum_list (map tick ys) = k"
    using assms by (auto simp: runs_for_def)
  then show ?thesis unfolding runs_for_def by (intro exI [of _ "xs @ ys"]) (auto simp: node_run_append)
qed

lemma runs_for_call: "node_call e s = Some t \<Longrightarrow> call_ok e \<Longrightarrow> runs_for (tick e) s t"
  unfolding runs_for_def by (rule exI [of _ "[e]"]) simp

lemma runs_for_keeps:
  assumes "runs_for k s t" "node_ok canopen_default_od_get 1 s"
  shows "node_ok canopen_default_od_get 1 t" "shows_on (snd s) (snd t)"
proof -
  obtain es where "node_run es s = Some t" "\<forall>e \<in> set es. call_ok e" using assms(1) by (auto simp: runs_for_def)
  with board_od.node_run_keeps [OF assms(2), of es] have "board_od.call_keeps 1 s t" by auto
  then show "node_ok canopen_default_od_get 1 t" "shows_on (snd s) (snd t)" by (simp_all add: board_od.call_keeps_def)
qed

context can_fifo
begin

lemma callback_runs:
  assumes "node_ok canopen_default_od_get 1 s"
  shows "\<exists>t h'. HAL_CAN_RxFifo0MsgPendingCallback hal (s, h) = Some (t, h') \<and> runs_for 0 s t"
proof -
  obtain r h1 where rec: "can_driver_receive hal h = (r, h1)" by fastforce
  show ?thesis
  proof (cases r)
    case None
    with rec show ?thesis by (simp add: HAL_CAN_RxFifo0MsgPendingCallback_def runs_for_refl)
  next
    case (Some m)
    obtain frame len where m: "m = (frame, len)" by fastforce
    let ?e = "Frame (cob_id frame) (frame_data frame) len"
    have ok: "call_ok ?e" using receive_buffer [of h frame len h1] rec Some m by simp
    with board_od.node_call_keeps [OF assms] obtain t where t: "node_call ?e s = Some t" by blast
    then obtain b where "canopen_rx_frame (cob_id frame) (frame_data frame) len s = Some (b, t)" by auto
    with rec Some m runs_for_call [OF t ok] show ?thesis by (simp add: HAL_CAN_RxFifo0MsgPendingCallback_def)
  qed
qed

lemma irqs_run:
  assumes "f7_can m = hal" "node_ok canopen_default_od_get 1 s"
  shows "\<exists>t h'. take_rx_irqs m (s, h) = Some (t, h') \<and> runs_for 0 s t"
proof -
  obtain n h1 where n: "pending_rx m h = (n, h1)" by fastforce
  have "\<exists>x. for_n n (\<lambda>_. HAL_CAN_RxFifo0MsgPendingCallback hal) (s, h1) = Some x \<and> runs_for 0 s (fst x)"
  proof (rule for_n_invariant [where P = "\<lambda>_ x. runs_for 0 s (fst x)"])
    fix i and x :: "(canopen_node \<times> can) \<times> 'h"
    assume x: "runs_for 0 s (fst x)"
    from callback_runs [OF runs_for_keeps(1) [OF x assms(2)], of "snd x"] obtain t h' where
      "HAL_CAN_RxFifo0MsgPendingCallback hal x = Some (t, h')" "runs_for 0 (fst x) t" by auto
    with runs_for_trans [OF x] show "\<exists>y. HAL_CAN_RxFifo0MsgPendingCallback hal x = Some y \<and> runs_for 0 s (fst y)" by fastforce
  qed (simp add: runs_for_refl)
  with n assms(1) show ?thesis by (auto simp: take_rx_irqs_def)
qed

lemma service_runs:
  assumes "node_ok canopen_default_od_get 1 s"
  shows "\<exists>t h'. service_can hal h s = Some (t, h') \<and> runs_for 0 s t"
proof -
  have "\<exists>t. node_call e s = Some t \<and> node_ok canopen_default_od_get 1 t"
    if "node_ok canopen_default_od_get 1 s" "call_ok e" for e s
    using board_od.node_call_keeps [OF that] by (auto simp: board_od.call_keeps_def)
  from service_is_run [of "node_ok canopen_default_od_get 1" s "\<lambda>_. 0" h, OF this assms] obtain es t h' where
    "service_can hal h s = Some (t, h')" "node_run es s = Some t" "\<forall>e \<in> set es. call_ok e \<and> tick e = 0" by blast
  moreover from this(3) have "sum_list (map tick es) = 0" by (simp add: sum_list_nonneg_eq_0_iff)
  ultimately show ?thesis unfolding runs_for_def by blast
qed

lemma pass_runs:
  assumes "f7_can m = hal" "node_ok canopen_default_od_get 1 (f7_stack s)"
  shows "\<exists>t. f767_pass m s = Some t \<and> runs_for (unat (last_tick t - last_tick s)) (f7_stack s) (f7_stack t)"
proof -
  obtain t1 h1 where 1: "take_rx_irqs m (f7_stack s, hardware s) = Some (t1, h1)" "runs_for 0 (f7_stack s) t1"
    using irqs_run [OF assms] by blast
  note ok1 = runs_for_keeps(1) [OF 1(2) assms(2)]
  obtain now h2 where now: "HAL_GetTick m h1 = (now, h2)" by fastforce
  let ?d = "now - last_tick s"
  show ?thesis
  proof (cases "?d \<ge> 1")
    case True
    from board_od.node_call_keeps [OF ok1, of "Tick ?d"] obtain t2 where 2: "canopen_process ?d t1 = Some t2" by auto
    then have r2: "runs_for (unat ?d) t1 t2" using runs_for_call [of "Tick ?d"] by simp
    note ok2 = runs_for_keeps(1) [OF r2 ok1]
    obtain t3 h3 where 3: "take_rx_irqs m (t2, h2) = Some (t3, h3)" "runs_for 0 t2 t3" using irqs_run [OF assms(1) ok2] by blast
    obtain t4 h4 where 4: "service_can hal h3 t3 = Some (t4, h4)" "runs_for 0 t3 t4"
      using service_runs [OF runs_for_keeps(1) [OF 3(2) ok2]] by blast
    have "runs_for (unat ?d) (f7_stack s) t4"
      using runs_for_trans [OF runs_for_trans [OF runs_for_trans [OF 1(2) r2] 3(2)] 4(2)] by simp
    with 1 now True 2 3 4 assms(1) show ?thesis by (simp add: f767_pass_def Let_def)
  next
    case False
    with 1 now show ?thesis by (simp add: f767_pass_def Let_def)
  qed
qed

text \<open>Time that passes between two states is at least what the tick shows.\<close>

lemma loop_runs:
  assumes "f7_can m = hal" "node_ok canopen_default_od_get 1 (f7_stack s)"
  shows "\<exists>t k. f767_loop m n s = Some t \<and> runs_for k (f7_stack s) (f7_stack t) \<and> unat (last_tick t - last_tick s) \<le> k"
proof -
  have "\<exists>t. for_n n (\<lambda>_. f767_pass m) s = Some t \<and>
      (\<exists>k. runs_for k (f7_stack s) (f7_stack t) \<and> (of_nat k :: u32) = last_tick t - last_tick s)"
  proof (rule for_n_invariant [where P = "\<lambda>_ t. \<exists>k. runs_for k (f7_stack s) (f7_stack t) \<and> of_nat k = last_tick t - last_tick s"])
    fix i and t :: "'h f767"
    assume "\<exists>k. runs_for k (f7_stack s) (f7_stack t) \<and> of_nat k = last_tick t - last_tick s"
    then obtain k where k: "runs_for k (f7_stack s) (f7_stack t)" "of_nat k = last_tick t - last_tick s" by blast
    from pass_runs [OF assms(1) runs_for_keeps(1) [OF k(1) assms(2)]] obtain u where
      u: "f767_pass m t = Some u" "runs_for (unat (last_tick u - last_tick t)) (f7_stack t) (f7_stack u)" by blast
    have "(of_nat (k + unat (last_tick u - last_tick t)) :: u32) = last_tick u - last_tick s" using k(2) by simp
    with u(1) runs_for_trans [OF k(1) u(2)]
    show "\<exists>u. f767_pass m t = Some u \<and> (\<exists>k. runs_for k (f7_stack s) (f7_stack u) \<and> of_nat k = last_tick u - last_tick s)" by blast
  qed (intro exI [of _ 0], simp add: runs_for_refl)
  then obtain t k where "f767_loop m n s = Some t" "runs_for k (f7_stack s) (f7_stack t)" "(of_nat k :: u32) = last_tick t - last_tick s"
    by (auto simp: f767_loop_def)
  moreover have "unat (of_nat k :: u32) \<le> k" by (simp add: unat_of_nat take_bit_nat_less_eq_self)
  ultimately show ?thesis by (metis (no_types))
qed

end

section \<open>Properties\<close>

text \<open>The driver sets the timing of the header, which is 500 kbit/s with the sample point at 77.8 percent.\<close>

lemma f767_timing:
  "can_bit_timing True 500000 = Some (F767_CAN_PRESCALER, F767_CAN_BS1, F767_CAN_BS2)"
  "F767_APB1_FREQ = F767_CAN_PRESCALER * (1 + F767_CAN_BS1 + F767_CAN_BS2) * 500000"
  "(1 + F767_CAN_BS1) * 1000 div (1 + F767_CAN_BS1 + F767_CAN_BS2) = 777"
  by (simp_all add: can_bit_timing_def)

text \<open>The start: without the controller it hangs, and with it the node has sent its boot-up message.\<close>

lemma f767_init_fails: "\<not> fst (can_driver_init (f7_setup m) True 500000 h) \<Longrightarrow> f767_init m c h = Some None"
  by (auto simp: f767_init_def split: prod.split)

lemma f767_starts:
  assumes "f767_power_on c" and "fst (can_driver_init (f7_setup m) True 500000 h)"
  shows "\<exists>s. f767_init m c h = Some (Some s) \<and> node_ok canopen_default_od_get 1 (f7_stack s) \<and>
    app_shown (snd (f7_stack s)) \<and> co_app (snd (f7_stack s)) = F767_App f767_reset_io \<and>
    tx_log (snd (f7_stack s)) = tx_log c @ [heartbeat_frame 1 0] \<and>
    (\<forall>h l. store c (0x1017, 0) = [l, h] \<longrightarrow> heartbeat_period_ms (node_nmt (fst (f7_stack s))) = be16 h l) \<and>
    (\<exists>w. last_tick s = fst (HAL_GetTick m w) \<and> hardware s = snd (HAL_GetTick m w))"
proof -
  obtain h1 where 1: "can_driver_init (f7_setup m) True 500000 h = (True, h1)" using assms(2) by (metis prod.collapse)
  obtain x h2 where 2: "can_driver_filter_config (f7_setup m) 1 h1 = (x, h2)" by fastforce
  obtain y h3 where 3: "can_driver_start (f7_setup m) h2 = (y, h3)" by fastforce
  obtain k h4 where 4: "HAL_GetTick m h3 = (k, h4)" by fastforce
  have c: "can_wf c" "co_app c = F767_App f767_reset_io" using assms(1) by (simp_all add: f767_power_on_def)
  from init_ok [OF c(1), of 1] obtain s where
    s: "canopen_init 1 None c = Some (Some s)" "node_ok canopen_default_od_get 1 s" "co_app (snd s) = co_app c"
      "store (snd s) p_digital_outputs = [0]" "store (snd s) (p_analog_outputs 0) = le16 0" "store (snd s) (p_analog_outputs 1) = le16 0"
      "tx_log (snd s) = tx_log c @ [heartbeat_frame 1 0]"
      "\<forall>h l. store c (0x1017, 0) = [l, h] \<longrightarrow> heartbeat_period_ms (node_nmt (fst s)) = be16 h l" by auto
  have "app_shown (snd s)"
    using s(3-6) c(2) by (auto simp: app_shown_def f767_shown_def f767_reset_io_def read_le16_def le16_def rd_def be16_eq_iff
        less_Suc_eq numeral_2_eq_2)
  moreover have "f767_init m c h = Some (Some \<lparr>f7_stack = s, last_tick = k, hardware = h4\<rparr>)"
    using 1 2 3 4 s(1) by (simp add: f767_init_def)
  moreover have "k = fst (HAL_GetTick m h3)" "h4 = snd (HAL_GetTick m h3)" using 4 by simp_all
  ultimately show ?thesis using s(2,3,7,8) c(2) by (intro exI [of _ "\<lparr>f7_stack = s, last_tick = k, hardware = h4\<rparr>"]) auto
qed

text \<open>
  C30: The example for the STM32F767 runs: once the controller is set up, any number of passes of its loop,
  with the receive interrupts among them, goes through in bounds whatever is received and whatever the
  tick shows. Between the passes the mirrors of the outputs are the values of the objects 0x6200 and
  0x6411; the mirrors of the inputs never change, since nothing reads the hardware into them.
\<close>

theorem f767_runs:
  assumes "f767_fifo_ok m left" and "f767_power_on c" and "fst (can_driver_init (f7_setup m) True 500000 h)"
  shows "\<exists>s. f767_init m c h = Some (Some s) \<and> (\<forall>n. \<exists>t d io. f767_loop m n s = Some t \<and>
    node_ok canopen_default_od_get 1 (f7_stack t) \<and> d = snd (f7_stack t) \<and> co_app d = F767_App io \<and>
    canopen_get_digital_outputs d = Some (s_hw_digital_outputs io) \<and>
    (\<forall>i < 2. canopen_get_analog_output (of_nat i) d = Some (s_hw_analog_outputs io ! i)) \<and>
    s_hw_digital_inputs io = 0 \<and> s_hw_analog_inputs io = [0, 0, 0, 0])"
proof -
  note fifo = f767_fifo [OF assms(1)]
  obtain s where s: "f767_init m c h = Some (Some s)" "node_ok canopen_default_od_get 1 (f7_stack s)"
      "app_shown (snd (f7_stack s))" "co_app (snd (f7_stack s)) = F767_App f767_reset_io"
    using f767_starts [OF assms(2,3)] by blast
  have "\<exists>t d io. f767_loop m n s = Some t \<and>
      node_ok canopen_default_od_get 1 (f7_stack t) \<and> d = snd (f7_stack t) \<and> co_app d = F767_App io \<and>
      canopen_get_digital_outputs d = Some (s_hw_digital_outputs io) \<and>
      (\<forall>i < 2. canopen_get_analog_output (of_nat i) d = Some (s_hw_analog_outputs io ! i)) \<and>
      s_hw_digital_inputs io = 0 \<and> s_hw_analog_inputs io = [0, 0, 0, 0]" for n
  proof -
    obtain t k where t: "f767_loop m n s = Some t" "runs_for k (f7_stack s) (f7_stack t)"
      using can_fifo.loop_runs [OF fifo refl s(2)] by blast
    note ok = runs_for_keeps [OF t(2) s(2)]
    let ?d = "snd (f7_stack t)"
    have l: "link ?d = link (snd (f7_stack s))" "app_shown ?d" using ok(2) s(3) by (simp_all add: shows_on_def)
    obtain io where io: "co_app ?d = F767_App io" "io\<lparr>s_hw_digital_outputs := 0, s_hw_analog_outputs := []\<rparr> =
        f767_reset_io\<lparr>s_hw_digital_outputs := 0, s_hw_analog_outputs := []\<rparr>"
      using l(1) s(4) by (cases "co_app ?d") (auto simp: link_def)
    from arg_cong [OF io(2), of s_hw_digital_inputs] arg_cong [OF io(2), of s_hw_analog_inputs]
    have ins: "s_hw_digital_inputs io = 0" "s_hw_analog_inputs io = [0, 0, 0, 0]" by (simp_all add: f767_reset_io_def)
    from io(1) have "f767_shown io ?d" using l(2) by (simp add: app_shown_def)
    have "(of_nat i :: u8) < 2 \<and> unat (of_nat i :: u8) = i" if "i < 2" for i
      using that by (simp add: word_less_nat_alt)
    with \<open>f767_shown io ?d\<close> have "canopen_get_digital_outputs ?d = Some (s_hw_digital_outputs io)"
        "\<forall>i < 2. canopen_get_analog_output (of_nat i) ?d = Some (s_hw_analog_outputs io ! i)"
      by (simp_all add: f767_shown_def canopen_get_digital_outputs_def canopen_get_analog_output_def rd_def)
    with t(1) ok(1) io(1) ins show ?thesis by blast
  qed
  with s(1) show ?thesis by blast
qed

text \<open>A machine that takes one receive interrupt wherever it can, with the tick the number of messages left.\<close>

definition f767_busy :: "(can_rx_header \<times> u8 list) list f767_machine" where
  "f767_busy = \<lparr>f7_setup = \<lparr>HAL_CAN_Init = (\<lambda>_ w. (True, w)), HAL_CAN_ConfigFilter = (\<lambda>_ w. (True, w)),
       HAL_CAN_Start = Pair True, HAL_CAN_ActivateNotification = Pair True, HAL_CAN_Stop = Pair True\<rparr>,
     f7_can = list_hal, HAL_GetTick = (\<lambda>w. (of_nat (length w), w)), pending_rx = Pair 1\<rparr>"

definition f767_start :: can where
  "f767_start = start_can\<lparr>co_app := F767_App f767_reset_io\<rparr>"

lemma f767_start_on: "f767_power_on f767_start"
  using start_power_on
  by (simp add: f767_power_on_def f767_start_def power_on_def can_wf_def app_wf_def f767_reset_io_def)

lemma f767_busy_init [simp]: "fst (can_driver_init (f7_setup f767_busy) True 500000 w)"
  by (simp add: f767_busy_def can_driver_init_def can_bit_timing_def)

lemma f767_runs_witness:
  "\<exists>s t. f767_init f767_busy f767_start [(\<lparr>rx_StdId = 0, rx_remote = False, rx_DLC = 2\<rparr>, [1, 1]),
       (\<lparr>rx_StdId = 0x201, rx_remote = False, rx_DLC = 1\<rparr>, [0xA5])] = Some (Some s) \<and> f767_loop f767_busy 100 s = Some t"
proof -
  have "f767_fifo_ok f767_busy length"
    by (auto simp: f767_fifo_ok_def f767_busy_def list_hal_def split: list.split)
  from f767_runs [OF this f767_start_on f767_busy_init] show ?thesis by blast
qed

text \<open>
  The heartbeat of the example goes by the tick: once the tick has advanced by the heartbeat period since
  the last pass seen, whatever passes and interrupts came between, the node has sent on its heartbeat
  identifier, even where the tick wrapped around.
\<close>

theorem f767_heartbeat:
  assumes "f767_fifo_ok m left" and "f767_power_on c" and "f767_init m c h = Some (Some s)"
    and "f767_loop m n s = Some t" and "f767_loop m k t = Some u"
    and "0 < heartbeat_period_ms (node_nmt (fst (f7_stack t)))"
    and "unat (heartbeat_period_ms (node_nmt (fst (f7_stack t)))) \<le> unat (last_tick u - last_tick t)"
  shows "\<exists>fs. tx_log (snd (f7_stack u)) = tx_log (snd (f7_stack t)) @ fs \<and> (\<exists>fr \<in> set fs. cob_id fr = 0x701)"
proof -
  note fifo = f767_fifo [OF assms(1)]
  have "fst (can_driver_init (f7_setup m) True 500000 h)" using f767_init_fails [of m h c] assms(3) by force
  from f767_starts [OF assms(2) this] assms(3) have s: "node_ok canopen_default_od_get 1 (f7_stack s)" by auto
  obtain j where "runs_for j (f7_stack s) (f7_stack t)"
    using can_fifo.loop_runs [OF fifo refl s, of n] assms(4) by auto
  note ok = runs_for_keeps(1) [OF this s]
  obtain j es where j: "unat (last_tick u - last_tick t) \<le> j" "node_run es (f7_stack t) = Some (f7_stack u)"
      "\<forall>e \<in> set es. call_ok e" "sum_list (map tick es) = j"
    using can_fifo.loop_runs [OF fifo refl ok, of k] assms(5) by (auto simp: runs_for_def)
  have "unat (heartbeat_timer_ms (node_nmt (fst (f7_stack t)))) \<le> unat (heartbeat_period_ms (node_nmt (fst (f7_stack t))))"
    using ok by (simp add: node_ok_def node_wf_def nmt_wf_def word_le_nat_alt)
  with assms(7) j(1,4) have "unat (heartbeat_timer_ms (node_nmt (fst (f7_stack t)))) \<le> sum_list (map tick es)" by simp
  from board_od.node_run_beats [OF ok j(3) assms(6) this j(2)] show ?thesis by (simp add: beats_def)
qed

text \<open>A machine without messages, on which 250 ms pass between two looks at the tick.\<close>

definition f767_ticking :: "u32 f767_machine" where
  "f767_ticking = \<lparr>f7_setup = \<lparr>HAL_CAN_Init = (\<lambda>_ w. (True, w)), HAL_CAN_ConfigFilter = (\<lambda>_ w. (True, w)),
       HAL_CAN_Start = Pair True, HAL_CAN_ActivateNotification = Pair True, HAL_CAN_Stop = Pair True\<rparr>,
     f7_can = \<lparr>HAL_CAN_AddTxMessage = (\<lambda>_ _ w. (True, w)), HAL_CAN_GetRxFifoFillLevel = (\<lambda>_. 0),
       HAL_CAN_GetRxMessage = Pair None\<rparr>,
     HAL_GetTick = (\<lambda>w. (w, w + 250)), pending_rx = Pair 0\<rparr>"

lemma f767_ticking_pass:
  assumes "f767_pass f767_ticking s = Some t" "hardware s = last_tick s + 250"
  shows "last_tick t = last_tick s + 250 \<and> hardware t = last_tick t + 250"
  using assms
  by (auto simp: f767_pass_def f767_ticking_def take_rx_irqs_def can_driver_receive_def Let_def bind_eq_Some_conv
      service_can.simps split: if_split_asm)

lemma f767_heartbeat_witness:
  "\<exists>s t fs. f767_init f767_ticking f767_start 0xFFFFFFF0 = Some (Some s) \<and> f767_loop f767_ticking 4 s = Some t \<and>
     tx_log (snd (f7_stack t)) = tx_log (snd (f7_stack s)) @ fs \<and> (\<exists>fr \<in> set fs. cob_id fr = 0x701)"
proof -
  have fifo: "f767_fifo_ok f767_ticking (\<lambda>_. 0)" by (simp add: f767_fifo_ok_def f767_ticking_def)
  have set_up: "fst (can_driver_init (f7_setup f767_ticking) True 500000 0xFFFFFFF0)"
    by (simp add: f767_ticking_def can_driver_init_def can_bit_timing_def)
  have "store f767_start (0x1017, 0) = [0xE8, 0x03]"
    by (simp add: f767_start_def start_can_def boot_store_def Board_vars_def le16_def hi8_def lo8_def)
  with f767_starts [OF f767_start_on set_up] obtain s w where
    s: "f767_init f767_ticking f767_start 0xFFFFFFF0 = Some (Some s)" "heartbeat_period_ms (node_nmt (fst (f7_stack s))) = be16 0x03 0xE8"
      "last_tick s = fst (HAL_GetTick f767_ticking w)" "hardware s = snd (HAL_GetTick f767_ticking w)" by blast
  then have period: "heartbeat_period_ms (node_nmt (fst (f7_stack s))) = 1000" by (simp add: be16_eq_iff hi8_def lo8_def)
  have tick: "hardware s = last_tick s + 250" using s(3,4) by (simp add: f767_ticking_def)
  from f767_runs [OF fifo f767_start_on set_up] s(1) obtain t where
    t: "f767_loop f767_ticking 4 s = Some t" by fastforce
  have "last_tick t = last_tick s + 1000"
    using t tick f767_ticking_pass by (auto simp: f767_loop_def eval_nat_numeral bind_eq_Some_conv)
  then have "unat (heartbeat_period_ms (node_nmt (fst (f7_stack s)))) \<le> unat (last_tick t - last_tick s)"
    "0 < heartbeat_period_ms (node_nmt (fst (f7_stack s)))" by (simp_all add: period)
  moreover have "f767_loop f767_ticking 0 s = Some s" by (simp add: f767_loop_def)
  ultimately show ?thesis using f767_heartbeat [OF fifo f767_start_on s(1) _ t] t s(1) by blast
qed

end
