(* ===== verification/Spec2Isabelle.thy ===== *)
theory Spec2Isabelle
  imports Firmware_Live Board_Setup Generic_Uart Custom_Map Framer_Irq F767_Example
begin

text \<open>
  Verification of the firmware of the STM32 automation board: a Modbus slave (RTU on two serial
  ports, and TCP), a Modbus RTU master on the RS485 port, a CANopen node, and the digital, analog
  and relay outputs they all drive.

  \<^bold>\<open>Conventions.\<close> C integers are words of their width, so wrap-around is that of the code; a buffer is a
  byte list of its size. Every read of a received buffer, a table indexed by received data or an
  object behind a pointer is checked: \<open>None\<close> is an access out of bounds, and a theorem that a function
  returns \<open>Some\<close> says it made none. Status codes and abort codes are values (\<open>modbus_status\<close>, sums with
  \<open>Inl\<close> the error). The static variables of a file are a record passed through its functions. The
  vendor HAL, the clock, the arrival of interrupts, ADC results and the success of transmissions are
  parameters: functions of the environment or of a call count, with what is assumed of them in a
  locale (\<open>serial_env\<close>, \<open>polling_env\<close>, \<open>can_fifo\<close>, \<open>machine_env\<close>, \<open>uart_clock\<close>). Interrupts are taken
  between the steps of the main program.

  \<^bold>\<open>Theories\<close>, in the order they build on one another:

  \<^item> \<open>Prelude\<close>: word types, checked access, big-endian values, the counting loop.
  \<^item> \<open>Modbus_Types\<close>, \<open>Co_Types\<close>: the numeric constants of the headers, as abbreviations.
  \<^item> \<open>Crc\<close>: tables, checksum and silent intervals (\<open>src/modbus.c\<close>). The locale \<open>frame_check\<close> is what the
    framing layers need of a checksum; \<open>crc_register_form\<close> compares the code with the reference CRC.
  \<^item> \<open>Event_Log\<close>, \<open>Diag\<close>: \<open>src/modbus_event.c\<close>, \<open>src/modbus_diag.c\<close>.
  \<^item> \<open>Cell_Bank\<close>, \<open>Board_IO\<close>, \<open>Analog_Volt\<close>: a locale for banks of addressed cells, and the inputs and
    outputs (\<open>src/digital_io.c\<close>, \<open>src/relay.c\<close>, \<open>src/analog_io.c\<close>) over the trace of register writes, which
    is replayed to say what the pins show; the conversions from and to volts, on reals with each float
    operation rounded to single precision.
  \<^item> \<open>Slave_Tables\<close>, \<open>Slave_Pdu\<close>, \<open>Slave_Rtu\<close>, \<open>Slave_Tcp\<close>: the slave of \<open>src/modbus.c\<close> and
    \<open>src/modbus_tcp.c\<close>: tables and synchronisation with the board, one definition per function code,
    the serial frame processor, and the MBAP header. \<open>Slave_Pdu_Props\<close> shows each handler safe,
    \<open>Slave_Pdu_Spec\<close> what a client observes.
  \<^item> \<open>Framer\<close>, \<open>Framer_Irq\<close>: assembly of bytes into frames by silence (\<open>src/rtu_framer.c\<close>), in whole
    operations and with interrupts between their stores.
  \<^item> \<open>Ports\<close>, \<open>Ports_Props\<close>: \<open>src/rs485.c\<close>, \<open>src/rs232.c\<close>, their interrupt handlers, SysTick, and the
    receive callbacks of \<open>src/main.c\<close>, which hand a frame to the waiting master or to the slave.
  \<^item> \<open>Master_Build\<close>, \<open>Master_Parse\<close>, \<open>Master\<close>, \<open>Master_Link\<close>: \<open>src/modbus_master.c\<close>: builders, parsers,
    the transaction over a record of transport functions and every call on top of it. The locale
    \<open>master_link\<close> is a transport with a device at the other end.
  \<^item> \<open>Master_Rtu\<close>: the RS485 transport of \<open>src/modbus_master_rtu.c\<close>. Its receive loop polls until a
    frame or the timeout; it is a partial function. The locale \<open>polling_env\<close> has what a yield callback
    must keep for the loop to end; \<open>waiting_env\<close>, a quiet one, and the pump of the firmware are instances.
  \<^item> \<open>Bus\<close>, \<open>Bus_Link\<close>, \<open>Bus_Spec\<close>: two boards on one line. \<open>serial_env\<close>, \<open>waiting_env\<close> and \<open>master_link\<close>
    are interpreted on the model of the port with a slave of this firmware at the far end, which gives
    the end-to-end properties of the master's calls.
  \<^item> \<open>Co_Od\<close>: the object dictionary (\<open>src/canopen/canopen_od.c\<close>), the default dictionary with its
    variables, and the synchronisation of the linked application: that of \<open>src/main.c\<close>, of the example
    for the STM32F767, or none. The locale \<open>object_dictionary\<close> is the contract
    of a dictionary, interpreted on the default one.
  \<^item> \<open>Co_Nmt\<close>, \<open>Co_Sdo\<close>, \<open>Co_Sdo_Props\<close>, \<open>Co_Pdo\<close>, \<open>Co_Node\<close>: the other files of \<open>src/canopen\<close>. \<open>Co_Nmt\<close>
    holds the NMT slave of CiA 301 as step relations.
  \<^item> \<open>Co_Spec\<close>: the properties of the node over the states it can reach from \<open>main\<close>.
  \<^item> \<open>Can_Driver\<close>, \<open>Ethernet\<close>: \<open>src/can_driver.c\<close> and \<open>src/ethernet.c\<close> over functions of the HAL, with the
    receive loop and the Modbus TCP callback of \<open>src/main.c\<close>.
  \<^item> \<open>Firmware\<close>, \<open>Firmware_Props\<close>, \<open>Firmware_Spec\<close>: \<open>src/main.c\<close> on top of all of these: \<open>main_init\<close>,
    \<open>main_iteration\<close> with the scan and the demo of the master, and \<open>master_yield_pump\<close>, which runs while
    the master waits. One state holds the ports with the slave, and in their environment the node, the
    Ethernet port and the hardware; slave and node share the board. \<open>Firmware_Live\<close> ranks the rounds:
    the next scan always comes, and with it the node's heartbeat.
  \<^item> \<open>Board_Setup\<close>: the pins and clocks of \<open>inc/board_config.h\<close>, and the calls of the vendor HAL that the
    initialisation functions of the drivers and of \<open>main\<close> make, as lists of calls with their arguments,
    replayed into the setting of each pin. The end of this theory brings the two together.
  \<^item> \<open>Generic_Uart\<close>: the transport for other boards in \<open>examples/generic_hal_transport\<close>, over byte-wise
    calls of the UART: a transport of the master, and a polled slave around \<open>modbus_rtu_process\<close>.
  \<^item> \<open>Custom_Map\<close>: the application of \<open>examples/custom_register_map\<close> with sync hooks of its own.
  \<^item> \<open>F767_Example\<close>: the CANopen slave of \<open>examples/stm32f767_canopen\<close>, its start, loop and receive interrupt.

  \<^bold>\<open>What is shown.\<close> Safety: for any bytes received, at any time, slave, master, framing engine, ports and
  node make no access out of bounds, keep their invariants and answer within the sizes of the
  protocols. Function: each function code has its specified effect on the tables and the outputs show
  what they are wired to; what is written over the bus (registers, files, dictionary objects) is what
  is read back, from the master's call to the far slave and back; corrupt frames have no effect.
  Liveness: busy waits and transactions come to their end whatever the peers do; the whole firmware,
  started by \<open>main\<close>, runs any number of rounds, and at every point of a run the next heartbeat comes
  within a bounded number of them and reports the state of the node.
  Set-up: every pin has one function, its clock is on before it is configured, the clock tree and the
  bit rates follow from the crystal, and the outputs drive no pin but their own.
  Refinement: the event log is a bounded queue, the NMT slave is that of CiA 301.

  \<^bold>\<open>Loops and bounds.\<close> \<open>for\<close> loops are \<open>fold\<close> or \<open>for_n\<close> with the bound of the code; the two loops of the
  PDU processor over sub-requests recurse as the code does, with a measure. The loop of the receive
  call, the T3.5 busy wait (along a stream of clock readings) and the CAN receive loop are partial
  functions, shown to end where the clock advances and the FIFO drains. The endless loop of \<open>main\<close> is
  \<open>main_loop\<close> by the number of rounds, any of them. No definition uses fuel.

  \<^bold>\<open>Not modelled.\<close> What the vendor HAL does inside its calls, beyond the pins; interrupts that arrive
  before \<open>main\<close> has finished its initialisation; the fault handlers; the host tests. Outside the framing engine, interrupts are taken between the operations of the main program
  only.
\<close>

section \<open>Isolation of the outputs\<close>

text \<open>
  C24: The outputs are isolated from the other functions of the board: at every point of a run of the firmware,
  every write it has made to a port for a digital output, a relay or a relay LED concerns only pins that
  the start-up has configured as outputs of that bank, so no request on Modbus or CANopen can reach the
  driver enable of the RS485 line or a pin of the Ethernet, CAN or analog interfaces.
\<close>

theorem outputs_isolated:
  assumes "machine_ok m quiet left D" and "reset_ports p" and "length (master_demo_last_regs d) = 2"
    and "main_init p = Some q" and "main_loop m n (start_app q d) = Some s"
  shows "\<forall>bank v i. BSRR bank v \<in> set (hw (s_board (local_slave (app_ports s)))) \<and> i < 16 \<and> (bit v i \<or> bit v (i + 16)) \<longrightarrow>
    pin_setting (chip_after (main_calls c)) (bank_of bank) i = Some output_setting \<and> (bank_of bank, i) \<notin> set RS485_pins"
proof (intro allI impI)
  fix bank v i
  assume w: "BSRR bank v \<in> set (hw (s_board (local_slave (app_ports s)))) \<and> i < 16 \<and> (bit v i \<or> bit v (i + 16))"
  have env: "machine_env m quiet left D" by unfold_locales (rule assms(1))
  have "ready (start_app q d)"
    using main_init_idle [OF assms(2)] assms(3,4) by (auto simp: ready_def start_app_def)
  from machine_env.loop_period(1) [OF env this assms(5)] have "board_wf (s_board (local_slave (app_ports s)))"
    by (rule machine_env.ready_board [OF env])
  with w have "confined (BSRR bank v)" by (auto simp: board_wf_def simp del: confined.simps)
  with w have "i \<in> set (bank_pin_no bank)" by auto
  then show "pin_setting (chip_after (main_calls c)) (bank_of bank) i = Some output_setting \<and> (bank_of bank, i) \<notin> set RS485_pins"
    using bank_pin_setting by blast
qed

lemma outputs_isolated_witness:
  "\<exists>node (q :: (can_rx_header \<times> u8 list) list ports). main_init (boot_ports node []) = Some q \<and> BSRR DO_PORT (push_bit 16 0x07E3) \<in> set (hw (s_board (local_slave q))) \<and>
     pin_setting (chip_after (main_calls 168000000)) GPIOB 10 = Some output_setting"
proof -
  fix node
  obtain q :: "(can_rx_header \<times> u8 list) list ports" where
    q: "main_init (boot_ports node []) = Some q" "BSRR DO_PORT (push_bit 16 0x07E3) \<in> set (hw (s_board (local_slave q)))"
    using main_init_idle [OF boot_reset] by metis
  have "length (master_demo_last_regs boot_demo) = 2" "main_loop calm_machine 0 (start_app q boot_demo) = Some (start_app q boot_demo)"
    by (simp_all add: boot_demo_def)
  from outputs_isolated [OF calm_ok boot_reset this(1) q(1) this(2), of 168000000]
  have "pin_setting (chip_after (main_calls 168000000)) (bank_of DO_PORT) 10 = Some output_setting"
    using q(2) by (auto simp: start_app_def dest!: spec [of _ DO_PORT] spec [of _ "push_bit 16 0x07E3 :: u32"] spec [of _ "10 :: nat"])
  with q show ?thesis by (auto simp: bank_of_def)
qed

end
